(* ===== verification/Rust_Strings.thy ===== *)
theory Rust_Strings
  imports Prelude
begin

text \<open>
  What the sources use of Rust's \<open>str\<close> and \<open>[u8]\<close>: the ASCII classes, UTF-8 validation,
  \<open>trim\<close>, \<open>lines\<close>, decimal printing (\<open>to_string\<close> of the unsigned types) and decimal
  parsing (\<open>parse::<u32>\<close>, \<open>parse::<u64>\<close>). Strings are lists of bytes, so the Unicode
  white space that \<open>trim\<close> removes is recognised by its UTF-8 encoding; on valid UTF-8 an
  encoded character is found at the start or the end of the byte list exactly when it is the
  first or last character, because lead bytes and continuation bytes are disjoint.
\<close>

abbreviation code :: "char \<Rightarrow> nat" where
  "code c \<equiv> of_char c"

abbreviation newline :: char where
  "newline \<equiv> CHR 0x0A"

section \<open>Character classes\<close>

definition is_ascii_digit :: "char \<Rightarrow> bool" where
  "is_ascii_digit c \<longleftrightarrow> 48 \<le> code c \<and> code c \<le> 57"

definition is_ascii_alphanumeric :: "char \<Rightarrow> bool" where
  "is_ascii_alphanumeric c \<longleftrightarrow>
     is_ascii_digit c \<or> (65 \<le> code c \<and> code c \<le> 90) \<or> (97 \<le> code c \<and> code c \<le> 122)"

definition is_ascii_whitespace :: "char \<Rightarrow> bool" where
  "is_ascii_whitespace c \<longleftrightarrow> code c \<in> {9, 10, 12, 13, 32}"

section \<open>UTF-8 validation\<close>

definition cont :: "char \<Rightarrow> bool" where
  "cont c \<longleftrightarrow> 128 \<le> code c \<and> code c \<le> 191"

text \<open>The second byte of a three- or four-byte sequence is restricted by the lead byte.\<close>

definition second_ok :: "nat \<Rightarrow> char \<Rightarrow> bool" where
  "second_ok lead c \<longleftrightarrow> cont c \<and>
     (lead = 224 \<longrightarrow> 160 \<le> code c) \<and> (lead = 237 \<longrightarrow> code c \<le> 159) \<and>
     (lead = 240 \<longrightarrow> 144 \<le> code c) \<and> (lead = 244 \<longrightarrow> code c \<le> 143)"

fun utf8_valid :: "string \<Rightarrow> bool" where
  "utf8_valid [] = True"
| "utf8_valid (a # s) =
     (if code a < 128 then utf8_valid s
      else if 194 \<le> code a \<and> code a \<le> 223 then
        (case s of b # r \<Rightarrow> cont b \<and> utf8_valid r | _ \<Rightarrow> False)
      else if 224 \<le> code a \<and> code a \<le> 239 then
        (case s of b # c # r \<Rightarrow> second_ok (code a) b \<and> cont c \<and> utf8_valid r | _ \<Rightarrow> False)
      else if 240 \<le> code a \<and> code a \<le> 244 then
        (case s of b # c # d # r \<Rightarrow>
           second_ok (code a) b \<and> cont c \<and> cont d \<and> utf8_valid r | _ \<Rightarrow> False)
      else False)"

lemma utf8_valid_ascii: "\<forall>c\<in>set s. code c < 128 \<Longrightarrow> utf8_valid s"
  by (induction s) simp_all

definition from_utf8 :: "string \<Rightarrow> unit + string" where
  "from_utf8 s = (if utf8_valid s then Inr s else Inl ())"

section \<open>trim\<close>

text \<open>The length of the white-space character the list starts with, 0 if there is none.\<close>

definition ws_len :: "string \<Rightarrow> nat" where
  "ws_len s = (case map code s of
      [] \<Rightarrow> 0
    | a # t \<Rightarrow>
       if (9 \<le> a \<and> a \<le> 13) \<or> a = 32 then 1
       else if a = 194 \<and> t \<noteq> [] \<and> hd t \<in> {133, 160} then 2
       else if a = 225 \<and> take 2 t = [154, 128] then 3
       else if a = 226 \<and> 2 \<le> length t \<and> hd t = 128 \<and>
               ((128 \<le> t ! 1 \<and> t ! 1 \<le> 138) \<or> t ! 1 \<in> {168, 169, 175}) then 3
       else if a = 226 \<and> take 2 t = [129, 159] then 3
       else if a = 227 \<and> take 2 t = [128, 128] then 3
       else 0)"

text \<open>The same at the end of a string, given the reversed string.\<close>

definition ws_len_rev :: "string \<Rightarrow> nat" where
  "ws_len_rev s =
     (if ws_len (rev (take 1 s)) = 1 then 1
      else if ws_len (rev (take 2 s)) = 2 then 2
      else if ws_len (rev (take 3 s)) = 3 then 3 else 0)"

function trim_with :: "(string \<Rightarrow> nat) \<Rightarrow> string \<Rightarrow> string" where
  "trim_with f s = (if s = [] \<or> f s = 0 then s else trim_with f (drop (f s) s))"
  by pat_completeness auto
termination
  by (relation "measure (length \<circ> snd)") auto

declare trim_with.simps [simp del]

definition trim_start :: "string \<Rightarrow> string" where
  "trim_start s = trim_with ws_len s"

definition trim_end :: "string \<Rightarrow> string" where
  "trim_end s = rev (trim_with ws_len_rev (rev s))"

definition trim :: "string \<Rightarrow> string" where
  "trim s = trim_end (trim_start s)"

lemma trim_with_id: "f s = 0 \<Longrightarrow> trim_with f s = s"
  by (simp add: trim_with.simps [of f s])

lemma ws_len_plain_ascii:
  assumes "\<forall>c\<in>set s. 33 \<le> code c \<and> code c < 128"
  shows "ws_len s = 0"
  using assms by (cases s) (auto simp: ws_len_def)

lemma trim_plain_ascii:
  assumes "\<forall>c\<in>set s. 33 \<le> code c \<and> code c < 128"
  shows "trim s = s"
proof -
  have a: "ws_len s = 0" using assms by (rule ws_len_plain_ascii)
  have b: "ws_len (rev (take n (rev s))) = 0" for n
    using assms by (intro ws_len_plain_ascii) (auto dest: in_set_takeD)
  have "ws_len_rev (rev s) = 0"
    by (simp add: ws_len_rev_def b)
  then show ?thesis
    using a by (simp add: trim_def trim_start_def trim_end_def trim_with_id)
qed

lemma is_ascii_alphanumeric_plain:
  "is_ascii_alphanumeric c \<Longrightarrow> 33 \<le> code c \<and> code c < 128"
  by (auto simp: is_ascii_alphanumeric_def is_ascii_digit_def)

section \<open>lines\<close>

definition strip_cr :: "string \<Rightarrow> string" where
  "strip_cr s = (if s \<noteq> [] \<and> last s = CHR 0x0D then butlast s else s)"

function lines :: "string \<Rightarrow> string list" where
  "lines s =
     (if s = [] then []
      else case dropWhile (\<lambda>c. c \<noteq> newline) s of
             [] \<Rightarrow> [s]
           | _ # rest \<Rightarrow> strip_cr (takeWhile (\<lambda>c. c \<noteq> newline) s) # lines rest)"
  by pat_completeness auto
termination
  by (relation "measure length") (auto dest: dropWhile_Cons_length)

declare lines.simps [simp del]

lemma lines_Nil [simp]: "lines [] = []"
  by (simp add: lines.simps)

lemma lines_line:
  "newline \<notin> set l \<Longrightarrow> lines (l @ newline # rest) = strip_cr l # lines rest"
proof -
  assume "newline \<notin> set l"
  then have "takeWhile (\<lambda>c. c \<noteq> newline) (l @ newline # rest) = l"
    "dropWhile (\<lambda>c. c \<noteq> newline) (l @ newline # rest) = newline # rest"
    by (auto intro!: takeWhile_stop dropWhile_stop)
  then show ?thesis by (subst lines.simps) simp
qed

definition unlines :: "string list \<Rightarrow> string" where
  "unlines ls = concat (map (\<lambda>l. l @ [newline]) ls)"

lemma unlines_simps [simp]: "unlines [] = []" "unlines (l # ls) = l @ newline # unlines ls"
  by (simp_all add: unlines_def)

lemma unlines_append [simp]: "unlines (xs @ ys) = unlines xs @ unlines ys"
  by (simp add: unlines_def)

lemma lines_unlines: "\<forall>l\<in>set ls. newline \<notin> set l \<Longrightarrow> lines (unlines ls) = map strip_cr ls"
  by (induction ls) (simp_all add: lines_line)

lemma lines_no_newline: "l \<in> set (lines s) \<Longrightarrow> newline \<notin> set l"
proof (induction s rule: lines.induct)
  case (1 s)
  show ?case
  proof (cases "s = []")
    case False
    show ?thesis
    proof (cases "dropWhile (\<lambda>c. c \<noteq> newline) s")
      case Nil
      then have "newline \<notin> set s" by (auto simp: dropWhile_eq_Nil_conv)
      with 1(2) False Nil show ?thesis by (simp add: lines.simps [of s])
    next
      case (Cons c rest)
      have "newline \<notin> set (strip_cr (takeWhile (\<lambda>c. c \<noteq> newline) s))"
        using set_takeWhileD [of newline "\<lambda>c. c \<noteq> newline" s]
        by (auto simp: strip_cr_def dest: in_set_butlastD)
      with 1 False Cons show ?thesis by (auto simp: lines.simps [of s])
    qed
  qed (use 1 in simp)
qed

section \<open>Decimal printing\<close>

definition digit_char :: "nat \<Rightarrow> char" where
  "digit_char d = char_of (48 + d)"

fun nat_to_string :: "nat \<Rightarrow> string" where
  "nat_to_string n =
     (if n < 10 then [digit_char n] else nat_to_string (n div 10) @ [digit_char (n mod 10)])"

declare nat_to_string.simps [simp del]

lemma code_digit_char [simp]: "d < 10 \<Longrightarrow> code (digit_char d) = 48 + d"
  by (simp add: digit_char_def)

lemma nat_to_string_nonempty [simp]: "nat_to_string n \<noteq> []"
  by (subst nat_to_string.simps) simp

lemma nat_to_string_digits: "c \<in> set (nat_to_string n) \<Longrightarrow> is_ascii_digit c"
proof (induction n rule: nat_to_string.induct)
  case (1 n)
  then show ?case
    by (cases "n < 10") (auto simp: nat_to_string.simps [of n] is_ascii_digit_def)
qed

section \<open>Decimal parsing\<close>

definition to_digit :: "char \<Rightarrow> nat option" where
  "to_digit c = (if is_ascii_digit c then Some (code c - 48) else None)"

text \<open>One \<open>checked_mul\<close> and one \<open>checked_add\<close> per digit, against the type's maximum.\<close>

fun parse_digits :: "nat \<Rightarrow> nat \<Rightarrow> string \<Rightarrow> nat option" where
  "parse_digits mx acc [] = Some acc"
| "parse_digits mx acc (c # cs) =
     (case to_digit c of
        None \<Rightarrow> None
      | Some d \<Rightarrow> if acc * 10 + d \<le> mx then parse_digits mx (acc * 10 + d) cs else None)"

definition parse_uint :: "nat \<Rightarrow> string \<Rightarrow> nat option" where
  "parse_uint mx s =
     (let ds = (if s \<noteq> [] \<and> hd s = CHR ''+'' then tl s else s)
      in if ds = [] then None else parse_digits mx 0 ds)"

definition parse_u32 :: "string \<Rightarrow> u32 option" where
  "parse_u32 s = map_option word_of_nat (parse_uint (2 ^ 32 - 1) s)"

definition parse_u64 :: "string \<Rightarrow> u64 option" where
  "parse_u64 s = map_option word_of_nat (parse_uint (2 ^ 64 - 1) s)"

lemma to_digit_digit_char [simp]: "d < 10 \<Longrightarrow> to_digit (digit_char d) = Some d"
  by (simp add: to_digit_def is_ascii_digit_def)

lemma parse_digits_append:
  "parse_digits mx acc (s @ t) =
     (case parse_digits mx acc s of None \<Rightarrow> None | Some a \<Rightarrow> parse_digits mx a t)"
  by (induction mx acc s rule: parse_digits.induct) (auto split: option.splits)

lemma parse_digits_nat_to_string: "n \<le> mx \<Longrightarrow> parse_digits mx 0 (nat_to_string n) = Some n"
proof (induction n rule: nat_to_string.induct)
  case (1 n)
  show ?case
  proof (cases "n < 10")
    case True
    with "1.prems" show ?thesis by (simp add: nat_to_string.simps [of n])
  next
    case False
    with 1 have "parse_digits mx 0 (nat_to_string (n div 10)) = Some (n div 10)" by simp
    moreover have "n div 10 * 10 + n mod 10 \<le> mx" using "1.prems" by simp
    ultimately show ?thesis
      using False by (simp add: nat_to_string.simps [of n] parse_digits_append)
  qed
qed

lemma parse_uint_nat_to_string: "n \<le> mx \<Longrightarrow> parse_uint mx (nat_to_string n) = Some n"
proof -
  assume n: "n \<le> mx"
  have "hd (nat_to_string n) \<noteq> CHR ''+''"
    using nat_to_string_digits [of "hd (nat_to_string n)" n]
    by (auto simp: is_ascii_digit_def)
  then show ?thesis
    using n by (simp add: parse_uint_def parse_digits_nat_to_string)
qed

lemma nat_to_string_inj [simp]: "nat_to_string m = nat_to_string n \<longleftrightarrow> m = n"
proof
  assume "nat_to_string m = nat_to_string n"
  then have "parse_uint (m + n) (nat_to_string m) = parse_uint (m + n) (nat_to_string n)"
    by simp
  then show "m = n" by (simp add: parse_uint_nat_to_string)
qed simp

lemma parse_digits_bound: "parse_digits mx acc s = Some n \<Longrightarrow> acc \<le> mx \<Longrightarrow> n \<le> mx"
  by (induction mx acc s rule: parse_digits.induct) (auto split: option.splits if_splits)

lemma parse_uint_bound: "parse_uint mx s = Some n \<Longrightarrow> n \<le> mx"
  by (auto simp: parse_uint_def Let_def dest: parse_digits_bound split: if_splits)

lemma parse_u32_to_string: "parse_u32 (nat_to_string (unat w)) = Some w"
  using unat_u32_max [of w] by (simp add: parse_u32_def parse_uint_nat_to_string)

lemma parse_u64_to_string: "parse_u64 (nat_to_string (unat w)) = Some w"
  using unat_u64_max [of w] by (simp add: parse_u64_def parse_uint_nat_to_string)

end
