(* ===== verification/Config.thy ===== *)
theory Config
  imports Rust_Strings
begin

text \<open>
  The daemon's configuration, \<open>config.rs\<close>, and the command line of \<open>main.rs\<close>. The process
  environment is the argument \<open>env\<close>. \<open>to_lowercase\<close> is modelled on ASCII: no other character's
  lower-case form contributes to the word it is compared with.
\<close>

datatype EnvVar = NotPresent | NotUnicode | EnvValue string

record Config =
  cf_socket_path :: string
  cf_run_mode :: string
  cf_drain_secs :: u64
  cf_client_idle_timeout_secs :: u64
  cf_allowlist_path :: string
  cf_adapters_dir :: string
  cf_policy_path :: string
  cf_audit_log_path :: string
  cf_adapter_keys_dir :: string
  cf_max_result_age_secs :: u64
  cf_require_attestation :: bool

definition DEFAULT_DRAIN_SECS :: u64 where
  "DEFAULT_DRAIN_SECS = 3"

definition DEFAULT_CLIENT_IDLE_TIMEOUT_SECS :: u64 where
  "DEFAULT_CLIENT_IDLE_TIMEOUT_SECS = 20"

definition DEFAULT_MAX_RESULT_AGE_SECS :: u64 where
  "DEFAULT_MAX_RESULT_AGE_SECS = 30"

definition MAX_RESULT_AGE_SECS_UPPER_BOUND :: u64 where
  "MAX_RESULT_AGE_SECS_UPPER_BOUND = (- 1) div 1000"

definition env_or :: "(string \<Rightarrow> EnvVar) \<Rightarrow> string \<Rightarrow> string \<Rightarrow> string" where
  "env_or env name dflt = (case env name of EnvValue v \<Rightarrow> v | _ \<Rightarrow> dflt)"

definition parse_env_u64 :: "(string \<Rightarrow> EnvVar) \<Rightarrow> string \<Rightarrow> u64 \<Rightarrow> string + u64" where
  "parse_env_u64 env name dflt =
     (case env name of
        EnvValue v \<Rightarrow> ok_or (name @ '' must be an unsigned integer'') (parse_u64 v)
      | NotPresent \<Rightarrow> Inr dflt
      | NotUnicode \<Rightarrow> Inl (name @ '' must be valid UTF-8''))"

definition parse_env_nonzero_u64 :: "(string \<Rightarrow> EnvVar) \<Rightarrow> string \<Rightarrow> u64 \<Rightarrow> string + u64" where
  "parse_env_nonzero_u64 env name dflt =
     res_bind (parse_env_u64 env name dflt) (\<lambda>v.
       if v = 0 then Inl (name @ '' must be greater than zero'') else Inr v)"

definition parse_env_u64_with_fallback ::
  "(string \<Rightarrow> EnvVar) \<Rightarrow> string \<Rightarrow> string \<Rightarrow> u64 \<Rightarrow> string + u64" where
  "parse_env_u64_with_fallback env primary fallback dflt =
     (case env primary of
        EnvValue v \<Rightarrow> ok_or (primary @ '' must be an unsigned integer'') (parse_u64 v)
      | NotPresent \<Rightarrow> parse_env_u64 env fallback dflt
      | NotUnicode \<Rightarrow> Inl (primary @ '' must be valid UTF-8''))"

definition ascii_lower :: "char \<Rightarrow> char" where
  "ascii_lower c = (if 65 \<le> code c \<and> code c \<le> 90 then char_of (code c + 32) else c)"

definition to_lowercase :: "string \<Rightarrow> string" where
  "to_lowercase s = map ascii_lower s"

definition is_prod_mode :: "Config \<Rightarrow> bool" where
  "is_prod_mode c \<longleftrightarrow> cf_run_mode c = ''prod''"

definition from_env :: "(string \<Rightarrow> EnvVar) \<Rightarrow> string + Config" where
  "from_env env =
     (let run_mode = env_or env ''OLA_RUNMODE'' ''prod''
      in if run_mode \<notin> {''prod'', ''dev''} then Inl (''Invalid OLA_RUNMODE: must be 'prod' or 'dev'' @ [CHR 0x27])
         else
           res_bind (parse_env_u64_with_fallback env ''OLA_DRAIN_SECS'' ''OLA_SHUTDOWN_TIMEOUT''
             DEFAULT_DRAIN_SECS) (\<lambda>drain_secs.
           res_bind (parse_env_nonzero_u64 env ''OLA_CLIENT_IDLE_TIMEOUT_SECS''
             DEFAULT_CLIENT_IDLE_TIMEOUT_SECS) (\<lambda>idle_secs.
           res_bind (parse_env_u64 env ''OLA_MAX_RESULT_AGE_SECS'' DEFAULT_MAX_RESULT_AGE_SECS)
             (\<lambda>max_age.
               if MAX_RESULT_AGE_SECS_UPPER_BOUND < max_age
               then Inl (''OLA_MAX_RESULT_AGE_SECS must be <= '' @
                         nat_to_string (unat MAX_RESULT_AGE_SECS_UPPER_BOUND))
               else Inr \<lparr>
                 cf_socket_path = env_or env ''OLA_SOCKET_PATH'' ''/run/ola/ola.sock'',
                 cf_run_mode = run_mode,
                 cf_drain_secs = drain_secs,
                 cf_client_idle_timeout_secs = idle_secs,
                 cf_allowlist_path = env_or env ''OLA_ALLOWLIST_PATH'' ''/etc/ola/allowlist'',
                 cf_adapters_dir = env_or env ''OLA_ADAPTERS_DIR'' ''/etc/ola/adapters.d'',
                 cf_policy_path = env_or env ''OLA_POLICY_PATH'' ''/etc/ola/policy.toml'',
                 cf_audit_log_path = env_or env ''OLA_AUDIT_LOG_PATH'' ''/var/log/ola/audit.log'',
                 cf_adapter_keys_dir = env_or env ''OLA_ADAPTER_KEYS_DIR'' ''/etc/ola/adapter-keys'',
                 cf_max_result_age_secs = max_age,
                 cf_require_attestation =
                   (case env ''OLA_REQUIRE_ATTESTATION'' of
                      EnvValue v \<Rightarrow> to_lowercase v \<noteq> ''false'' \<and> v \<noteq> ''0''
                    | _ \<Rightarrow> True)\<rparr>))))"

section \<open>Command line\<close>

definition usage :: string where
  "usage = ''usage: ola-core [audit verify <path>]''"

definition parse_audit_verify_path :: "string list \<Rightarrow> string + string option" where
  "parse_audit_verify_path args =
     (case args of
        [] \<Rightarrow> Inr None
      | first # r \<Rightarrow>
          if first \<noteq> ''audit'' then Inl usage
          else (case r of
                  [] \<Rightarrow> Inl usage
                | subcommand # r' \<Rightarrow>
                    if subcommand \<noteq> ''verify'' then Inl usage
                    else (case r' of
                            [] \<Rightarrow> Inl usage
                          | path # r'' \<Rightarrow> if r'' \<noteq> [] then Inl usage else Inr (Some path))))"

section \<open>What a configuration guarantees\<close>

definition config_ok :: "Config \<Rightarrow> bool" where
  "config_ok c \<longleftrightarrow> cf_run_mode c \<in> {''prod'', ''dev''} \<and> cf_client_idle_timeout_secs c \<noteq> 0 \<and>
     unat (cf_max_result_age_secs c) * 1000 < 2 ^ 64"

lemma max_age_bound: "unat MAX_RESULT_AGE_SECS_UPPER_BOUND = 18446744073709551"
  by (simp add: MAX_RESULT_AGE_SECS_UPPER_BOUND_def unat_div unsigned_minus_1_eq_mask mask_eq_exp_minus_1)

lemma from_env_ok: "from_env env = Inr c \<Longrightarrow> config_ok c"
proof -
  assume a: "from_env env = Inr c"
  have "unat (cf_max_result_age_secs c) \<le> 18446744073709551"
    using a by (auto simp: from_env_def Let_def res_bind_Inr_iff max_age_bound word_less_nat_alt
        split: if_splits)
  moreover have "cf_run_mode c \<in> {''prod'', ''dev''}" "cf_client_idle_timeout_secs c \<noteq> 0"
    using a by (auto simp: from_env_def Let_def res_bind_Inr_iff parse_env_nonzero_u64_def split: if_splits)
  ultimately show ?thesis by (simp add: config_ok_def)
qed

section \<open>Properties\<close>

text \<open>C39: A configuration read from the environment has a known run mode and a non-zero idle
  timeout, and its result-age cap is small enough that its conversion to milliseconds cannot
  overflow; attestation is on unless the variable is exactly \<open>0\<close> or, in any case, \<open>false\<close>.\<close>

theorem from_env_sound:
  assumes "from_env env = Inr c"
  shows "cf_run_mode c \<in> {''prod'', ''dev''} \<and> cf_client_idle_timeout_secs c \<noteq> 0 \<and>
    unat (cf_max_result_age_secs c) * 1000 < 2 ^ 64 \<and>
    (\<not> cf_require_attestation c \<longrightarrow>
      (\<exists>v. env ''OLA_REQUIRE_ATTESTATION'' = EnvValue v \<and> (v = ''0'' \<or> to_lowercase v = ''false'')))"
proof -
  have "\<not> cf_require_attestation c \<longrightarrow>
      (\<exists>v. env ''OLA_REQUIRE_ATTESTATION'' = EnvValue v \<and> (v = ''0'' \<or> to_lowercase v = ''false''))"
    using assms by (auto simp: from_env_def Let_def res_bind_Inr_iff split: if_splits EnvVar.splits)
  then show ?thesis using from_env_ok [OF assms] by (simp add: config_ok_def)
qed

lemma from_env_default:
  "\<exists>c. from_env (\<lambda>_. NotPresent) = Inr c \<and> is_prod_mode c \<and> cf_require_attestation c \<and>
     cf_max_result_age_secs c = 30"
  by (simp add: from_env_def env_or_def parse_env_u64_with_fallback_def parse_env_nonzero_u64_def
      parse_env_u64_def DEFAULT_CLIENT_IDLE_TIMEOUT_SECS_def DEFAULT_MAX_RESULT_AGE_SECS_def
      max_age_bound word_less_nat_alt is_prod_mode_def)

theorem from_env_sound_witness:
  "\<exists>c. from_env (\<lambda>_. NotPresent) = Inr c \<and> unat (cf_max_result_age_secs c) * 1000 < 2 ^ 64"
  using from_env_default from_env_sound by blast

end
