(* ===== verification/F32.thy ===== *)
theory F32
  imports Rust_Strings
begin

text \<open>
  Single-precision floats, by their bits. An \<open>f32\<close> is the word \<open>f32::to_bits\<close> returns;
  \<open><\<close>, \<open>\<le>\<close>, \<open>is_finite\<close> and \<open>is_nan\<close> are the IEEE-754 ones: comparisons with a NaN
  are false and the two zeros are equal. \<open>f32_scaled\<close> is the exact value of a finite float
  in units of 2 to the -149, the smallest positive one; \<open>f32_lt_scaled\<close> and
  \<open>f32_le_scaled\<close> say that the comparisons on bits are the comparisons of those values.
  Printing a float (\<open>{:?}\<close>) is a parameter where the model needs it.
\<close>

type_synonym f32 = "32 word"

definition f32_mag :: "f32 \<Rightarrow> nat" where
  "f32_mag x = unat x mod 2147483648"

definition f32_neg :: "f32 \<Rightarrow> bool" where
  "f32_neg x \<longleftrightarrow> 2147483648 \<le> unat x"

definition f32_is_nan :: "f32 \<Rightarrow> bool" where
  "f32_is_nan x \<longleftrightarrow> 2139095040 < f32_mag x"

definition f32_is_finite :: "f32 \<Rightarrow> bool" where
  "f32_is_finite x \<longleftrightarrow> f32_mag x < 2139095040"

definition f32_key :: "f32 \<Rightarrow> int" where
  "f32_key x = (if f32_neg x then - int (f32_mag x) else int (f32_mag x))"

definition f32_lt :: "f32 \<Rightarrow> f32 \<Rightarrow> bool" where
  "f32_lt a b \<longleftrightarrow> \<not> f32_is_nan a \<and> \<not> f32_is_nan b \<and> f32_key a < f32_key b"

definition f32_le :: "f32 \<Rightarrow> f32 \<Rightarrow> bool" where
  "f32_le a b \<longleftrightarrow> \<not> f32_is_nan a \<and> \<not> f32_is_nan b \<and> f32_key a \<le> f32_key b"

definition f32_zero :: f32 where
  "f32_zero = 0"

definition f32_one :: f32 where
  "f32_one = 1065353216"

text \<open>\<open>(0.0..=1.0).contains(&x)\<close>\<close>

definition f32_in_unit :: "f32 \<Rightarrow> bool" where
  "f32_in_unit x \<longleftrightarrow> f32_le f32_zero x \<and> f32_le x f32_one"

section \<open>The comparisons are those of the values\<close>

definition mag_scaled :: "nat \<Rightarrow> nat" where
  "mag_scaled m =
     (if m div 8388608 = 0 then m mod 8388608
      else (8388608 + m mod 8388608) * 2 ^ (m div 8388608 - 1))"

definition f32_scaled :: "f32 \<Rightarrow> int" where
  "f32_scaled x =
     (if f32_neg x then - int (mag_scaled (f32_mag x)) else int (mag_scaled (f32_mag x)))"

lemma mag_scaled_Suc: "mag_scaled m < mag_scaled (Suc m)"
proof (cases "Suc m mod 8388608 = 0")
  case True
  then have d: "Suc m div 8388608 = Suc (m div 8388608)" and r: "m mod 8388608 = 8388607"
    by (auto simp: div_Suc mod_Suc split: if_splits)
  show ?thesis
  proof (cases "m div 8388608")
    case 0
    with True d r show ?thesis by (simp add: mag_scaled_def)
  next
    case (Suc k)
    with True d r show ?thesis by (simp add: mag_scaled_def)
  qed
next
  case False
  then have "Suc m div 8388608 = m div 8388608" "Suc m mod 8388608 = Suc (m mod 8388608)"
    by (auto simp: div_Suc mod_Suc split: if_splits)
  then show ?thesis by (simp add: mag_scaled_def)
qed

lemma mag_scaled_mono: "m < n \<Longrightarrow> mag_scaled m < mag_scaled n"
  using lift_Suc_mono_less [of mag_scaled m n] mag_scaled_Suc by simp

lemma mag_scaled_less: "mag_scaled m < mag_scaled n \<longleftrightarrow> m < n"
  by (metis mag_scaled_mono less_asym' linorder_neqE_nat)

lemma mag_scaled_eq0: "mag_scaled m = 0 \<longleftrightarrow> m = 0"
  using mag_scaled_less [of 0 m] by (auto simp: mag_scaled_def)

lemma f32_key_scaled: "f32_scaled a < f32_scaled b \<longleftrightarrow> f32_key a < f32_key b"
proof -
  have "mag_scaled (f32_mag a) < mag_scaled (f32_mag b) \<longleftrightarrow> f32_mag a < f32_mag b"
    and "mag_scaled (f32_mag b) < mag_scaled (f32_mag a) \<longleftrightarrow> f32_mag b < f32_mag a"
    by (simp_all add: mag_scaled_less)
  then show ?thesis
    using mag_scaled_eq0 [of "f32_mag a"] mag_scaled_eq0 [of "f32_mag b"]
    by (simp add: f32_scaled_def f32_key_def) linarith
qed

lemma f32_finite_not_nan: "f32_is_finite x \<Longrightarrow> \<not> f32_is_nan x"
  by (simp add: f32_is_finite_def f32_is_nan_def)

lemma f32_lt_scaled:
  "f32_is_finite a \<Longrightarrow> f32_is_finite b \<Longrightarrow> f32_lt a b \<longleftrightarrow> f32_scaled a < f32_scaled b"
  by (simp add: f32_lt_def f32_key_scaled f32_finite_not_nan)

lemma f32_le_scaled:
  "f32_is_finite a \<Longrightarrow> f32_is_finite b \<Longrightarrow> f32_le a b \<longleftrightarrow> f32_scaled a \<le> f32_scaled b"
  using f32_key_scaled [of b a] by (auto simp: f32_le_def f32_finite_not_nan)

lemma f32_not_lt: "\<not> f32_is_nan a \<Longrightarrow> \<not> f32_is_nan b \<Longrightarrow> \<not> f32_lt a b \<longleftrightarrow> f32_le b a"
  by (auto simp: f32_lt_def f32_le_def)

text \<open>The unit interval: 0 to 2 to the 149 in the scaled values.\<close>

lemma f32_scaled_unit [simp]: "f32_scaled f32_zero = 0" "f32_scaled f32_one = 2 ^ 149"
  by (simp_all add: f32_scaled_def f32_zero_def f32_one_def f32_neg_def f32_mag_def mag_scaled_def)

lemma f32_key_unit [simp]: "f32_key f32_zero = 0" "f32_key f32_one = 1065353216"
  by (simp_all add: f32_key_def f32_zero_def f32_one_def f32_neg_def f32_mag_def)

lemma f32_unit_finite [simp]: "f32_is_finite f32_zero" "f32_is_finite f32_one"
  by (simp_all add: f32_is_finite_def f32_zero_def f32_one_def f32_mag_def)

lemma f32_in_unit_finite:
  assumes "f32_in_unit x"
  shows "f32_is_finite x"
proof -
  have "0 \<le> f32_key x" "f32_key x \<le> 1065353216"
    using assms by (simp_all add: f32_in_unit_def f32_le_def)
  then have "f32_mag x \<le> 1065353216"
    by (simp add: f32_key_def split: if_splits)
  then show ?thesis by (simp add: f32_is_finite_def)
qed

lemma f32_in_unit_iff:
  "f32_in_unit x \<longleftrightarrow> f32_is_finite x \<and> 0 \<le> f32_scaled x \<and> f32_scaled x \<le> 2 ^ 149"
proof (cases "f32_is_finite x")
  case True
  then show ?thesis
    by (simp only: f32_in_unit_def f32_le_scaled f32_unit_finite f32_scaled_unit simp_thms)
next
  case False
  then show ?thesis using f32_in_unit_finite by blast
qed

end
