(* ===== verification/Core_Types.thy ===== *)
theory Core_Types
  imports F32
begin

text \<open>
  The types of \<open>crates/ola-core/src/core/types\<close>: protocol names and their validation
  (\<open>method.rs\<close>), authentication methods with their wire form and the adapter's result
  (\<open>result.rs\<close>), the challenge (\<open>request.rs\<close>), the decision (\<open>decision.rs\<close>) and the
  context the policy engine sees (\<open>context.rs\<close>). Record fields carry a prefix, since HOL
  records of different types cannot share a selector.
\<close>

section \<open>Names\<close>

definition MAX_NAME_LEN :: nat where
  "MAX_NAME_LEN = 64"

abbreviation quote_char :: char where
  "quote_char \<equiv> CHR 0x27"

datatype NameError = Empty | Whitespace | ReservedAny | TooLong | InvalidChars

fun describe :: "NameError \<Rightarrow> string \<Rightarrow> string" where
  "describe Empty label = label @ '' must not be empty''"
| "describe Whitespace label = label @ '' must not contain leading or trailing whitespace''"
| "describe ReservedAny label = label @ '' 'any' is reserved''"
| "describe TooLong label =
     label @ '' must be at most '' @ nat_to_string MAX_NAME_LEN @ '' bytes''"
| "describe InvalidChars label =
     label @ '' must use ASCII letters, digits, '_', '-', or '.'' @ [quote_char]"

definition name_char :: "char \<Rightarrow> bool" where
  "name_char b \<longleftrightarrow> is_ascii_alphanumeric b \<or> b \<in> {CHR ''_'', CHR ''-'', CHR ''.''}"

definition validate_name :: "string \<Rightarrow> bool \<Rightarrow> NameError + unit" where
  "validate_name value allow_any =
     (if value = [] then Inl Empty
      else if trim value \<noteq> value then Inl Whitespace
      else if value = ''any'' \<and> \<not> allow_any then Inl ReservedAny
      else if MAX_NAME_LEN < length value then Inl TooLong
      else if \<not> list_all name_char value then Inl InvalidChars
      else Inr ())"

definition validate_method_name :: "string \<Rightarrow> bool \<Rightarrow> string + unit" where
  "validate_method_name method allow_any =
     map_err (\<lambda>e. describe e ''method'') (validate_name method allow_any)"

definition validate_adapter_name :: "string \<Rightarrow> string + unit" where
  "validate_adapter_name name =
     map_err (\<lambda>e. describe e ''adapter name'') (validate_name name False)"

section \<open>Authentication methods\<close>

datatype AuthMethod = Libfprint | Fido2 | Pin | Other string

fun as_str :: "AuthMethod \<Rightarrow> string" where
  "as_str Libfprint = ''libfprint''"
| "as_str Fido2 = ''fido2''"
| "as_str Pin = ''pin''"
| "as_str (Other value) = value"

text \<open>
  \<open>Serialize\<close> and \<open>Deserialize\<close> on the JSON string: the surrounding quoting is serde's.
\<close>

definition serialize_method :: "AuthMethod \<Rightarrow> string" where
  "serialize_method m = as_str m"

definition deserialize_method :: "string \<Rightarrow> string + AuthMethod" where
  "deserialize_method raw =
     (if raw = ''libfprint'' then Inr Libfprint
      else if raw = ''fido2'' then Inr Fido2
      else if raw = ''pin'' then Inr Pin
      else if raw = ''any'' then Inl (quote_char # ''any' is only valid as a wildcard policy selector'')
      else res_bind (validate_method_name raw False) (\<lambda>_. Inr (Other raw)))"

section \<open>Challenge, result, decision, context\<close>

record VerificationRequest =
  vr_version :: u8
  vr_id :: bytes
  vr_uid :: u32
  vr_nonce :: bytes
  vr_deadline_ms :: u64

record VerificationResult =
  rs_version :: u8
  rs_id :: bytes
  rs_confidence :: f32
  rs_method :: AuthMethod
  rs_timestamp_ms :: u64
  rs_uid :: u32
  rs_nonce :: bytes
  rs_evidence_hash :: bytes

datatype DenyReason =
    ConfidenceTooLow (cl_got: f32) (cl_required: f32)
  | InvalidConfidence (ic_got: f32)
  | ResultTooOld (age_ms: u64) (max_age_ms: u64)
  | ResultAgeWindowOverflow
  | ResultFromFuture (skew_ms: u64)
  | UidMismatch (claimed: u32) (result_uid: u32)
  | NoMatchingRule

datatype PolicyDecision = Allow | Deny DenyReason

record AuthContext =
  ctx_uid :: u32
  ctx_method :: string
  ctx_request :: VerificationRequest
  ctx_result :: VerificationResult
  ctx_decision :: "PolicyDecision option"

text \<open>
  \<open>format!("{reason:?}")\<close>: the derived \<open>Debug\<close> form. The printer of floats is the
  argument \<open>dbg\<close>.
\<close>

fun debug_reason :: "(f32 \<Rightarrow> string) \<Rightarrow> DenyReason \<Rightarrow> string" where
  "debug_reason dbg (ConfidenceTooLow g r) =
     ''ConfidenceTooLow { got: '' @ dbg g @ '', required: '' @ dbg r @ '' }''"
| "debug_reason dbg (InvalidConfidence g) = ''InvalidConfidence { got: '' @ dbg g @ '' }''"
| "debug_reason dbg (ResultTooOld a m) =
     ''ResultTooOld { age_ms: '' @ nat_to_string (unat a) @
     '', max_age_ms: '' @ nat_to_string (unat m) @ '' }''"
| "debug_reason dbg ResultAgeWindowOverflow = ''ResultAgeWindowOverflow''"
| "debug_reason dbg (ResultFromFuture s) =
     ''ResultFromFuture { skew_ms: '' @ nat_to_string (unat s) @ '' }''"
| "debug_reason dbg (UidMismatch c r) =
     ''UidMismatch { claimed: '' @ nat_to_string (unat c) @
     '', result_uid: '' @ nat_to_string (unat r) @ '' }''"
| "debug_reason dbg NoMatchingRule = ''NoMatchingRule''"

section \<open>Properties of names and methods\<close>

definition name_ok :: "string \<Rightarrow> bool" where
  "name_ok s \<longleftrightarrow> s \<noteq> [] \<and> length s \<le> MAX_NAME_LEN \<and> (\<forall>c\<in>set s. name_char c)"

lemma name_char_plain: "name_char c \<Longrightarrow> 33 \<le> code c \<and> code c < 128"
  by (auto simp: name_char_def dest: is_ascii_alphanumeric_plain)

lemma validate_name_iff:
  "validate_name s a = Inr () \<longleftrightarrow> name_ok s \<and> (s = ''any'' \<longrightarrow> a)"
proof -
  have "trim s = s" if "\<forall>c\<in>set s. name_char c"
    using that by (intro trim_plain_ascii) (auto dest: name_char_plain)
  then show ?thesis
    by (auto simp: validate_name_def name_ok_def list_all_iff)
qed

lemma validate_method_name_iff [simp]:
  "validate_method_name s a = Inr () \<longleftrightarrow> name_ok s \<and> (s = ''any'' \<longrightarrow> a)"
  by (simp add: validate_method_name_def validate_name_iff)

lemma validate_adapter_name_iff [simp]:
  "validate_adapter_name s = Inr () \<longleftrightarrow> name_ok s \<and> s \<noteq> ''any''"
  by (simp add: validate_adapter_name_def validate_name_iff)

text \<open>The methods that \<open>deserialize_method\<close> produces.\<close>

definition method_wf :: "AuthMethod \<Rightarrow> bool" where
  "method_wf m = (case m of
      Other s \<Rightarrow> name_ok s \<and> s \<notin> {''libfprint'', ''fido2'', ''pin'', ''any''}
    | _ \<Rightarrow> True)"

lemma deserialize_method_Inr:
  "deserialize_method s = Inr m \<longleftrightarrow> as_str m = s \<and> method_wf m"
  by (cases m) (auto simp: deserialize_method_def method_wf_def res_bind_Inr_iff)

lemma as_str_inj: "method_wf a \<Longrightarrow> method_wf b \<Longrightarrow> as_str a = as_str b \<longleftrightarrow> a = b"
  by (metis Inr_inject deserialize_method_Inr)

end
