(* ===== verification/Json.thy ===== *)
theory Json
  imports Prelude
begin

text \<open>
  \<open>serde_json::Value\<close>, as far as the sources look at values: \<open>get\<close> and indexing by a key, the
  \<open>as_\<close> accessors and the comparisons with integers and booleans. An object is the list of its
  entries with the last one first, the way a later duplicate key overrides an earlier one; a
  number is a non-negative integer, a negative integer or the bits of a double. The parser and
  the printer of the package are arguments wherever text is involved.
\<close>

datatype json =
    JNull
  | JBool bool
  | JPos u64
  | JNeg int
  | JFloat "64 word"
  | JStr string
  | JArr "json list"
  | JObj "(string \<times> json) list"

fun json_get :: "json \<Rightarrow> string \<Rightarrow> json option" where
  "json_get (JObj kvs) k = map_of kvs k"
| "json_get _ k = None"

text \<open>\<open>value["key"]\<close> is \<open>Null\<close> for a missing key and for a value that is not an object.\<close>

definition json_index :: "json \<Rightarrow> string \<Rightarrow> json" where
  "json_index v k = (case json_get v k of Some x \<Rightarrow> x | None \<Rightarrow> JNull)"

fun json_as_u64 :: "json \<Rightarrow> u64 option" where
  "json_as_u64 (JPos n) = Some n"
| "json_as_u64 _ = None"

fun json_as_str :: "json \<Rightarrow> string option" where
  "json_as_str (JStr s) = Some s"
| "json_as_str _ = None"

fun json_as_bool :: "json \<Rightarrow> bool option" where
  "json_as_bool (JBool b) = Some b"
| "json_as_bool _ = None"

fun json_as_object :: "json \<Rightarrow> (string \<times> json) list option" where
  "json_as_object (JObj kvs) = Some kvs"
| "json_as_object _ = None"

lemma json_as_Some [simp]:
  "json_as_u64 v = Some n \<longleftrightarrow> v = JPos n"
  "json_as_str v = Some s \<longleftrightarrow> v = JStr s"
  "json_as_bool v = Some b \<longleftrightarrow> v = JBool b"
  "json_as_object v = Some kvs \<longleftrightarrow> v = JObj kvs"
  by (cases v; auto)+

end
