(* ===== verification/Protocol.thy ===== *)
theory Protocol
  imports Core_Types Json
begin

text \<open>
  The client protocol, \<open>infrastructure/ipc/protocol.rs\<close>: requests, responses and the four ways the
  daemon builds a response; and the process counters of \<open>infrastructure/audit/metrics.rs\<close>, which
  wrap at 64 bits except for the guarded decrement.
\<close>

record Request =
  rq_version :: u8
  rq_id :: "string option"
  rq_method :: string
  rq_params :: "json option"

record Response =
  rsp_version :: u8
  rsp_id :: "string option"
  rsp_result :: "json option"
  rsp_error :: "string option"

definition response_ok :: "string option \<Rightarrow> json \<Rightarrow> Response" where
  "response_ok rid result =
     \<lparr>rsp_version = 1, rsp_id = rid, rsp_result = Some result, rsp_error = None\<rparr>"

definition response_error :: "string option \<Rightarrow> string \<Rightarrow> Response" where
  "response_error rid msg =
     \<lparr>rsp_version = 1, rsp_id = rid, rsp_result = None, rsp_error = Some msg\<rparr>"

definition response_deny :: "string option \<Rightarrow> string \<Rightarrow> Response" where
  "response_deny rid reason =
     response_ok rid (JObj [(''decision'', JStr ''deny''), (''deny_reason'', JStr reason)])"

definition response_allow :: "string option \<Rightarrow> string \<Rightarrow> Response" where
  "response_allow rid method =
     response_ok rid (JObj [(''decision'', JStr ''allow''), (''method'', JStr method)])"

text \<open>
  The derived \<open>Serialize\<close> of a response and \<open>Deserialize\<close> of a request, between the records and
  JSON values: an absent optional field is written as \<open>null\<close>, and read from \<open>null\<close> or a missing
  key.
\<close>

definition response_value :: "Response \<Rightarrow> json" where
  "response_value r =
     JObj [(''version'', JPos (ucast (rsp_version r))),
           (''id'', (case rsp_id r of None \<Rightarrow> JNull | Some s \<Rightarrow> JStr s)),
           (''result'', (case rsp_result r of None \<Rightarrow> JNull | Some v \<Rightarrow> v)),
           (''error'', (case rsp_error r of None \<Rightarrow> JNull | Some s \<Rightarrow> JStr s))]"

definition json_optional :: "(json \<Rightarrow> string + 'a) \<Rightarrow> json option \<Rightarrow> string + 'a option" where
  "json_optional f v =
     (case v of None \<Rightarrow> Inr None | Some JNull \<Rightarrow> Inr None | Some x \<Rightarrow> res_bind (f x) (\<lambda>y. Inr (Some y)))"

text \<open>
  A request is an object, in which none of the four fields may occur twice and other keys are
  ignored, or an array of the four fields in order.
\<close>

definition request_of_fields ::
  "json option \<Rightarrow> json option \<Rightarrow> json option \<Rightarrow> json option \<Rightarrow> string + Request" where
  "request_of_fields version rid m params =
     res_bind (case version of
                 Some (JPos n) \<Rightarrow> if n < 256 then Inr (ucast n) else Inl ''invalid value''
               | Some _ \<Rightarrow> Inl ''invalid type''
               | None \<Rightarrow> Inl ''missing field'') (\<lambda>version.
     res_bind (json_optional (\<lambda>x. ok_or ''invalid type'' (json_as_str x)) rid) (\<lambda>rid.
     res_bind (case m of
                 Some x \<Rightarrow> ok_or ''invalid type'' (json_as_str x)
               | None \<Rightarrow> Inl ''missing field'') (\<lambda>m.
     res_bind (json_optional Inr params) (\<lambda>params.
       Inr \<lparr>rq_version = version, rq_id = rid, rq_method = m, rq_params = params\<rparr>))))"

definition request_of_value :: "json \<Rightarrow> string + Request" where
  "request_of_value v =
     (case v of
        JObj kvs \<Rightarrow>
          if \<not> distinct (filter (\<lambda>k. k \<in> {''version'', ''id'', ''method'', ''params''}) (map fst kvs))
          then Inl ''duplicate field''
          else request_of_fields (map_of kvs ''version'') (map_of kvs ''id'') (map_of kvs ''method'')
                 (map_of kvs ''params'')
      | JArr [version, rid, m, params] \<Rightarrow> request_of_fields (Some version) (Some rid) (Some m) (Some params)
      | JArr _ \<Rightarrow> Inl ''invalid length''
      | _ \<Rightarrow> Inl ''invalid type'')"

text \<open>What a client reads in a response.\<close>

definition decision_of :: "Response \<Rightarrow> string option" where
  "decision_of r =
     (case rsp_result r of None \<Rightarrow> None | Some v \<Rightarrow> json_as_str (json_index v ''decision''))"

lemma decision_of_simps [simp]:
  "decision_of (response_error rid msg) = None"
  "decision_of (response_deny rid reason) = Some ''deny''"
  "decision_of (response_allow rid m) = Some ''allow''"
  by (simp_all add: decision_of_def response_error_def response_deny_def response_allow_def
      response_ok_def json_index_def)

lemma rsp_id_simps [simp]:
  "rsp_id (response_error rid msg) = rid"
  "rsp_id (response_deny rid reason) = rid"
  "rsp_id (response_allow rid m) = rid"
  by (simp_all add: response_error_def response_deny_def response_allow_def response_ok_def)

section \<open>Counters\<close>

record Metrics =
  total_requests :: u64
  request_failures :: u64
  active_connections :: u64
  idle_closes :: u64

definition inc_requests :: "Metrics \<Rightarrow> Metrics" where
  "inc_requests m = m\<lparr>total_requests := total_requests m + 1\<rparr>"

definition inc_failures :: "Metrics \<Rightarrow> Metrics" where
  "inc_failures m = m\<lparr>request_failures := request_failures m + 1\<rparr>"

definition inc_active_connections :: "Metrics \<Rightarrow> Metrics" where
  "inc_active_connections m = m\<lparr>active_connections := active_connections m + 1\<rparr>"

definition inc_idle_closes :: "Metrics \<Rightarrow> Metrics" where
  "inc_idle_closes m = m\<lparr>idle_closes := idle_closes m + 1\<rparr>"

text \<open>The line that \<open>log_metrics\<close> leaves at shutdown.\<close>

definition log_metrics :: "Metrics \<Rightarrow> string" where
  "log_metrics m =
     ''METRICS: Requests: '' @ nat_to_string (unat (total_requests m)) @
     '', Failures: '' @ nat_to_string (unat (request_failures m)) @
     '', Active Connections: '' @ nat_to_string (unat (active_connections m)) @
     '', Idle Closes: '' @ nat_to_string (unat (idle_closes m))"

text \<open>
  \<open>dec_active_connections\<close>: the compare-and-exchange loop. The list gives, for each exchange it
  tries, the value the counter has at that moment and whether the weak exchange fails spuriously;
  the result is the value written, \<open>None\<close> while the loop has not returned, and no write (the
  counter itself) when it saw zero.
\<close>

fun dec_active_connections :: "u64 \<Rightarrow> (u64 \<times> bool) list \<Rightarrow> u64 option" where
  "dec_active_connections current tries =
     (if current = 0 then Some 0
      else case tries of
             [] \<Rightarrow> None
           | (actual, spurious) # rest \<Rightarrow>
               if actual = current \<and> \<not> spurious then Some (current - 1)
               else dec_active_connections actual rest)"

declare dec_active_connections.simps [simp del]

text \<open>It never wraps: what it writes is one less than a non-zero value it saw, or zero.\<close>

lemma dec_active_connections_no_wrap:
  "dec_active_connections current tries = Some v \<Longrightarrow>
     v = 0 \<or> (\<exists>w \<in> insert current (fst ` set tries). w \<noteq> 0 \<and> unat v = unat w - 1)"
proof (induction tries arbitrary: current)
  case Nil
  then show ?case by (auto simp: dec_active_connections.simps split: if_splits)
next
  case (Cons p tries)
  obtain a s where p: "p = (a, s)" by (cases p)
  show ?case
  proof (cases "current = 0 \<or> (a = current \<and> \<not> s)")
    case True
    moreover have "current \<noteq> 0 \<Longrightarrow> unat (current - 1) = unat current - 1"
      using unat_sub_le_word [of 1 current] by (simp add: word_le_nat_alt unat_gt_0 Suc_le_eq)
    ultimately show ?thesis
      using Cons.prems p
      by (cases "current = 0") (auto simp: dec_active_connections.simps [of 0]
          dec_active_connections.simps [of current] split: if_splits)
  next
    case False
    then have "dec_active_connections a tries = Some v"
      using Cons.prems p by (auto simp: dec_active_connections.simps [of current] split: if_splits)
    from Cons.IH [OF this] show ?thesis using p by auto
  qed
qed

end
