(* ===== verification/Secure_Fs.thy ===== *)
theory Secure_Fs
  imports Rust_Strings
begin

text \<open>
  The guarded file access of \<open>security/fs.rs\<close>. The kernel is a parameter: an \<open>OpenFile\<close>
  records what the calls on one open descriptor return (\<open>fstat\<close>, the reads, \<open>fchmod\<close>), and
  the \<open>open\<close> calls, which carry \<open>O_NOFOLLOW\<close>, are arguments giving a descriptor or an error
  kind. What is read need not agree with what \<open>fstat\<close> said, so the checks against a file that
  grows between the two calls are part of the model. The theorems characterise when each entry
  point succeeds and with what.
\<close>

section \<open>Specifications of a file\<close>

datatype SizePolicy = MaxSize int | ExactSize int

datatype ModePolicy = ExactModes "u32 list" | NotGroupWorldWritable

datatype OwnerPolicy = RootOrCurrent | RootOrUid u32

record SecureFileSpec =
  spec_label :: string
  spec_size :: SizePolicy
  spec_mode :: ModePolicy
  spec_owner :: OwnerPolicy

record FileStat =
  st_mode :: u32
  st_uid :: u32
  st_size :: int

datatype IoErrorKind = IoNotFound | IoAlreadyExists | IoOther

text \<open>
  One open descriptor: the answer of \<open>fstat\<close>, the bytes a read to the end yields (\<open>None\<close> for
  an I/O error), whether the further one-byte read of \<open>read_secure_exact\<close> succeeds, and whether
  \<open>fchmod\<close> succeeds.
\<close>

record OpenFile =
  fd_stat :: "FileStat option"
  fd_data :: "string option"
  fd_probe_ok :: bool
  fd_chmod_ok :: bool

datatype FsError =
    OpenFailed IoErrorKind
  | StatFailed
  | NotRegular
  | TooLarge int int
  | WrongSize int int
  | WrongMode "u32 list" u32
  | GroupWorldWritable
  | WrongOwner u32
  | ReadFailed
  | FinishFailed
  | GrewWhileReading
  | ChmodFailed

abbreviation S_IFMT :: u32 where
  "S_IFMT \<equiv> 61440"

abbreviation S_IFREG :: u32 where
  "S_IFREG \<equiv> 32768"

section \<open>Checks\<close>

definition validate_owner :: "u32 \<Rightarrow> u32 \<Rightarrow> OwnerPolicy \<Rightarrow> FsError + unit" where
  "validate_owner current_uid uid owner =
     (if uid = 0 then Inr ()
      else
        let allowed = (case owner of
              RootOrCurrent \<Rightarrow> uid = current_uid
            | RootOrUid extra_uid \<Rightarrow> uid = extra_uid)
        in if \<not> allowed then Inl (WrongOwner uid) else Inr ())"

definition validate_size :: "SizePolicy \<Rightarrow> int \<Rightarrow> FsError + unit" where
  "validate_size size_policy n =
     (case size_policy of
        MaxSize mx \<Rightarrow> if mx < n then Inl (TooLarge n mx) else Inr ()
      | ExactSize expected \<Rightarrow> if n \<noteq> expected then Inl (WrongSize expected n) else Inr ())"

definition validate_mode :: "ModePolicy \<Rightarrow> u32 \<Rightarrow> FsError + unit" where
  "validate_mode mode_policy mode =
     (case mode_policy of
        ExactModes allowed \<Rightarrow> if mode \<notin> set allowed then Inl (WrongMode allowed mode) else Inr ()
      | NotGroupWorldWritable \<Rightarrow> if mode AND 18 \<noteq> 0 then Inl GroupWorldWritable else Inr ())"

definition validate_open_file :: "u32 \<Rightarrow> OpenFile \<Rightarrow> SecureFileSpec \<Rightarrow> FsError + FileStat" where
  "validate_open_file current_uid file spec =
     res_bind (ok_or StatFailed (fd_stat file)) (\<lambda>stat.
       if st_mode stat AND S_IFMT \<noteq> S_IFREG then Inl NotRegular
       else
         res_bind (validate_size (spec_size spec) (st_size stat)) (\<lambda>_.
         res_bind (validate_mode (spec_mode spec) (st_mode stat AND 511)) (\<lambda>_.
         res_bind (validate_owner current_uid (st_uid stat) (spec_owner spec)) (\<lambda>_.
           Inr stat))))"

section \<open>Entry points\<close>

definition open_secure_read :: "(IoErrorKind + OpenFile) \<Rightarrow> FsError + OpenFile" where
  "open_secure_read opened = map_err OpenFailed opened"

definition read_to_string :: "OpenFile \<Rightarrow> nat option \<Rightarrow> FsError + string" where
  "read_to_string file limit =
     (case fd_data file of
        None \<Rightarrow> Inl ReadFailed
      | Some d \<Rightarrow> map_err (\<lambda>_. ReadFailed)
                   (from_utf8 (case limit of None \<Rightarrow> d | Some n \<Rightarrow> take n d)))"

definition read_secure_to_string ::
  "u32 \<Rightarrow> (IoErrorKind + OpenFile) \<Rightarrow> SecureFileSpec \<Rightarrow> FsError + string" where
  "read_secure_to_string current_uid opened spec =
     res_bind (open_secure_read opened) (\<lambda>file.
     res_bind (validate_open_file current_uid file spec) (\<lambda>_.
       case spec_size spec of
         MaxSize mx \<Rightarrow>
           res_bind (read_to_string file (Some (unat (saturating_add_u64 (word_of_int mx) 1))))
             (\<lambda>contents.
               if unat (word_of_int mx :: u64) < length contents then Inl GrewWhileReading
               else Inr contents)
       | ExactSize _ \<Rightarrow> read_to_string file None))"

definition read_secure_exact ::
  "nat \<Rightarrow> u32 \<Rightarrow> (IoErrorKind + OpenFile) \<Rightarrow> SecureFileSpec \<Rightarrow> FsError + bytes" where
  "read_secure_exact n current_uid opened spec0 =
     (let spec = spec0\<lparr>spec_size := ExactSize (int n)\<rparr>
      in res_bind (open_secure_read opened) (\<lambda>file.
         res_bind (validate_open_file current_uid file spec) (\<lambda>_.
           case fd_data file of
             None \<Rightarrow> Inl ReadFailed
           | Some d \<Rightarrow>
               if length d < n then Inl ReadFailed
               else if \<not> fd_probe_ok file then Inl FinishFailed
               else if drop n d \<noteq> [] then Inl GrewWhileReading
               else Inr (as_bytes (take n d)))))"

text \<open>
  \<open>open_secure_append\<close>: the three \<open>open\<close> calls it may make are the arguments
  \<open>existing\<close>, \<open>created\<close> and \<open>reopened\<close>.
\<close>

definition open_secure_append ::
  "u32 \<Rightarrow> (IoErrorKind + OpenFile) \<Rightarrow> (IoErrorKind + OpenFile) \<Rightarrow> (IoErrorKind + OpenFile) \<Rightarrow>
   u32 \<Rightarrow> OwnerPolicy \<Rightarrow> FsError + OpenFile" where
  "open_secure_append current_uid existing created reopened mode owner =
     res_bind
       (case existing of
          Inr file \<Rightarrow> Inr (file, True)
        | Inl IoNotFound \<Rightarrow>
            (case created of
               Inr file \<Rightarrow> Inr (file, False)
             | Inl IoAlreadyExists \<Rightarrow>
                 res_bind (map_err OpenFailed reopened) (\<lambda>file. Inr (file, True))
             | Inl e \<Rightarrow> Inl (OpenFailed e))
        | Inl e \<Rightarrow> Inl (OpenFailed e))
       (\<lambda>(file, check_mode).
          res_bind (ok_or StatFailed (fd_stat file)) (\<lambda>stat.
            if st_mode stat AND S_IFMT \<noteq> S_IFREG then Inl NotRegular
            else
              res_bind (validate_owner current_uid (st_uid stat) owner) (\<lambda>_.
                if check_mode \<and> st_mode stat AND 511 \<notin> {384, mode}
                then Inl (WrongMode [384, mode] (st_mode stat AND 511))
                else if \<not> fd_chmod_ok file then Inl ChmodFailed
                else Inr file)))"

section \<open>Messages\<close>

fun to_octal :: "nat \<Rightarrow> string" where
  "to_octal n = (if n < 8 then [digit_char n] else to_octal (n div 8) @ [digit_char (n mod 8)])"

declare to_octal.simps [simp del]

definition pad4 :: "string \<Rightarrow> string" where
  "pad4 s = replicate (4 - length s) CHR ''0'' @ s"

fun join :: "string \<Rightarrow> string list \<Rightarrow> string" where
  "join sep [] = []"
| "join sep [x] = x"
| "join sep (x # y # r) = x @ sep @ join sep (y # r)"

definition format_modes :: "u32 list \<Rightarrow> string" where
  "format_modes modes = join '' or '' (map (\<lambda>mode. pad4 (to_octal (unat mode))) modes)"

section \<open>What success means\<close>

definition owner_ok :: "u32 \<Rightarrow> OwnerPolicy \<Rightarrow> u32 \<Rightarrow> bool" where
  "owner_ok current_uid owner uid \<longleftrightarrow> uid = 0 \<or>
     uid = (case owner of RootOrCurrent \<Rightarrow> current_uid | RootOrUid u \<Rightarrow> u)"

definition mode_ok :: "ModePolicy \<Rightarrow> u32 \<Rightarrow> bool" where
  "mode_ok p mode = (case p of
      ExactModes allowed \<Rightarrow> mode \<in> set allowed
    | NotGroupWorldWritable \<Rightarrow> mode AND 18 = 0)"

lemma validate_owner_iff [simp]: "validate_owner c u w = Inr () \<longleftrightarrow> owner_ok c w u"
  by (auto simp: validate_owner_def owner_ok_def Let_def split: OwnerPolicy.splits)

lemma validate_mode_iff [simp]: "validate_mode p m = Inr () \<longleftrightarrow> mode_ok p m"
  by (auto simp: validate_mode_def mode_ok_def split: ModePolicy.splits)

lemma validate_size_iff [simp]: "validate_size p n = Inr () \<longleftrightarrow>
    (case p of MaxSize mx \<Rightarrow> n \<le> mx | ExactSize m \<Rightarrow> n = m)"
  by (auto simp: validate_size_def split: SizePolicy.splits)

definition stat_ok :: "u32 \<Rightarrow> SecureFileSpec \<Rightarrow> FileStat \<Rightarrow> bool" where
  "stat_ok current_uid spec stat \<longleftrightarrow>
     st_mode stat AND S_IFMT = S_IFREG \<and>
     (case spec_size spec of MaxSize mx \<Rightarrow> st_size stat \<le> mx | ExactSize m \<Rightarrow> st_size stat = m) \<and>
     mode_ok (spec_mode spec) (st_mode stat AND 511) \<and>
     owner_ok current_uid (spec_owner spec) (st_uid stat)"

lemma validate_open_file_iff:
  "validate_open_file c file spec = Inr stat \<longleftrightarrow> fd_stat file = Some stat \<and> stat_ok c spec stat"
  by (auto simp: validate_open_file_def res_bind_Inr_iff stat_ok_def)

lemma unat_max_u64:
  assumes "0 \<le> mx" and "mx < 2 ^ 63"
  shows "unat (word_of_int mx :: u64) = nat mx"
    and "unat (saturating_add_u64 (word_of_int mx) 1) = Suc (nat mx)"
proof -
  show n: "unat (word_of_int mx :: u64) = nat mx"
    using assms by (simp add: unsigned_of_int take_bit_int_eq_self)
  show "unat (saturating_add_u64 (word_of_int mx) 1) = Suc (nat mx)"
    using assms by (simp add: unat_saturating_add_u64 n)
qed

lemma from_utf8_Inr [simp]: "from_utf8 s = Inr t \<longleftrightarrow> t = s \<and> utf8_valid s"
  by (auto simp: from_utf8_def)

lemma read_to_string_iff: "read_to_string file limit = Inr s \<longleftrightarrow>
    (\<exists>d. fd_data file = Some d \<and> s = (case limit of None \<Rightarrow> d | Some n \<Rightarrow> take n d) \<and> utf8_valid s)"
  by (auto simp: read_to_string_def split: option.splits)

lemma read_secure_to_string_iff:
  assumes "spec_size spec = MaxSize mx" and "0 \<le> mx" and "mx < 2 ^ 63"
  shows "read_secure_to_string c opened spec = Inr s \<longleftrightarrow>
    (\<exists>file stat. opened = Inr file \<and> fd_stat file = Some stat \<and> stat_ok c spec stat \<and>
       fd_data file = Some s \<and> utf8_valid s \<and> length s \<le> nat mx)"
proof -
  have inner: "res_bind (read_to_string f (Some (Suc (nat mx))))
        (\<lambda>contents. if nat mx < length contents then Inl GrewWhileReading else Inr contents) = Inr s
      \<longleftrightarrow> fd_data f = Some s \<and> utf8_valid s \<and> length s \<le> nat mx" for f
    by (force simp: res_bind_Inr_iff read_to_string_iff min_def split: if_splits)
  show ?thesis
    using assms(1)
    by (auto simp: read_secure_to_string_def res_bind_Inr_iff [of "map_err _ _"]
        res_bind_Inr_iff [of "validate_open_file _ _ _"] open_secure_read_def
        validate_open_file_iff unat_max_u64 [OF assms(2,3)] inner)
qed

lemma read_secure_exact_iff:
  "read_secure_exact n c opened spec = Inr b \<longleftrightarrow>
    (\<exists>file stat d. opened = Inr file \<and> fd_stat file = Some stat \<and>
       stat_ok c (spec\<lparr>spec_size := ExactSize (int n)\<rparr>) stat \<and>
       fd_data file = Some d \<and> length d = n \<and> fd_probe_ok file \<and> b = as_bytes d)"
  by (auto simp: read_secure_exact_def Let_def res_bind_Inr_iff open_secure_read_def
      validate_open_file_iff split: option.splits if_splits)

text \<open>The descriptor \<open>open_secure_append\<close> settles on, and whether its mode is checked.\<close>

definition append_target ::
  "(IoErrorKind + OpenFile) \<Rightarrow> (IoErrorKind + OpenFile) \<Rightarrow> (IoErrorKind + OpenFile) \<Rightarrow>
   (OpenFile \<times> bool) option" where
  "append_target existing created reopened =
     (case (existing, created, reopened) of
        (Inr file, _, _) \<Rightarrow> Some (file, True)
      | (Inl IoNotFound, Inr file, _) \<Rightarrow> Some (file, False)
      | (Inl IoNotFound, Inl IoAlreadyExists, Inr file) \<Rightarrow> Some (file, True)
      | _ \<Rightarrow> None)"

section \<open>Files that only root and the service can change\<close>

definition trusted_file :: "u32 \<Rightarrow> OwnerPolicy \<Rightarrow> (IoErrorKind + OpenFile) \<Rightarrow> bool" where
  "trusted_file current_uid owner opened \<longleftrightarrow>
     (\<exists>file stat. opened = Inr file \<and> fd_stat file = Some stat \<and> st_mode stat AND S_IFMT = S_IFREG \<and>
        owner_ok current_uid owner (st_uid stat) \<and> st_mode stat AND 18 = 0)"

definition checked_file :: "u32 \<Rightarrow> SecureFileSpec \<Rightarrow> (IoErrorKind + OpenFile) \<Rightarrow> bool" where
  "checked_file current_uid spec opened \<longleftrightarrow>
     (\<exists>file stat. opened = Inr file \<and> fd_stat file = Some stat \<and> stat_ok current_uid spec stat)"

text \<open>
  A component that trusts a file relies on this much: what it loads was read from a descriptor
  checked against its specification, which keeps the owner policy it was given and allows no mode
  that lets a group or everybody write.
\<close>

locale trusted_loader =
  fixes spec :: "OwnerPolicy \<Rightarrow> SecureFileSpec"
    and loads :: "u32 \<Rightarrow> (IoErrorKind + OpenFile) \<Rightarrow> OwnerPolicy \<Rightarrow> bool"
  assumes keeps_owner: "spec_owner (spec owner) = owner"
    and private_modes: "mode_ok (spec_mode (spec owner)) mode \<Longrightarrow> mode AND 18 = 0"
    and loads_checked: "loads current_uid opened owner \<Longrightarrow> checked_file current_uid (spec owner) opened"
begin

lemma loads_trusted:
  assumes "loads current_uid opened owner"
  shows "trusted_file current_uid owner opened"
proof -
  obtain fd stat where f: "opened = Inr fd" "fd_stat fd = Some stat" "stat_ok current_uid (spec owner) stat"
    using loads_checked [OF assms] by (auto simp: checked_file_def)
  then have "mode_ok (spec_mode (spec owner)) (st_mode stat AND 511)" by (simp add: stat_ok_def)
  then have "(st_mode stat AND 511) AND 18 = 0" by (rule private_modes)
  then have "st_mode stat AND 18 = 0" by (simp add: and.assoc)
  with f show ?thesis by (auto simp: trusted_file_def stat_ok_def keeps_owner)
qed

end

lemma read_secure_checked:
  "read_secure_to_string c opened spec = Inr s \<Longrightarrow> checked_file c spec opened"
  by (auto simp: read_secure_to_string_def res_bind_Inr_iff [of "map_err _ _"]
      res_bind_Inr_iff [of "validate_open_file _ _ _"] open_secure_read_def validate_open_file_iff checked_file_def)

lemma private_modes_0600_0640 [simp]:
  "mode_ok (ExactModes [384, 416]) m \<Longrightarrow> m AND 18 = 0"
  "mode_ok (ExactModes [384]) m \<Longrightarrow> m AND 18 = 0"
  "mode_ok NotGroupWorldWritable m \<Longrightarrow> m AND 18 = 0"
  by (auto simp: mode_ok_def)

section \<open>Properties\<close>

text \<open>Reading a bounded file succeeds exactly when the descriptor that was opened (never a
  symbolic link) is a regular file of an allowed owner, mode and size, and the whole content is
  valid UTF-8 within the limit; what is returned is then the whole content. A file that grew past
  the limit after \<open>fstat\<close> is refused, never truncated.\<close>

theorem read_secure_to_string_spec:
  assumes "spec_size spec = MaxSize mx" and "0 \<le> mx" and "mx < 2 ^ 63"
  shows "read_secure_to_string c opened spec = Inr s \<longleftrightarrow>
    (\<exists>file stat. opened = Inr file \<and> fd_stat file = Some stat \<and>
       st_mode stat AND S_IFMT = S_IFREG \<and> st_size stat \<le> mx \<and>
       mode_ok (spec_mode spec) (st_mode stat AND 511) \<and>
       owner_ok c (spec_owner spec) (st_uid stat) \<and>
       fd_data file = Some s \<and> utf8_valid s \<and> length s \<le> nat mx)"
  using read_secure_to_string_iff [OF assms, of c opened s] assms(1) by (auto simp: stat_ok_def)

theorem read_secure_to_string_spec_witness:
  "read_secure_to_string 1000
     (Inr \<lparr>fd_stat = Some \<lparr>st_mode = 33152, st_uid = 0, st_size = 2\<rparr>, fd_data = Some ''ok'',
           fd_probe_ok = True, fd_chmod_ok = True\<rparr>)
     \<lparr>spec_label = ''test file'', spec_size = MaxSize 1024, spec_mode = ExactModes [384],
      spec_owner = RootOrCurrent\<rparr> = Inr ''ok''"
  by (subst read_secure_to_string_spec [where mx = 1024]) (auto simp: mode_ok_def owner_ok_def)

text \<open>A key file is accepted exactly when the descriptor passes the checks with the exact
  size and exactly that many bytes could be read, with nothing after them.\<close>

theorem read_secure_exact_spec:
  "read_secure_exact n c opened spec = Inr b \<longleftrightarrow>
    (\<exists>file stat d. opened = Inr file \<and> fd_stat file = Some stat \<and>
       st_mode stat AND S_IFMT = S_IFREG \<and> st_size stat = int n \<and>
       mode_ok (spec_mode spec) (st_mode stat AND 511) \<and>
       owner_ok c (spec_owner spec) (st_uid stat) \<and>
       fd_data file = Some d \<and> length d = n \<and> fd_probe_ok file \<and> b = as_bytes d)"
  by (auto simp: read_secure_exact_iff stat_ok_def)

text \<open>An append log is opened exactly on a regular file owned by root or the service user.
  A file that already existed, also one that appeared while creating it, must have mode 0600 or
  the requested one; only a file this call created skips that check.\<close>

theorem open_secure_append_spec:
  "open_secure_append c existing created reopened mode owner = Inr file \<longleftrightarrow>
    (\<exists>check_mode stat. append_target existing created reopened = Some (file, check_mode) \<and>
       fd_stat file = Some stat \<and> st_mode stat AND S_IFMT = S_IFREG \<and>
       owner_ok c owner (st_uid stat) \<and>
       (check_mode \<longrightarrow> st_mode stat AND 511 = 384 \<or> st_mode stat AND 511 = mode) \<and>
       fd_chmod_ok file)"
  by (cases existing; cases created; cases reopened)
     (auto simp: open_secure_append_def append_target_def res_bind_Inr_iff
       split: IoErrorKind.splits if_splits)

theorem open_secure_append_spec_witness:
  "\<exists>e. open_secure_append 1000
      (Inr \<lparr>fd_stat = Some \<lparr>st_mode = 33206, st_uid = 0, st_size = 2\<rparr>, fd_data = Some ''ok'',
           fd_probe_ok = True, fd_chmod_ok = True\<rparr>) (Inl IoOther) (Inl IoOther) 416 RootOrCurrent
    = Inl e"
proof -
  have "open_secure_append 1000
      (Inr \<lparr>fd_stat = Some \<lparr>st_mode = 33206, st_uid = 0, st_size = 2\<rparr>, fd_data = Some ''ok'',
           fd_probe_ok = True, fd_chmod_ok = True\<rparr>) (Inl IoOther) (Inl IoOther) 416 RootOrCurrent
    \<noteq> Inr f" for f
    by (subst open_secure_append_spec) (auto simp: append_target_def)
  then show ?thesis by (metis sum.exhaust)
qed

end
