(* ===== verification/Policy.thy ===== *)
theory Policy
  imports Core_Types Secure_Fs "HOL-Library.Multiset"
begin

text \<open>
  The policy engine of \<open>core/policy\<close>: the rule type and its method field (\<open>types.rs\<close>), the
  loader with its duplicate checks and its stable sort (\<open>parser.rs\<close>) and the decision function
  (\<open>evaluator.rs\<close>). The TOML parser is an argument, \<open>from_toml\<close>: it turns the file's text into
  the field values of the rules or fails; the custom decoder of the method field is modelled.
  The clock reading of \<open>evaluate\<close> is an argument.
\<close>

record PolicyRule =
  pr_method :: "AuthMethod option"
  min_confidence :: f32
  max_age_secs :: u64
  require_uid_match :: bool

record RawRule =
  raw_method :: "string option"
  raw_min_confidence :: f32
  raw_max_age_secs :: u64
  raw_require_uid_match :: bool

datatype PolicyError =
    PolicyFile FsError
  | PolicyToml string
  | InvalidMinConfidence
  | DuplicateMethod AuthMethod
  | DuplicateWildcard

section \<open>Loading\<close>

definition deserialize_policy_method :: "string option \<Rightarrow> string + AuthMethod option" where
  "deserialize_policy_method raw =
     (case raw of
        None \<Rightarrow> Inr None
      | Some value \<Rightarrow>
          if value = ''any'' then Inr None
          else res_bind (validate_method_name value False) (\<lambda>_.
                 res_bind (deserialize_method value) (\<lambda>m. Inr (Some m))))"

definition deserialize_rule :: "RawRule \<Rightarrow> string + PolicyRule" where
  "deserialize_rule r =
     res_bind (deserialize_policy_method (raw_method r)) (\<lambda>m.
       Inr \<lparr>pr_method = m, min_confidence = raw_min_confidence r,
            max_age_secs = raw_max_age_secs r, require_uid_match = raw_require_uid_match r\<rparr>)"

fun deserialize_rules :: "RawRule list \<Rightarrow> string + PolicyRule list" where
  "deserialize_rules [] = Inr []"
| "deserialize_rules (r # rs) =
     res_bind (deserialize_rule r) (\<lambda>x. res_bind (deserialize_rules rs) (\<lambda>xs. Inr (x # xs)))"

fun check_rules :: "AuthMethod list \<Rightarrow> bool \<Rightarrow> PolicyRule list \<Rightarrow> PolicyError + unit" where
  "check_rules seen_methods seen_wildcard [] = Inr ()"
| "check_rules seen_methods seen_wildcard (rule # rs) =
     (if \<not> f32_in_unit (min_confidence rule) then Inl InvalidMinConfidence
      else case pr_method rule of
        Some m \<Rightarrow>
          if m \<in> set seen_methods then Inl (DuplicateMethod m)
          else check_rules (m # seen_methods) seen_wildcard rs
      | None \<Rightarrow>
          if seen_wildcard then Inl DuplicateWildcard
          else check_rules seen_methods True rs)"

definition MAX_POLICY_BYTES :: int where
  "MAX_POLICY_BYTES = 1024 * 1024"

definition policy_file_spec :: "OwnerPolicy \<Rightarrow> SecureFileSpec" where
  "policy_file_spec owner =
     \<lparr>spec_label = ''policy file'', spec_size = MaxSize MAX_POLICY_BYTES,
      spec_mode = ExactModes [384, 416], spec_owner = owner\<rparr>"

declare policy_file_spec_def [simp]

definition read_policy_file :: "u32 \<Rightarrow> (IoErrorKind + OpenFile) \<Rightarrow> OwnerPolicy \<Rightarrow> FsError + string" where
  "read_policy_file current_uid opened owner =
     read_secure_to_string current_uid opened (policy_file_spec owner)"

definition load_policy ::
  "(string \<Rightarrow> string + RawRule list) \<Rightarrow> u32 \<Rightarrow> (IoErrorKind + OpenFile) \<Rightarrow> OwnerPolicy \<Rightarrow>
   PolicyError + PolicyRule list" where
  "load_policy from_toml current_uid opened owner =
     res_bind (map_err PolicyFile (read_policy_file current_uid opened owner)) (\<lambda>contents.
     res_bind (map_err PolicyToml (res_bind (from_toml contents) deserialize_rules)) (\<lambda>rules.
     res_bind (check_rules [] False rules) (\<lambda>_.
       Inr (sort_key (\<lambda>rule. pr_method rule = None) rules))))"

section \<open>Evaluation\<close>

record PolicyEngine =
  pe_rules :: "PolicyRule list"
  max_result_age_secs :: u64

definition from_config_with_owner ::
  "(string \<Rightarrow> string + RawRule list) \<Rightarrow> u32 \<Rightarrow> (IoErrorKind + OpenFile) \<Rightarrow> u64 \<Rightarrow> OwnerPolicy \<Rightarrow>
   PolicyError + PolicyEngine" where
  "from_config_with_owner from_toml current_uid opened max_age owner =
     res_bind (load_policy from_toml current_uid opened owner) (\<lambda>rules.
       Inr \<lparr>pe_rules = rules, max_result_age_secs = max_age\<rparr>)"

definition rule_matches :: "PolicyRule \<Rightarrow> VerificationResult \<Rightarrow> bool" where
  "rule_matches rule result =
     (case pr_method rule of None \<Rightarrow> True | Some m \<Rightarrow> m = rs_method result)"

definition evaluate :: "u64 \<Rightarrow> PolicyEngine \<Rightarrow> AuthContext \<Rightarrow> PolicyDecision" where
  "evaluate now_ms engine context =
     (let result = ctx_result context; request = ctx_request context
      in case find (\<lambda>r. rule_matches r result) (pe_rules engine) of
           None \<Rightarrow> Deny NoMatchingRule
         | Some rule \<Rightarrow>
             if now_ms < rs_timestamp_ms result
             then Deny (ResultFromFuture (rs_timestamp_ms result - now_ms))
             else
               let age = now_ms - rs_timestamp_ms result;
                   max_age_secs = min (max_age_secs rule) (max_result_age_secs engine)
               in (case checked_mul_u64 max_age_secs 1000 of
                    None \<Rightarrow> Deny ResultAgeWindowOverflow
                  | Some max_age \<Rightarrow>
                      if max_age < age then Deny (ResultTooOld age max_age)
                      else if \<not> f32_is_finite (rs_confidence result) \<or>
                              \<not> f32_in_unit (rs_confidence result)
                      then Deny (InvalidConfidence (rs_confidence result))
                      else if f32_lt (rs_confidence result) (min_confidence rule)
                      then Deny (ConfidenceTooLow (rs_confidence result) (min_confidence rule))
                      else if require_uid_match rule \<and> rs_uid result \<noteq> vr_uid request
                      then Deny (UidMismatch (vr_uid request) (rs_uid result))
                      else Allow))"

section \<open>The rules of a loaded policy\<close>

definition rules_wf :: "PolicyRule list \<Rightarrow> bool" where
  "rules_wf rules \<longleftrightarrow> (\<forall>r\<in>set rules. f32_in_unit (min_confidence r)) \<and> distinct (map pr_method rules)"

lemma check_rules_iff:
  "check_rules seen w rules = Inr () \<longleftrightarrow> rules_wf rules \<and>
     (\<forall>r\<in>set rules. pr_method r \<notin> Some ` set seen) \<and> (w \<longrightarrow> None \<notin> pr_method ` set rules)"
  by (induction seen w rules rule: check_rules.induct)
     (auto simp: rules_wf_def image_iff eq_commute [of "Some _" "pr_method _"]
       eq_commute [of None "pr_method _"] split: option.splits)

lemma rules_wf_mset: "mset xs = mset ys \<Longrightarrow> rules_wf xs = rules_wf ys"
  using mset_eq_setD [of xs ys] mset_eq_imp_distinct_iff [of "map pr_method xs" "map pr_method ys"]
  by (simp add: rules_wf_def)

lemma deserialize_rule_method_wf:
  "deserialize_rule r = Inr x \<Longrightarrow> case pr_method x of None \<Rightarrow> True | Some m \<Rightarrow> method_wf m"
  by (auto simp: deserialize_rule_def deserialize_policy_method_def res_bind_Inr_iff
      deserialize_method_Inr split: option.splits if_splits)

text \<open>The rule a policy means for a method: the one that names it, else the wildcard.\<close>

definition rule_for :: "PolicyRule list \<Rightarrow> AuthMethod \<Rightarrow> PolicyRule option" where
  "rule_for rules m =
     (case find (\<lambda>r. pr_method r = Some m) rules of
        Some r \<Rightarrow> Some r
      | None \<Rightarrow> find (\<lambda>r. pr_method r = None) rules)"

lemma distinct_find_iff:
  "distinct (map f xs) \<Longrightarrow> find (\<lambda>x. f x = k) xs = Some r \<longleftrightarrow> r \<in> set xs \<and> f r = k"
  by (induction xs) auto

lemma rule_for_iff:
  assumes "rules_wf rules"
  shows "rule_for rules m = Some r \<longleftrightarrow> r \<in> set rules \<and>
    (pr_method r = Some m \<or> pr_method r = None \<and> (\<forall>s\<in>set rules. pr_method s \<noteq> Some m))"
proof -
  have d: "find (\<lambda>r. pr_method r = k) rules = Some s \<longleftrightarrow> s \<in> set rules \<and> pr_method s = k" for k s
    using assms by (intro distinct_find_iff) (simp add: rules_wf_def)
  show ?thesis
  proof (cases "find (\<lambda>r. pr_method r = Some m) rules")
    case None
    then have "rule_for rules m = Some r \<longleftrightarrow> find (\<lambda>r. pr_method r = None) rules = Some r"
      by (simp add: rule_for_def)
    then show ?thesis using None by (auto simp: d find_None_set)
  next
    case (Some s)
    then have "rule_for rules m = Some r \<longleftrightarrow> r \<in> set rules \<and> pr_method r = Some m"
      using d [of "Some m" r] by (simp add: rule_for_def)
    moreover have "s \<in> set rules \<and> pr_method s = Some m" using Some d by simp
    ultimately show ?thesis by auto
  qed
qed

lemma rule_for_mset:
  assumes "rules_wf xs" and "mset xs = mset ys"
  shows "rule_for xs m = rule_for ys m"
proof -
  have "rules_wf ys" "set xs = set ys"
    using assms(1) rules_wf_mset [OF assms(2)] mset_eq_setD [OF assms(2)] by simp_all
  then show ?thesis
    using assms(1) by (intro option_eqI) (simp add: rule_for_iff)
qed

text \<open>The stable sort puts the rules that name a method first.\<close>

lemma insort_key_bool:
  "\<forall>y\<in>set ys. \<not> f y \<Longrightarrow> \<forall>z\<in>set zs. f z \<Longrightarrow>
     insort_key f x (ys @ zs) = (if f x then ys @ x # zs else x # ys @ zs)"
proof (induction ys)
  case Nil
  then show ?case by (cases zs) auto
qed auto

lemma sort_key_bool: "sort_key f xs = filter (\<lambda>x. \<not> f x) xs @ filter f xs"
  by (induction xs) (simp_all add: insort_key_bool)

lemma find_filter: "find P (filter Q xs) = find (\<lambda>x. Q x \<and> P x) xs"
  by (induction xs) auto

lemma find_append: "find P (xs @ ys) = (case find P xs of None \<Rightarrow> find P ys | Some x \<Rightarrow> Some x)"
  by (induction xs) auto

lemma find_sorted_rules:
  "find (\<lambda>r. rule_matches r result) (sort_key (\<lambda>rule. pr_method rule = None) rules) =
     rule_for rules (rs_method result)"
proof -
  have a: "(\<lambda>x. pr_method x \<noteq> None \<and> rule_matches x result) = (\<lambda>r. pr_method r = Some (rs_method result))"
    by (auto simp: rule_matches_def fun_eq_iff split: option.splits)
  have b: "(\<lambda>x. pr_method x = None \<and> rule_matches x result) = (\<lambda>r. pr_method r = None)"
    by (auto simp: rule_matches_def fun_eq_iff)
  show ?thesis
    by (simp only: sort_key_bool find_append find_filter a b rule_for_def)
qed

lemma load_policy_iff:
  "load_policy from_toml c opened owner = Inr rules \<longleftrightarrow>
    (\<exists>text raw parsed. read_policy_file c opened owner = Inr text \<and> from_toml text = Inr raw \<and>
       deserialize_rules raw = Inr parsed \<and> rules_wf parsed \<and>
       rules = sort_key (\<lambda>rule. pr_method rule = None) parsed)"
  by (auto simp: load_policy_def res_bind_Inr_iff check_rules_iff)

interpretation policy_file: trusted_loader policy_file_spec
  "\<lambda>current_uid opened owner. \<exists>from_toml rules. load_policy from_toml current_uid opened owner = Inr rules"
  by unfold_locales
    (auto simp: read_policy_file_def load_policy_iff dest: read_secure_checked)

lemma load_policy_wf:
  assumes "load_policy from_toml c opened owner = Inr rules"
  shows "rules_wf rules"
  using assms rules_wf_mset [OF mset_sort] by (auto simp: load_policy_iff)

lemma from_config_wf:
  "from_config_with_owner from_toml c opened age owner = Inr e \<Longrightarrow> rules_wf (pe_rules e)"
  by (auto simp: from_config_with_owner_def res_bind_Inr_iff dest: load_policy_wf)

section \<open>When the engine allows\<close>

lemma evaluate_Allow:
  "evaluate now e c = Allow \<longleftrightarrow>
    (\<exists>rule. find (\<lambda>r. rule_matches r (ctx_result c)) (pe_rules e) = Some rule \<and>
       rs_timestamp_ms (ctx_result c) \<le> now \<and>
       min (unat (max_age_secs rule)) (unat (max_result_age_secs e)) * 1000 < 2 ^ 64 \<and>
       unat now - unat (rs_timestamp_ms (ctx_result c)) \<le>
         min (unat (max_age_secs rule)) (unat (max_result_age_secs e)) * 1000 \<and>
       f32_in_unit (rs_confidence (ctx_result c)) \<and>
       \<not> f32_lt (rs_confidence (ctx_result c)) (min_confidence rule) \<and>
       (require_uid_match rule \<longrightarrow> rs_uid (ctx_result c) = vr_uid (ctx_request c)))"
proof (cases "find (\<lambda>r. rule_matches r (ctx_result c)) (pe_rules e)")
  case None
  then show ?thesis by (simp add: evaluate_def Let_def)
next
  case (Some rule)
  let ?m = "min (max_age_secs rule) (max_result_age_secs e)"
  have m: "unat ?m = min (unat (max_age_secs rule)) (unat (max_result_age_secs e))"
    by (simp add: min_def word_le_nat_alt)
  show ?thesis
  proof (cases "rs_timestamp_ms (ctx_result c) \<le> now")
    case False
    then have "now < rs_timestamp_ms (ctx_result c)" by simp
    then show ?thesis using Some False by (simp only: evaluate_def Let_def option.case if_True) simp
  next
    case True
    note age = unat_sub_le_word [OF True]
    show ?thesis
    proof (cases "checked_mul_u64 ?m 1000")
      case None
      then show ?thesis
        using Some True checked_mul_u64_None [of ?m 1000] by (auto simp: evaluate_def Let_def m)
    next
      case (Some w)
      then have w: "unat w = unat ?m * 1000" "unat ?m * 1000 < 2 ^ 64"
        using checked_mul_u64_Some [OF Some] checked_mul_u64_None [of ?m 1000] by auto
      show ?thesis
        using \<open>find _ _ = Some rule\<close> Some True w f32_in_unit_finite [of "rs_confidence (ctx_result c)"]
        by (auto simp: evaluate_def Let_def m [symmetric] word_less_nat_alt word_le_nat_alt age split: if_splits)
    qed
  qed
qed

lemma evaluate_cong:
  assumes "find (\<lambda>r. rule_matches r (ctx_result c)) (pe_rules e) =
      find (\<lambda>r. rule_matches r (ctx_result c)) (pe_rules e')"
    and "max_result_age_secs e = max_result_age_secs e'"
  shows "evaluate now e c = evaluate now e' c"
  by (simp only: evaluate_def Let_def assms)

lemma find_loaded_rules:
  assumes "from_config_with_owner from_toml c opened age owner = Inr e"
  shows "find (\<lambda>r. rule_matches r res) (pe_rules e) = rule_for (pe_rules e) (rs_method res)"
    and "max_result_age_secs e = age"
proof -
  obtain parsed where wf: "rules_wf parsed"
    and e: "e = \<lparr>pe_rules = sort_key (\<lambda>rule. pr_method rule = None) parsed, max_result_age_secs = age\<rparr>"
    using assms by (auto simp: from_config_with_owner_def res_bind_Inr_iff load_policy_iff)
  show "find (\<lambda>r. rule_matches r res) (pe_rules e) = rule_for (pe_rules e) (rs_method res)"
    using rule_for_mset [OF wf, of "pe_rules e"] by (simp add: e find_sorted_rules)
  show "max_result_age_secs e = age" by (simp add: e)
qed

section \<open>Properties\<close>

text \<open>C10: An engine loaded from a policy file allows exactly when the rule that names the
  result's method (or, if there is none, the wildcard) exists and the result satisfies it: the
  timestamp is not in the future and no older than the smaller of the rule's limit and the
  global cap, computed without overflow; the confidence is a finite number between 0 and 1 and
  at least the rule's threshold, as exact values; and the uid agrees where the rule asks for it.\<close>

theorem evaluate_allow_spec:
  assumes "from_config_with_owner from_toml cur opened cap owner = Inr e"
  shows "evaluate now e c = Allow \<longleftrightarrow>
    (\<exists>rule\<in>set (pe_rules e). let res = ctx_result c; age = min (unat (max_age_secs rule)) (unat cap) * 1000 in
       (pr_method rule = Some (rs_method res) \<or>
        pr_method rule = None \<and> (\<forall>s\<in>set (pe_rules e). pr_method s \<noteq> Some (rs_method res))) \<and>
       unat (rs_timestamp_ms res) \<le> unat now \<and> age < 2 ^ 64 \<and>
       unat now - unat (rs_timestamp_ms res) \<le> age \<and>
       f32_is_finite (rs_confidence res) \<and> 0 \<le> f32_scaled (rs_confidence res) \<and>
       f32_scaled (rs_confidence res) \<le> f32_scaled f32_one \<and>
       f32_scaled (min_confidence rule) \<le> f32_scaled (rs_confidence res) \<and>
       (require_uid_match rule \<longrightarrow> rs_uid res = vr_uid (ctx_request c)))"
proof -
  have wf: "rules_wf (pe_rules e)" using assms by (rule from_config_wf)
  have conf: "f32_in_unit k \<and> \<not> f32_lt k (min_confidence r) \<longleftrightarrow>
      f32_is_finite k \<and> 0 \<le> f32_scaled k \<and> f32_scaled k \<le> f32_scaled f32_one \<and>
      f32_scaled (min_confidence r) \<le> f32_scaled k" if "r \<in> set (pe_rules e)" for r k
  proof -
    have "f32_is_finite (min_confidence r)"
      using wf that by (auto simp: rules_wf_def intro: f32_in_unit_finite)
    then show ?thesis by (auto simp: f32_in_unit_iff f32_lt_scaled simp del: power_numeral)
  qed
  show ?thesis
    unfolding evaluate_Allow find_loaded_rules [OF assms] rule_for_iff [OF wf] Let_def Bex_def
    using conf by (auto simp: word_le_nat_alt)
qed

definition sample_file :: "string \<Rightarrow> OpenFile" where
  "sample_file d = \<lparr>fd_stat = Some \<lparr>st_mode = 33152, st_uid = 0, st_size = 2\<rparr>,
     fd_data = Some d, fd_probe_ok = True, fd_chmod_ok = True\<rparr>"

definition sample_policy_file :: OpenFile where
  "sample_policy_file = sample_file ''p''"

lemma loaded_rule_allows:
  assumes "from_config_with_owner from_toml cur opened cap owner = Inr e"
    and "rule_for (pe_rules e) (rs_method (ctx_result c)) = Some rule"
    and "rs_timestamp_ms (ctx_result c) \<le> now"
    and "min (unat (max_age_secs rule)) (unat (max_result_age_secs e)) * 1000 < 2 ^ 64"
    and "unat now - unat (rs_timestamp_ms (ctx_result c)) \<le>
      min (unat (max_age_secs rule)) (unat (max_result_age_secs e)) * 1000"
    and "f32_in_unit (rs_confidence (ctx_result c))"
    and "\<not> f32_lt (rs_confidence (ctx_result c)) (min_confidence rule)"
    and "rs_uid (ctx_result c) = vr_uid (ctx_request c)"
  shows "evaluate now e c = Allow"
proof -
  have "find (\<lambda>r. rule_matches r (ctx_result c)) (pe_rules e) = Some rule"
    using assms(2) by (simp add: find_loaded_rules [OF assms(1)])
  then show ?thesis unfolding evaluate_Allow using assms by blast
qed

definition sample_raw_rules :: "RawRule list" where
  "sample_raw_rules =
     [\<lparr>raw_method = None, raw_min_confidence = f32_zero, raw_max_age_secs = 30, raw_require_uid_match = False\<rparr>,
      \<lparr>raw_method = Some ''pin'', raw_min_confidence = f32_one, raw_max_age_secs = 30,
       raw_require_uid_match = True\<rparr>]"

definition sample_engine :: PolicyEngine where
  "sample_engine = \<lparr>pe_rules =
     [\<lparr>pr_method = Some Pin, min_confidence = f32_one, max_age_secs = 30, require_uid_match = True\<rparr>,
      \<lparr>pr_method = None, min_confidence = f32_zero, max_age_secs = 30, require_uid_match = False\<rparr>],
     max_result_age_secs = 10\<rparr>"

definition sample_context :: AuthContext where
  "sample_context = \<lparr>ctx_uid = 1000, ctx_method = ''pin'',
     ctx_request = \<lparr>vr_version = 1, vr_id = [1], vr_uid = 1000, vr_nonce = [7], vr_deadline_ms = 5000\<rparr>,
     ctx_result = \<lparr>rs_version = 1, rs_id = [1], rs_confidence = f32_one, rs_method = Pin,
        rs_timestamp_ms = 60000, rs_uid = 1000, rs_nonce = [7], rs_evidence_hash = []\<rparr>,
     ctx_decision = None\<rparr>"

lemma sample_file_read:
  "utf8_valid d \<Longrightarrow> length d \<le> 100 \<Longrightarrow> read_policy_file 0 (Inr (sample_file d)) owner = Inr d"
  unfolding read_policy_file_def sample_file_def
  by (subst read_secure_to_string_iff [where mx = "1024 * 1024"])
     (simp_all add: MAX_POLICY_BYTES_def stat_ok_def mode_ok_def owner_ok_def)

lemma sample_policy_read: "read_policy_file 0 (Inr sample_policy_file) owner = Inr ''p''"
  by (simp add: sample_policy_file_def sample_file_read)

lemma sample_rules_loaded:
  "deserialize_rules sample_raw_rules = Inr (rev (pe_rules sample_engine))"
  "deserialize_rules (rev sample_raw_rules) = Inr (pe_rules sample_engine)"
  "sort_key (\<lambda>rule. pr_method rule = None) (rev (pe_rules sample_engine)) = pe_rules sample_engine"
  "rules_wf (rev (pe_rules sample_engine))"
  by (auto simp: sample_raw_rules_def sample_engine_def deserialize_rule_def name_ok_def
      deserialize_policy_method_def deserialize_method_def res_bind_Inr_iff MAX_NAME_LEN_def
      name_char_def is_ascii_alphanumeric_def rules_wf_def f32_in_unit_iff sort_key_bool)

lemma sample_engine_loaded:
  "from_config_with_owner (\<lambda>_. Inr sample_raw_rules) 0 (Inr sample_policy_file) 10 owner
     = Inr sample_engine"
proof -
  have "load_policy (\<lambda>_. Inr sample_raw_rules) 0 (Inr sample_policy_file) owner
      = Inr (pe_rules sample_engine)"
    using sample_policy_read sample_rules_loaded(1,3,4) by (subst load_policy_iff) auto
  then show ?thesis by (simp add: from_config_with_owner_def sample_engine_def)
qed

theorem evaluate_allow_spec_witness: "evaluate 70000 sample_engine sample_context = Allow"
  by (subst evaluate_allow_spec [OF sample_engine_loaded])
     (simp add: sample_engine_def sample_context_def Let_def)

text \<open>C33: The order of the rules in the policy file does not matter: two files with the same
  rules in a different order both load or both fail, and the engines they give decide every
  request alike.\<close>

theorem policy_order_irrelevant:
  assumes "read_policy_file cur o_a owner = Inr t_a" and "read_policy_file cur o_b owner = Inr t_b"
    and "from_toml t_a = Inr raw_a" and "from_toml t_b = Inr raw_b"
    and "deserialize_rules raw_a = Inr p_a" and "deserialize_rules raw_b = Inr p_b"
    and "mset p_a = mset p_b"
  shows "(case (from_config_with_owner from_toml cur o_a cap owner,
               from_config_with_owner from_toml cur o_b cap owner) of
            (Inl _, Inl _) \<Rightarrow> True
          | (Inr e1, Inr e2) \<Rightarrow> evaluate now e1 c = evaluate now e2 c
          | _ \<Rightarrow> False)"
proof -
  let ?e = "\<lambda>p. \<lparr>pe_rules = sort_key (\<lambda>rule. pr_method rule = None) p, max_result_age_secs = cap\<rparr>"
  have load: "from_config_with_owner from_toml cur o_a cap owner =
        res_bind (check_rules [] False p_a) (\<lambda>_. Inr (?e p_a))"
      "from_config_with_owner from_toml cur o_b cap owner =
        res_bind (check_rules [] False p_b) (\<lambda>_. Inr (?e p_b))"
    using assms(1-6) by (auto simp: from_config_with_owner_def load_policy_def res_bind_def split: sum.splits)
  show ?thesis
  proof (cases "rules_wf p_a")
    case True
    then have "rules_wf p_b" using rules_wf_mset [OF assms(7)] by simp
    then have "check_rules [] False p_a = Inr ()" "check_rules [] False p_b = Inr ()"
      using True by (simp_all add: check_rules_iff)
    moreover have "evaluate now (?e p_a) c = evaluate now (?e p_b) c"
      by (rule evaluate_cong) (simp_all add: find_sorted_rules rule_for_mset [OF True assms(7)])
    ultimately show ?thesis by (simp add: load)
  next
    case False
    then have "check_rules [] False p_a \<noteq> Inr ()" "check_rules [] False p_b \<noteq> Inr ()"
      using rules_wf_mset [OF assms(7)] by (simp_all add: check_rules_iff)
    then show ?thesis
      by (cases "check_rules [] False p_a"; cases "check_rules [] False p_b") (simp_all add: load)
  qed
qed

theorem policy_order_irrelevant_witness:
  "case (from_config_with_owner (\<lambda>t. Inr (if t = ''p'' then sample_raw_rules else rev sample_raw_rules))
           0 (Inr (sample_file ''p'')) 10 RootOrCurrent,
         from_config_with_owner (\<lambda>t. Inr (if t = ''p'' then sample_raw_rules else rev sample_raw_rules))
           0 (Inr (sample_file ''q'')) 10 RootOrCurrent) of
     (Inl _, Inl _) \<Rightarrow> True
   | (Inr e1, Inr e2) \<Rightarrow> evaluate 70000 e1 sample_context = evaluate 70000 e2 sample_context
   | _ \<Rightarrow> False"
  by (rule policy_order_irrelevant [where raw_a = sample_raw_rules and raw_b = "rev sample_raw_rules"
        and p_a = "rev (pe_rules sample_engine)" and p_b = "pe_rules sample_engine"
        and t_a = "''p''" and t_b = "''q''"])
     (simp_all add: sample_rules_loaded sample_file_read)

text \<open>A policy loads exactly when its file passes the file checks, parses, every method
  name is valid, every threshold lies in the unit interval and no method (nor the wildcard) has
  two rules; the rules are then those of the file, the ones that name a method first.\<close>

theorem load_policy_spec:
  "load_policy from_toml cur opened owner = Inr rules \<longleftrightarrow>
    (\<exists>text raw parsed. read_policy_file cur opened owner = Inr text \<and> from_toml text = Inr raw \<and>
       deserialize_rules raw = Inr parsed \<and>
       list_all (\<lambda>r. f32_in_unit (min_confidence r)) parsed \<and> distinct (map pr_method parsed) \<and>
       rules = filter (\<lambda>r. pr_method r \<noteq> None) parsed @ filter (\<lambda>r. pr_method r = None) parsed)"
  by (auto simp: load_policy_iff rules_wf_def sort_key_bool list_all_iff)

end
