(* ===== verification/Allowlist.thy ===== *)
theory Allowlist
  imports Secure_Fs
begin

text \<open>
  The uid allowlist of \<open>security/allowlist.rs\<close>. Loading clears the set only after the file
  was read; a strict load that meets a bad line stops there and leaves the uids of the lines
  before it, so the operation returns the state beside its result. The daemon's own uid
  (\<open>getuid\<close>) is an argument.
\<close>

definition MAX_ALLOWLIST_BYTES :: int where
  "MAX_ALLOWLIST_BYTES = 1024 * 1024"

record Allowlist =
  allowed_uids :: "u32 set"

definition new_allowlist :: Allowlist where
  "new_allowlist = \<lparr>allowed_uids = {}\<rparr>"

datatype AllowlistError = AllowlistFile FsError | InvalidUid nat

definition uid_text :: "string \<Rightarrow> string" where
  "uid_text line = trim (takeWhile (\<lambda>c. c \<noteq> CHR ''#'') line)"

fun load_lines ::
  "bool \<Rightarrow> nat \<Rightarrow> string list \<Rightarrow> u32 set \<Rightarrow> (AllowlistError + unit) \<times> u32 set" where
  "load_lines strict i [] uids = (Inr (), uids)"
| "load_lines strict i (raw # ls) uids =
     (let line = uid_text raw
      in if line = [] then load_lines strict (Suc i) ls uids
         else case parse_u32 line of
                Some uid \<Rightarrow> load_lines strict (Suc i) ls (insert uid uids)
              | None \<Rightarrow> if strict then (Inl (InvalidUid (i + 1)), uids)
                        else load_lines strict (Suc i) ls uids)"

definition allowlist_spec :: "OwnerPolicy \<Rightarrow> SecureFileSpec" where
  "allowlist_spec owner =
     \<lparr>spec_label = ''Allowlist file'', spec_size = MaxSize MAX_ALLOWLIST_BYTES,
      spec_mode = ExactModes [384, 416], spec_owner = owner\<rparr>"

definition load_from_file_with_options ::
  "u32 \<Rightarrow> (IoErrorKind + OpenFile) \<Rightarrow> bool \<Rightarrow> OwnerPolicy \<Rightarrow> Allowlist \<Rightarrow>
   (AllowlistError + unit) \<times> Allowlist" where
  "load_from_file_with_options current_uid opened strict owner al =
     (case read_secure_to_string current_uid opened (allowlist_spec owner) of
        Inl e \<Rightarrow> (Inl (AllowlistFile e), al)
      | Inr content \<Rightarrow>
          let (r, uids) = load_lines strict 0 (lines content) {}
          in (r, al\<lparr>allowed_uids := uids\<rparr>))"

definition is_allowed :: "u32 \<Rightarrow> u32 \<Rightarrow> Allowlist \<Rightarrow> bool" where
  "is_allowed current_uid uid al \<longleftrightarrow> uid = 0 \<or> uid = current_uid \<or> uid \<in> allowed_uids al"

section \<open>The set a file means\<close>

definition listed :: "string list \<Rightarrow> u32 set" where
  "listed ls = {uid. \<exists>l\<in>set ls. parse_u32 (uid_text l) = Some uid}"

definition line_ok :: "string \<Rightarrow> bool" where
  "line_ok l \<longleftrightarrow> uid_text l = [] \<or> parse_u32 (uid_text l) \<noteq> None"

lemma parse_u32_Nil [simp]: "parse_u32 [] = None"
  by (simp add: parse_u32_def parse_uint_def)

lemma listed_simps [simp]:
  "listed [] = {}"
  "listed (l # ls) = (case parse_u32 (uid_text l) of None \<Rightarrow> {} | Some u \<Rightarrow> {u}) \<union> listed ls"
  by (auto simp: listed_def split: option.splits)

lemma load_lines_ok:
  "\<not> strict \<or> (\<forall>l\<in>set ls. line_ok l) \<Longrightarrow> load_lines strict i ls uids = (Inr (), uids \<union> listed ls)"
  by (induction strict i ls uids rule: load_lines.induct)
     (auto simp: Let_def line_ok_def split: option.splits)

lemma load_lines_bad:
  "fst (load_lines True i ls uids) = Inr () \<Longrightarrow> \<forall>l\<in>set ls. line_ok l"
proof (induction ls arbitrary: i uids)
  case (Cons l ls)
  then show ?case
    by (auto simp: Let_def line_ok_def split: option.splits if_splits)
qed simp

lemma uid_text_to_string: "uid_text (nat_to_string n) = nat_to_string n"
proof -
  have plain: "\<forall>c\<in>set (nat_to_string n). is_ascii_digit c"
    by (simp add: nat_to_string_digits)
  then have "takeWhile (\<lambda>c. c \<noteq> CHR ''#'') (nat_to_string n) = nat_to_string n"
    unfolding takeWhile_eq_all_conv by (auto simp: is_ascii_digit_def)
  moreover have "trim (nat_to_string n) = nat_to_string n"
    using plain by (intro trim_plain_ascii) (auto simp: is_ascii_digit_def)
  ultimately show ?thesis by (simp only: uid_text_def)
qed

lemma strip_cr_digits: "strip_cr (nat_to_string n) = nat_to_string n"
  using nat_to_string_digits [OF last_in_set, of n]
  by (auto simp: strip_cr_def is_ascii_digit_def)

lemma newline_not_digits: "newline \<notin> set (nat_to_string n)"
  using nat_to_string_digits [of newline n] by (auto simp: is_ascii_digit_def)

lemma load_allowlist_Inr:
  assumes "load_from_file_with_options cur opened strict owner al = (Inr u, al')"
  shows "\<exists>content. read_secure_to_string cur opened (allowlist_spec owner) = Inr content \<and>
    (strict \<longrightarrow> (\<forall>l\<in>set (lines content). line_ok l)) \<and> al' = al\<lparr>allowed_uids := listed (lines content)\<rparr>"
proof -
  obtain content where c: "read_secure_to_string cur opened (allowlist_spec owner) = Inr content"
      and l: "load_lines strict 0 (lines content) {} = (Inr u, allowed_uids al')"
      and al: "al' = al\<lparr>allowed_uids := allowed_uids al'\<rparr>"
    using assms
    by (auto simp: load_from_file_with_options_def split: sum.splits prod.splits)
  have ok: "\<not> strict \<or> (\<forall>l\<in>set (lines content). line_ok l)"
    using l load_lines_bad [of 0 "lines content" "{}"] by (cases strict) auto
  then have "allowed_uids al' = listed (lines content)" using l by (simp add: load_lines_ok)
  with c ok al show ?thesis by auto
qed

interpretation allowlist_file: trusted_loader allowlist_spec
  "\<lambda>current_uid opened owner. \<exists>strict al al'. load_from_file_with_options current_uid opened strict owner al = (Inr (), al')"
  by unfold_locales (auto simp: allowlist_spec_def dest!: load_allowlist_Inr read_secure_checked)

lemma allowlist_read_trusted:
  assumes "read_secure_to_string cur opened (allowlist_spec owner) = Inr content"
  shows "trusted_file cur owner opened"
proof -
  have "\<exists>al'. load_from_file_with_options cur opened False owner new_allowlist = (Inr (), al')"
    using assms by (auto simp: load_from_file_with_options_def load_lines_ok)
  then show ?thesis by (blast intro: allowlist_file.loads_trusted)
qed

section \<open>Properties\<close>

text \<open>After a successful load exactly root, the daemon's own uid and the uids the file
  lists (one per line, comments and surrounding white space ignored) are allowed, whatever the
  list held before; a strict load succeeds only if every non-empty line is a uid.\<close>

theorem allowlist_load_spec:
  assumes "load_from_file_with_options cur opened strict owner al = (Inr (), al')"
  shows "\<exists>content. read_secure_to_string cur opened (allowlist_spec owner) = Inr content \<and>
    (strict \<longrightarrow> (\<forall>l\<in>set (lines content). line_ok l)) \<and>
    (\<forall>uid. is_allowed self uid al' \<longleftrightarrow> uid = 0 \<or> uid = self \<or>
       (\<exists>l\<in>set (lines content). parse_u32 (uid_text l) = Some uid))"
  using load_allowlist_Inr [OF assms] by (auto simp: is_allowed_def listed_def)

text \<open>Writing a list of uids one per line and loading the file gives back exactly that
  list, in strict mode too.\<close>

theorem allowlist_roundtrip:
  assumes "read_secure_to_string cur opened (allowlist_spec owner) =
      Inr (unlines (map (\<lambda>u. nat_to_string (unat u)) uids))"
  shows "load_from_file_with_options cur opened strict owner al =
    (Inr (), al\<lparr>allowed_uids := set uids\<rparr>)"
proof -
  let ?ls = "map (\<lambda>u. nat_to_string (unat u)) uids"
  have "lines (unlines ?ls) = ?ls"
    by (simp add: lines_unlines newline_not_digits strip_cr_digits comp_def)
  moreover have "\<forall>l\<in>set ?ls. line_ok l"
    by (simp add: line_ok_def uid_text_to_string parse_u32_to_string)
  moreover have "listed ?ls = set uids"
    by (auto simp: listed_def uid_text_to_string parse_u32_to_string)
  ultimately show ?thesis
    using assms by (simp add: load_from_file_with_options_def load_lines_ok)
qed

definition sample_allowlist_file :: OpenFile where
  "sample_allowlist_file = \<lparr>fd_stat = Some \<lparr>st_mode = 33152, st_uid = 0, st_size = 5\<rparr>,
     fd_data = Some (unlines [''1000'']), fd_probe_ok = True, fd_chmod_ok = True\<rparr>"

lemma sample_allowlist_read:
  "read_secure_to_string 0 (Inr sample_allowlist_file) (allowlist_spec owner) =
     Inr (unlines (map (\<lambda>u. nat_to_string (unat u)) [1000 :: u32]))"
proof -
  have t: "nat_to_string (unat (1000 :: u32)) = ''1000''"
    by (simp add: nat_to_string.simps digit_char_def char_of_def bit_0)
  show ?thesis
    unfolding t list.map sample_allowlist_file_def allowlist_spec_def
    by (subst read_secure_to_string_iff [where mx = "1024 * 1024"])
       (auto simp: MAX_ALLOWLIST_BYTES_def stat_ok_def mode_ok_def owner_ok_def)
qed

theorem allowlist_roundtrip_witness:
  "load_from_file_with_options 0 (Inr sample_allowlist_file) True RootOrCurrent new_allowlist =
     (Inr (), new_allowlist\<lparr>allowed_uids := set [1000]\<rparr>)"
  by (rule allowlist_roundtrip [OF sample_allowlist_read])

lemma sample_allowlist_loaded:
  "load_from_file_with_options 0 (Inr sample_allowlist_file) strict owner new_allowlist =
     (Inr (), \<lparr>allowed_uids = {1000}\<rparr>)"
proof -
  have "lines (unlines [''1000'']) = [''1000'']"
    by (subst lines_unlines) (simp_all add: strip_cr_def)
  moreover have "uid_text ''1000'' = ''1000''"
    by (simp add: uid_text_def, rule trim_plain_ascii) simp
  moreover have "parse_u32 ''1000'' = Some 1000"
    by (simp add: parse_u32_def parse_uint_def Let_def to_digit_def is_ascii_digit_def)
  ultimately show ?thesis
    using sample_allowlist_read
    by (simp add: load_from_file_with_options_def load_lines_ok new_allowlist_def
        nat_to_string.simps digit_char_def char_of_def bit_0)
qed

theorem allowlist_load_spec_witness:
  "\<exists>content. read_secure_to_string 0 (Inr sample_allowlist_file) (allowlist_spec RootOrCurrent) = Inr content \<and>
    (False \<longrightarrow> (\<forall>l\<in>set (lines content). line_ok l)) \<and>
    (\<forall>uid. is_allowed 5 uid \<lparr>allowed_uids = {1000}\<rparr> \<longleftrightarrow> uid = 0 \<or> uid = 5 \<or>
       (\<exists>l\<in>set (lines content). parse_u32 (uid_text l) = Some uid))"
  using allowlist_load_spec [OF sample_allowlist_loaded [of False RootOrCurrent], of 5] .

end
