(* ===== verification/Adapter_Client.thy ===== *)
theory Adapter_Client
  imports Core_Types Json
begin

text \<open>
  The adapter client, \<open>adapters/client.rs\<close>. One request is one connection; what the socket
  calls do is the argument \<open>AdapterIo\<close>, one field per call, each possibly failing or running into
  the deadline. serde_json is the arguments \<open>to_json\<close> and \<open>from_json\<close>. \<open>verify_client\<close> also returns
  the lines it sent, since what matters is that nothing is sent to a peer of the wrong uid.
\<close>

definition PROTOCOL_VERSION :: u8 where
  "PROTOCOL_VERSION = 1"

record AdapterClient =
  cl_name :: string
  cl_socket_path :: string
  cl_expected_uid :: u32
  cl_timeout :: duration

text \<open>Errors of other packages carry their text.\<close>

datatype AdapterError =
    Timeout
  | Connect string
  | AdapterUidMismatch (expected: u32) (got: u32)
  | Disconnected
  | VersionMismatch u8
  | IdMismatch
  | Serde string
  | Io string
  | Codec string
  | Nix string
  | MethodNotFound string
  | AdapterDown string
  | AdapterBusy string

fun adapter_error_text :: "AdapterError \<Rightarrow> string" where
  "adapter_error_text Timeout = ''adapter socket not found or timed out''"
| "adapter_error_text (Connect e) = ''connect failed: '' @ e"
| "adapter_error_text (AdapterUidMismatch e g) =
     ''uid mismatch: expected '' @ nat_to_string (unat e) @ '', got '' @ nat_to_string (unat g)"
| "adapter_error_text Disconnected = ''adapter disconnected''"
| "adapter_error_text (VersionMismatch v) =
     ''protocol version mismatch: '' @ nat_to_string (unat v)"
| "adapter_error_text IdMismatch = ''response id does not match request id''"
| "adapter_error_text (Serde e) = ''serialization error: '' @ e"
| "adapter_error_text (Io e) = ''io error: '' @ e"
| "adapter_error_text (Codec e) = ''codec error: '' @ e"
| "adapter_error_text (Nix e) = ''nix error: '' @ e"
| "adapter_error_text (MethodNotFound m) = ''method not found: '' @ m"
| "adapter_error_text (AdapterDown n) = ''adapter down: '' @ n"
| "adapter_error_text (AdapterBusy n) = ''adapter busy: '' @ n"

text \<open>A call under \<open>timeout_at\<close>.\<close>

datatype 'a timed = Elapsed | Done 'a

record AdapterIo =
  io_connect :: "(string + unit) timed"
  io_peer_uid :: "string + u32"
  io_send :: "(string + unit) timed"
  io_next :: "(string + string) option timed"

definition timed_err :: "'a timed \<Rightarrow> AdapterError + 'a" where
  "timed_err t = (case t of Elapsed \<Rightarrow> Inl Timeout | Done x \<Rightarrow> Inr x)"

definition verify_client ::
  "(VerificationRequest \<Rightarrow> string + string) \<Rightarrow> (string \<Rightarrow> string + VerificationResult) \<Rightarrow> AdapterIo \<Rightarrow>
   AdapterClient \<Rightarrow> VerificationRequest \<Rightarrow> (AdapterError + VerificationResult) \<times> string list" where
  "verify_client to_json from_json io client request =
     (case res_bind (timed_err (io_connect io)) (map_err Connect) of
        Inl e \<Rightarrow> (Inl e, [])
      | Inr _ \<Rightarrow>
       (case io_peer_uid io of
          Inl e \<Rightarrow> (Inl (Nix e), [])
        | Inr peer \<Rightarrow>
            if peer \<noteq> cl_expected_uid client
            then (Inl (AdapterUidMismatch (cl_expected_uid client) peer), [])
            else (case to_json request of
              Inl e \<Rightarrow> (Inl (Serde e), [])
            | Inr req_json \<Rightarrow>
               (case res_bind (timed_err (io_send io)) (map_err Codec) of
                  Inl e \<Rightarrow> (Inl e, [req_json])
                | Inr _ \<Rightarrow>
                    (res_bind (timed_err (io_next io)) (\<lambda>next.
                     res_bind (ok_or Disconnected next) (\<lambda>received.
                     res_bind (map_err Codec received) (\<lambda>response_line.
                     res_bind (map_err Serde (from_json response_line)) (\<lambda>result.
                       if rs_version result \<noteq> PROTOCOL_VERSION
                       then Inl (VersionMismatch (rs_version result))
                       else if rs_id result \<noteq> vr_id request then Inl IdMismatch
                       else Inr result)))), [req_json])))))"

text \<open>\<open>ping\<close>: \<open>None\<close> when the client's own timeout elapsed before \<open>ping_once\<close> returned.\<close>

record PingIo =
  pg_connect :: "string + unit"
  pg_peer_uid :: "string + u32"
  pg_send :: "string + unit"
  pg_next :: "(string + string) option"

definition ping_once ::
  "(string \<Rightarrow> string + json) \<Rightarrow> PingIo \<Rightarrow> AdapterClient \<Rightarrow> AdapterError + bool" where
  "ping_once from_json io client =
     res_bind (map_err Connect (pg_connect io)) (\<lambda>_.
     res_bind (map_err Nix (pg_peer_uid io)) (\<lambda>peer.
       if peer \<noteq> cl_expected_uid client then Inr False
       else
         res_bind (map_err Codec (pg_send io)) (\<lambda>_.
         res_bind (ok_or Disconnected (pg_next io)) (\<lambda>received.
         res_bind (map_err Codec received) (\<lambda>response_line.
         res_bind (map_err Serde (from_json response_line)) (\<lambda>response.
           Inr (json_as_u64 (json_index response ''version'') = Some (ucast PROTOCOL_VERSION) \<and>
                json_as_bool (json_index response ''ok'') = Some True)))))))"

definition ping ::
  "(string \<Rightarrow> string + json) \<Rightarrow> PingIo option \<Rightarrow> AdapterClient \<Rightarrow> bool" where
  "ping from_json io client =
     (case io of
        None \<Rightarrow> False
      | Some i \<Rightarrow> (case ping_once from_json i client of Inl _ \<Rightarrow> False | Inr b \<Rightarrow> b))"

section \<open>Lemmas\<close>

lemma timed_err_simps [simp]: "timed_err Elapsed = Inl Timeout" "timed_err (Done x) = Inr x"
  by (simp_all add: timed_err_def)

lemma timed_err_Inr [simp]: "timed_err t = Inr x \<longleftrightarrow> t = Done x"
  by (cases t) simp_all

lemma verify_client_sent:
  "snd (verify_client to_json from_json io client request) \<noteq> [] \<Longrightarrow>
     io_peer_uid io = Inr (cl_expected_uid client) \<and>
     (\<exists>req. to_json request = Inr req \<and>
        snd (verify_client to_json from_json io client request) = [req])"
  by (auto simp: verify_client_def split: sum.splits if_splits)

lemma verify_client_Inr:
  assumes "fst (verify_client to_json from_json io client request) = Inr result"
  shows "io_peer_uid io = Inr (cl_expected_uid client) \<and>
    rs_version result = PROTOCOL_VERSION \<and> rs_id result = vr_id request \<and>
    (\<exists>line. io_next io = Done (Some (Inr line)) \<and> from_json line = Inr result)"
  using assms
  by (auto simp: verify_client_def res_bind_Inr_iff split: sum.splits if_splits)

section \<open>Properties\<close>

text \<open>C29: The client sends the request, and with it the nonce, only to a peer whose kernel-reported
  uid is the configured one, and accepts a response only from such a peer, in the protocol's
  version and with the id of this very request.\<close>

theorem adapter_peer_authenticated:
  "(snd (verify_client to_json from_json io client request) \<noteq> [] \<longrightarrow>
      io_peer_uid io = Inr (cl_expected_uid client)) \<and>
   (\<forall>result. fst (verify_client to_json from_json io client request) = Inr result \<longrightarrow>
      io_peer_uid io = Inr (cl_expected_uid client) \<and> rs_version result = 1 \<and>
      rs_id result = vr_id request \<and>
      (\<exists>line. io_next io = Done (Some (Inr line)) \<and> from_json line = Inr result))"
  using verify_client_sent [of to_json from_json io client request]
    verify_client_Inr [of to_json from_json io client request]
  by (auto simp: PROTOCOL_VERSION_def)

theorem adapter_peer_authenticated_witness:
  "snd (verify_client (\<lambda>_. Inr ''req'') (\<lambda>_. Inl ''bad'')
     \<lparr>io_connect = Done (Inr ()), io_peer_uid = Inr 0, io_send = Done (Inr ()), io_next = Elapsed\<rparr>
     \<lparr>cl_name = ''fido2'', cl_socket_path = ''/run/x'', cl_expected_uid = 990, cl_timeout = 5\<rparr>
     \<lparr>vr_version = 1, vr_id = [1], vr_uid = 1000, vr_nonce = [7], vr_deadline_ms = 5\<rparr>) = []"
  using adapter_peer_authenticated [of "\<lambda>_. Inr ''req''" "\<lambda>_. Inl ''bad''"
     "\<lparr>io_connect = Done (Inr ()), io_peer_uid = Inr 0, io_send = Done (Inr ()), io_next = Elapsed\<rparr>"
     "\<lparr>cl_name = ''fido2'', cl_socket_path = ''/run/x'', cl_expected_uid = 990, cl_timeout = 5\<rparr>"
     "\<lparr>vr_version = 1, vr_id = [1], vr_uid = 1000, vr_nonce = [7], vr_deadline_ms = 5\<rparr>"]
  by auto

end
