(* ===== verification/Hash_Map.thy ===== *)
theory Hash_Map
  imports Prelude "HOL-Library.AList"
begin

text \<open>
  Rust's \<open>HashMap\<close>, as the stores use it: \<open>get\<close>, \<open>insert\<close>, \<open>remove\<close>, \<open>retain\<close>,
  \<open>len\<close>. The locale \<open>hash_map\<close> is the contract the stores rely on; its lemmas are proved
  once from the laws. The implementation is an association list with distinct keys; its order
  stands for the map's unspecified iteration order, and nothing below depends on it.
\<close>

type_synonym ('k, 'v) hmap = "('k \<times> 'v) list"

definition hm_get :: "('k, 'v) hmap \<Rightarrow> 'k \<Rightarrow> 'v option" where
  "hm_get m k = map_of m k"

definition hm_insert :: "'k \<Rightarrow> 'v \<Rightarrow> ('k, 'v) hmap \<Rightarrow> ('k, 'v) hmap" where
  "hm_insert k v m = AList.update k v m"

definition hm_remove :: "'k \<Rightarrow> ('k, 'v) hmap \<Rightarrow> ('k, 'v) hmap" where
  "hm_remove k m = AList.delete k m"

definition hm_retain :: "('k \<Rightarrow> 'v \<Rightarrow> bool) \<Rightarrow> ('k, 'v) hmap \<Rightarrow> ('k, 'v) hmap" where
  "hm_retain P m = filter (\<lambda>(k, v). P k v) m"

definition hm_len :: "('k, 'v) hmap \<Rightarrow> nat" where
  "hm_len m = length m"

text \<open>The number of entries whose value satisfies a predicate: a ghost of the invariants.\<close>

definition hm_count :: "('v \<Rightarrow> bool) \<Rightarrow> ('k, 'v) hmap \<Rightarrow> nat" where
  "hm_count P m = length (filter (P \<circ> snd) m)"

definition hm_keys :: "('k, 'v) hmap \<Rightarrow> 'k list" where
  "hm_keys m = map fst m"

definition hm_inv :: "('k, 'v) hmap \<Rightarrow> bool" where
  "hm_inv m \<longleftrightarrow> distinct (map fst m)"

section \<open>The contract\<close>

locale hash_map =
  fixes empty :: 'm
    and get :: "'m \<Rightarrow> 'k \<Rightarrow> 'v option"
    and insert_op :: "'k \<Rightarrow> 'v \<Rightarrow> 'm \<Rightarrow> 'm"
    and remove_op :: "'k \<Rightarrow> 'm \<Rightarrow> 'm"
    and retain :: "('k \<Rightarrow> 'v \<Rightarrow> bool) \<Rightarrow> 'm \<Rightarrow> 'm"
    and len :: "'m \<Rightarrow> nat"
    and count_if :: "('v \<Rightarrow> bool) \<Rightarrow> 'm \<Rightarrow> nat"
    and inv_map :: "'m \<Rightarrow> bool"
  assumes get_empty [simp]: "get empty k = None"
    and get_insert: "get (insert_op k v m) k' = (if k' = k then Some v else get m k')"
    and get_remove: "get (remove_op k m) k' = (if k' = k then None else get m k')"
    and get_retain: "inv_map m \<Longrightarrow> get (retain P m) k =
          (case get m k of None \<Rightarrow> None | Some v \<Rightarrow> if P k v then Some v else None)"
    and inv_empty [simp]: "inv_map empty"
    and inv_insert: "inv_map m \<Longrightarrow> inv_map (insert_op k v m)"
    and inv_remove: "inv_map m \<Longrightarrow> inv_map (remove_op k m)"
    and inv_retain: "inv_map m \<Longrightarrow> inv_map (retain P m)"
    and len_empty [simp]: "len empty = 0"
    and len_insert: "inv_map m \<Longrightarrow>
          len (insert_op k v m) = (if get m k = None then Suc (len m) else len m)"
    and len_remove_Some: "inv_map m \<Longrightarrow> get m k \<noteq> None \<Longrightarrow> Suc (len (remove_op k m)) = len m"
    and remove_absent: "get m k = None \<Longrightarrow> remove_op k m = m"
    and len_retain: "len (retain P m) \<le> len m"
    and count_empty [simp]: "count_if Q empty = 0"
    and count_insert_fresh: "get m k = None \<Longrightarrow>
          count_if Q (insert_op k v m) = count_if Q m + (if Q v then 1 else 0)"
    and count_remove: "inv_map m \<Longrightarrow> get m k = Some v \<Longrightarrow>
          count_if Q (remove_op k m) + (if Q v then 1 else 0) = count_if Q m"
    and count_pos: "inv_map m \<Longrightarrow> get m k = Some v \<Longrightarrow> Q v \<Longrightarrow> 0 < count_if Q m"
    and count_le_len: "count_if Q m \<le> len m"
begin

lemma len_remove_le: "inv_map m \<Longrightarrow> len (remove_op k m) \<le> len m"
  using len_remove_Some [of m k] remove_absent [of m k] by (cases "get m k = None") auto

lemma count_remove_le: "inv_map m \<Longrightarrow> count_if Q (remove_op k m) \<le> count_if Q m"
  using count_remove [of m k] remove_absent [of m k]
  by (cases "get m k") (auto, metis le_add1)

text \<open>Removing a list of keys: the map forgets exactly those keys.\<close>

lemma get_remove_all: "get (foldl (\<lambda>m k. remove_op k m) m ks) k = (if k \<in> set ks then None else get m k)"
  by (induction ks arbitrary: m) (simp_all add: get_remove)

lemma inv_remove_all: "inv_map m \<Longrightarrow> inv_map (foldl (\<lambda>m k. remove_op k m) m ks)"
  by (induction ks arbitrary: m) (simp_all add: inv_remove)

lemma insert_len_bound: "inv_map m \<Longrightarrow> len m < n \<Longrightarrow> len (insert_op k v m) \<le> n"
  by (simp add: len_insert)

end

section \<open>The association list keeps the contract\<close>

lemma hm_get_Some_in_set: "hm_inv m \<Longrightarrow> hm_get m k = Some v \<longleftrightarrow> (k, v) \<in> set m"
  by (simp add: hm_get_def hm_inv_def)

lemma hm_get_None: "hm_get m k = None \<longleftrightarrow> k \<notin> fst ` set m"
  by (simp add: hm_get_def map_of_eq_None_iff)

lemma hm_get_retain: "hm_inv m \<Longrightarrow> hm_get (hm_retain P m) k =
    (case hm_get m k of None \<Rightarrow> None | Some v \<Rightarrow> if P k v then Some v else None)"
proof (induction m)
  case Nil
  then show ?case by (simp add: hm_get_def hm_retain_def)
next
  case (Cons a m)
  obtain k0 v0 where a: "a = (k0, v0)" by (cases a)
  have "hm_get m k0 = None" if "k = k0"
    using Cons.prems a by (auto simp: hm_get_None hm_inv_def)
  moreover have "hm_get (hm_retain P m) k0 = None" if "k = k0"
    using Cons.prems a by (force simp: hm_get_None hm_inv_def hm_retain_def)
  ultimately show ?case
    using Cons a by (auto simp: hm_get_def hm_retain_def hm_inv_def split: option.splits)
qed

lemma hm_update_fresh: "hm_get m k = None \<Longrightarrow> AList.update k v m = m @ [(k, v)]"
  by (induction m) (auto simp: hm_get_def split: if_splits)

lemma hm_len_insert:
  "hm_len (hm_insert k v m) = (if hm_get m k = None then Suc (hm_len m) else hm_len m)"
  by (induction m) (auto simp: hm_get_def hm_insert_def hm_len_def split: if_splits)

lemma hm_delete_absent: "hm_get m k = None \<Longrightarrow> AList.delete k m = m"
  by (force simp: hm_get_None AList.delete_eq filter_id_conv)

lemma hm_count_remove:
  "hm_inv m \<Longrightarrow> hm_get m k = Some v \<Longrightarrow>
     hm_count Q (hm_remove k m) + (if Q v then 1 else 0) = hm_count Q m"
proof (induction m)
  case Nil
  then show ?case by (simp add: hm_get_def)
next
  case (Cons a m)
  obtain k0 v0 where a: "a = (k0, v0)" by (cases a)
  show ?case
  proof (cases "k0 = k")
    case True
    with Cons.prems a have "AList.delete k m = m"
      by (intro hm_delete_absent) (auto simp: hm_get_None hm_inv_def)
    with True Cons.prems a show ?thesis
      by (auto simp: hm_count_def hm_remove_def hm_get_def)
  next
    case False
    with Cons a show ?thesis
      by (auto simp: hm_count_def hm_remove_def hm_get_def hm_inv_def)
  qed
qed

lemma hm_len_as_count: "hm_len m = hm_count (\<lambda>_. True) m"
  by (simp add: hm_len_def hm_count_def comp_def)

interpretation hm: hash_map "[] :: ('k, 'v) hmap" hm_get hm_insert hm_remove hm_retain hm_len
  hm_count hm_inv
proof (unfold_locales, goal_cases)
  case (10 m k v)
  then show ?case by (simp add: hm_len_insert)
next
  case (11 m k)
  then show ?case using hm_count_remove [of m k _ "\<lambda>_. True"] by (auto simp: hm_len_as_count)
next
  case (15 m k Q v)
  then show ?case by (simp add: hm_insert_def hm_update_fresh hm_count_def)
next
  case (16 m k v Q)
  then show ?case by (rule hm_count_remove)
next
  case (17 m k v Q)
  then show ?case
    by (auto simp: hm_get_Some_in_set hm_count_def filter_empty_conv comp_def
        intro!: bexI [of _ "(k, v)"])
qed (auto simp: hm_get_def hm_insert_def hm_remove_def hm_inv_def hm_retain_def hm_len_def
    hm_count_def update_conv' delete_conv' distinct_update distinct_delete
    hm_get_retain [unfolded hm_get_def hm_retain_def hm_inv_def]
    hm_delete_absent [unfolded hm_get_def] distinct_map_filter)

lemmas hm_get_simps [store_simps] = hm.get_insert hm.get_remove hm.get_retain
lemmas hm_inv_intros [wf_intros] = hm.inv_insert hm.inv_remove hm.inv_retain hm.inv_empty

lemma hm_keys_iff: "k \<in> set (hm_keys m) \<longleftrightarrow> hm_get m k \<noteq> None"
  by (force simp: hm_keys_def hm_get_None)

end
