(* ===== verification/Attestation.thy ===== *)
theory Attestation
  imports Core_Types Secure_Fs Hash_Map
begin

text \<open>
  The HMAC check of adapter results, \<open>security/attestation/verifier.rs\<close>. SHA-256 and
  HMAC-SHA-256 are arguments, \<open>sha256\<close> and \<open>hmac\<close>; the theorems assume of them at most the
  length of a digest. What the check guarantees against modification is stated as an explicit
  alternative: the signed fields agree, or the two results at hand exhibit a collision.
  \<open>path_ext\<close> and \<open>path_stem\<close> are Rust's \<open>Path::extension\<close> and \<open>Path::file_stem\<close> on a
  file name.
\<close>

record AttestationVerifier =
  adapter_keys :: "(string, bytes) hmap"

datatype AttestationError = UnknownAdapter | HashMismatch

definition method_commitment :: "(bytes \<Rightarrow> bytes) \<Rightarrow> AuthMethod \<Rightarrow> bytes" where
  "method_commitment sha256 m = sha256 (as_bytes (as_str m))"

definition attested_message :: "(bytes \<Rightarrow> bytes) \<Rightarrow> VerificationResult \<Rightarrow> bytes" where
  "attested_message sha256 result =
     rs_nonce result @ to_le_bytes_u32 (rs_uid result) @
     method_commitment sha256 (rs_method result) @
     to_le_bytes_u32 (rs_confidence result) @ to_le_bytes_u64 (rs_timestamp_ms result)"

definition verify_attestation ::
  "(bytes \<Rightarrow> bytes) \<Rightarrow> (bytes \<Rightarrow> bytes \<Rightarrow> bytes) \<Rightarrow> AttestationVerifier \<Rightarrow> string \<Rightarrow>
   VerificationResult \<Rightarrow> AttestationError + unit" where
  "verify_attestation sha256 hmac v adapter_name result =
     (case hm_get (adapter_keys v) adapter_name of
        None \<Rightarrow> Inl UnknownAdapter
      | Some key \<Rightarrow>
          let expected = hmac key (attested_message sha256 result)
          in if expected \<noteq> rs_evidence_hash result then Inl HashMismatch else Inr ())"

section \<open>Keys\<close>

definition rsplit_dot :: "string \<Rightarrow> string \<times> string option" where
  "rsplit_dot n =
     (if n = ''..'' then (n, None)
      else case dropWhile (\<lambda>c. c \<noteq> CHR ''.'') (rev n) of
             [] \<Rightarrow> (n, None)
           | _ # before \<Rightarrow>
               if before = [] then (n, None)
               else (rev before, Some (rev (takeWhile (\<lambda>c. c \<noteq> CHR ''.'') (rev n)))))"

definition path_stem :: "string \<Rightarrow> string" where
  "path_stem n = fst (rsplit_dot n)"

definition path_ext :: "string \<Rightarrow> string option" where
  "path_ext n = snd (rsplit_dot n)"

text \<open>
  A directory as \<open>read_dir\<close> lists it: each entry may fail; an entry has its name, whether it is
  a file, and what opening it for reading returns.
\<close>

record DirEntry =
  de_name :: string
  de_is_file :: bool
  de_opened :: "IoErrorKind + OpenFile"

type_synonym dir_listing = "(IoErrorKind + (IoErrorKind + DirEntry) list) option"

datatype KeyDirError =
    KeyDirUnreadable IoErrorKind
  | KeyDirEntry IoErrorKind
  | InvalidKeyFilename string
  | KeyFile FsError
  | MissingKeys "string list"

definition key_file_spec :: "OwnerPolicy \<Rightarrow> SecureFileSpec" where
  "key_file_spec owner =
     \<lparr>spec_label = ''adapter key'', spec_size = ExactSize 32,
      spec_mode = ExactModes [384], spec_owner = owner\<rparr>"

declare key_file_spec_def [simp]

definition load_key_file_with_owner ::
  "u32 \<Rightarrow> (IoErrorKind + OpenFile) \<Rightarrow> OwnerPolicy \<Rightarrow> FsError + bytes" where
  "load_key_file_with_owner current_uid opened owner =
     read_secure_exact 32 current_uid opened (key_file_spec owner)"

fun load_keys ::
  "u32 \<Rightarrow> OwnerPolicy \<Rightarrow> (IoErrorKind + DirEntry) list \<Rightarrow> (string, bytes) hmap \<Rightarrow>
   KeyDirError + (string, bytes) hmap" where
  "load_keys current_uid owner [] keys = Inr keys"
| "load_keys current_uid owner (x # xs) keys =
     res_bind (map_err KeyDirEntry x) (\<lambda>entry.
       if \<not> de_is_file entry \<or> path_ext (de_name entry) \<noteq> Some ''key''
       then load_keys current_uid owner xs keys
       else if \<not> utf8_valid (path_stem (de_name entry))
       then Inl (InvalidKeyFilename (de_name entry))
       else
         res_bind (map_err KeyFile (load_key_file_with_owner current_uid (de_opened entry) owner))
           (\<lambda>key. load_keys current_uid owner xs (hm_insert (path_stem (de_name entry)) key keys)))"

text \<open>\<open>None\<close>: the path does not exist or is not a directory.\<close>

definition load_from_dir_with_owner ::
  "u32 \<Rightarrow> dir_listing \<Rightarrow> OwnerPolicy \<Rightarrow> KeyDirError + AttestationVerifier" where
  "load_from_dir_with_owner current_uid dir owner =
     (case dir of
        None \<Rightarrow> Inr \<lparr>adapter_keys = []\<rparr>
      | Some listing \<Rightarrow>
          res_bind (map_err KeyDirUnreadable listing) (\<lambda>entries.
          res_bind (load_keys current_uid owner entries []) (\<lambda>keys.
            Inr \<lparr>adapter_keys = keys\<rparr>)))"

definition require_keys_for_adapters ::
  "AttestationVerifier \<Rightarrow> string list \<Rightarrow> KeyDirError + unit" where
  "require_keys_for_adapters v adapter_names =
     (let missing = filter (\<lambda>name. hm_get (adapter_keys v) name = None) adapter_names
      in if missing \<noteq> [] then Inl (MissingKeys missing) else Inr ())"

section \<open>Lemmas\<close>

lemma verify_attestation_iff:
  "verify_attestation sha256 hmac v a r = Inr () \<longleftrightarrow>
     (\<exists>key. hm_get (adapter_keys v) a = Some key \<and>
        rs_evidence_hash r = hmac key (attested_message sha256 r))"
  by (auto simp: verify_attestation_def Let_def split: option.splits)

lemma attested_message_inj:
  assumes "length (rs_nonce r) = length (rs_nonce s)"
    and "length (method_commitment sha256 (rs_method r)) = length (method_commitment sha256 (rs_method s))"
  shows "attested_message sha256 r = attested_message sha256 s \<longleftrightarrow>
    rs_nonce r = rs_nonce s \<and> rs_uid r = rs_uid s \<and>
    method_commitment sha256 (rs_method r) = method_commitment sha256 (rs_method s) \<and>
    rs_confidence r = rs_confidence s \<and> rs_timestamp_ms r = rs_timestamp_ms s"
  using assms by (auto simp: attested_message_def)

lemma require_keys_iff: "require_keys_for_adapters v names = Inr () \<longleftrightarrow>
    (\<forall>n\<in>set names. hm_get (adapter_keys v) n \<noteq> None)"
  by (auto simp: require_keys_for_adapters_def Let_def filter_empty_conv)

lemma key_file_name:
  "path_ext n = Some ''key'' \<longleftrightarrow> n = path_stem n @ ''.key'' \<and> path_stem n \<noteq> []"
proof -
  let ?P = "\<lambda>c. c \<noteq> CHR ''.''"
  have split: "rev n = takeWhile ?P (rev n) @ dropWhile ?P (rev n)" by simp
  show ?thesis
  proof
    assume "path_ext n = Some ''key''"
    then obtain c before where d: "dropWhile ?P (rev n) = c # before" "before \<noteq> []"
        and t: "takeWhile ?P (rev n) = rev ''key''" and s: "path_stem n = rev before"
      by (auto simp: path_ext_def path_stem_def rsplit_dot_def split: if_splits list.splits)
    from d(1) have "c = CHR ''.''" by (simp add: dropWhile_eq_Cons_conv)
    with split d t have "rev n = rev ''key'' @ CHR ''.'' # before" by simp
    then have "n = rev (rev ''key'' @ CHR ''.'' # before)" by (metis rev_rev_ident)
    with s d show "n = path_stem n @ ''.key'' \<and> path_stem n \<noteq> []" by simp
  next
    assume "n = path_stem n @ ''.key'' \<and> path_stem n \<noteq> []"
    then obtain s where n: "n = s @ ''.key''" and s: "s \<noteq> []" by blast
    have "rev n = rev ''key'' @ CHR ''.'' # rev s" by (simp add: n)
    moreover have "n \<noteq> ''..''" using n s by (cases s) auto
    ultimately show "path_ext n = Some ''key''"
      using s by (simp add: path_ext_def rsplit_dot_def)
  qed
qed

lemma path_stem_key [simp]: "s \<noteq> [] \<Longrightarrow> path_stem (s @ ''.key'') = s"
  by (auto simp: path_stem_def rsplit_dot_def)

interpretation key_file: trusted_loader key_file_spec
  "\<lambda>current_uid opened owner. \<exists>key. load_key_file_with_owner current_uid opened owner = Inr key"
  by unfold_locales
    (auto simp: load_key_file_with_owner_def read_secure_exact_iff checked_file_def)

lemma loaded_key_length: "load_key_file_with_owner cur opened owner = Inr key \<Longrightarrow> length key = 32"
  by (auto simp: load_key_file_with_owner_def read_secure_exact_iff)

text \<open>The file of an adapter's key among the entries of a directory.\<close>

definition is_key_entry :: "u32 \<Rightarrow> OwnerPolicy \<Rightarrow> string \<Rightarrow> bytes \<Rightarrow> DirEntry \<Rightarrow> bool" where
  "is_key_entry cur owner name key e \<longleftrightarrow> de_is_file e \<and> name \<noteq> [] \<and> de_name e = name @ ''.key'' \<and>
     load_key_file_with_owner cur (de_opened e) owner = Inr key"

lemma load_keys_Cons_cases:
  assumes "load_keys cur owner (x # xs) keys = Inr keys'"
  obtains
    (skip) e where "x = Inr e" "\<not> de_is_file e \<or> path_ext (de_name e) \<noteq> Some ''key''"
      "load_keys cur owner xs keys = Inr keys'"
  | (load) e n key where "x = Inr e" "is_key_entry cur owner n key e"
      "load_keys cur owner xs (hm_insert n key keys) = Inr keys'"
proof -
  obtain e where x: "x = Inr e" using assms by (auto simp: res_bind_Inr_iff)
  show ?thesis
  proof (cases "de_is_file e \<and> path_ext (de_name e) = Some ''key''")
    case False
    then show ?thesis using assms x skip by auto
  next
    case True
    then obtain key where "load_key_file_with_owner cur (de_opened e) owner = Inr key"
        and "load_keys cur owner xs (hm_insert (path_stem (de_name e)) key keys) = Inr keys'"
      using assms x by (auto simp: res_bind_Inr_iff split: if_splits)
    then show ?thesis
      using True key_file_name [of "de_name e"] x by (intro load) (auto simp: is_key_entry_def)
  qed
qed

lemma load_keys_sound:
  "load_keys cur owner xs keys = Inr keys' \<Longrightarrow> hm_get keys' n = Some k \<Longrightarrow>
     hm_get keys n = Some k \<or> (\<exists>e. Inr e \<in> set xs \<and> is_key_entry cur owner n k e)"
proof (induction xs arbitrary: keys)
  case (Cons x xs)
  from Cons.prems(1) show ?case
  proof (cases rule: load_keys_Cons_cases)
    case (skip e)
    then show ?thesis using Cons.IH [OF skip(3)] Cons.prems by auto
  next
    case (load e m key)
    then show ?thesis
      using Cons.IH [OF load(3)] Cons.prems by (auto simp: store_simps split: if_splits)
  qed
qed simp

lemma load_keys_keeps:
  "load_keys cur owner xs keys = Inr keys' \<Longrightarrow> hm_get keys n \<noteq> None \<Longrightarrow> hm_get keys' n \<noteq> None"
proof (induction xs arbitrary: keys)
  case (Cons x xs)
  from Cons.prems(1) show ?case
  proof (cases rule: load_keys_Cons_cases)
    case (load e m key)
    then show ?thesis using Cons.IH [OF load(3)] Cons.prems by (simp add: store_simps)
  qed (use Cons in blast)
qed simp

lemma load_keys_complete:
  "load_keys cur owner xs keys = Inr keys' \<Longrightarrow> Inr e \<in> set xs \<Longrightarrow> de_is_file e \<Longrightarrow> n \<noteq> [] \<Longrightarrow>
     de_name e = n @ ''.key'' \<Longrightarrow> hm_get keys' n \<noteq> None"
proof (induction xs arbitrary: keys)
  case (Cons x xs)
  from Cons.prems(1) show ?case
  proof (cases rule: load_keys_Cons_cases)
    case (skip d)
    then have "d \<noteq> e" using Cons.prems by (auto simp: key_file_name)
    then show ?thesis using Cons skip by auto
  next
    case (load d m key)
    show ?thesis
    proof (cases "d = e")
      case True
      then have "m = n" using load(2) Cons.prems by (auto simp: is_key_entry_def)
      then show ?thesis using load_keys_keeps [OF load(3), of n] by (simp add: store_simps)
    next
      case False
      then show ?thesis using Cons.IH [OF load(3)] Cons.prems load(1) by auto
    qed
  qed
qed simp

lemma loaded_key_origin:
  assumes "load_from_dir_with_owner cur dir owner = Inr v" and "hm_get (adapter_keys v) name = Some key"
  shows "length key = 32 \<and> (\<exists>entries e. dir = Some (Inr entries) \<and> Inr e \<in> set entries \<and>
    de_name e = name @ ''.key'' \<and> trusted_file cur owner (de_opened e))"
proof -
  obtain entries where d: "dir = Some (Inr entries)" "load_keys cur owner entries [] = Inr (adapter_keys v)"
    using assms by (auto simp: load_from_dir_with_owner_def res_bind_Inr_iff hm_get_def split: option.splits)
  from load_keys_sound [OF d(2) assms(2)] obtain e where e: "Inr e \<in> set entries" "is_key_entry cur owner name key e"
    by (auto simp: hm_get_def)
  then show ?thesis
    using d loaded_key_length key_file.loads_trusted unfolding is_key_entry_def by blast
qed

section \<open>Properties\<close>

text \<open>A result is accepted exactly when the adapter has a key and the evidence hash is the
  HMAC, under that key, of the result's nonce, uid, method digest, confidence bits and timestamp.\<close>

theorem attestation_accepts_iff:
  "verify_attestation sha256 hmac v adapter r = Inr () \<longleftrightarrow>
    (\<exists>key. hm_get (adapter_keys v) adapter = Some key \<and>
       rs_evidence_hash r = hmac key
         (rs_nonce r @ to_le_bytes_u32 (rs_uid r) @ sha256 (as_bytes (as_str (rs_method r))) @
          to_le_bytes_u32 (rs_confidence r) @ to_le_bytes_u64 (rs_timestamp_ms r)))"
  by (simp add: verify_attestation_iff attested_message_def method_commitment_def)

text \<open>C15: Two accepted results of one adapter that carry the same evidence hash agree in nonce,
  uid, method, confidence bits and timestamp, unless these very results give a collision of the
  HMAC on two different messages or of SHA-256 on two different method names. So no field the
  policy decides on can be changed under a hash the adapter computed.\<close>

theorem attestation_commits:
  assumes "verify_attestation sha256 hmac v adapter r = Inr ()"
    and "verify_attestation sha256 hmac v adapter s = Inr ()"
    and "rs_evidence_hash r = rs_evidence_hash s"
    and "length (rs_nonce r) = 32" and "length (rs_nonce s) = 32"
    and "method_wf (rs_method r)" and "method_wf (rs_method s)"
    and "\<forall>m. length (sha256 m) = 32"
  shows "(rs_nonce r = rs_nonce s \<and> rs_uid r = rs_uid s \<and> rs_method r = rs_method s \<and>
      rs_confidence r = rs_confidence s \<and> rs_timestamp_ms r = rs_timestamp_ms s) \<or>
    (attested_message sha256 r \<noteq> attested_message sha256 s \<and>
      (\<exists>key. hm_get (adapter_keys v) adapter = Some key \<and>
         hmac key (attested_message sha256 r) = hmac key (attested_message sha256 s))) \<or>
    (as_bytes (as_str (rs_method r)) \<noteq> as_bytes (as_str (rs_method s)) \<and>
      sha256 (as_bytes (as_str (rs_method r))) = sha256 (as_bytes (as_str (rs_method s))))"
proof (cases "attested_message sha256 r = attested_message sha256 s")
  case False
  then show ?thesis using assms(1-3) by (auto simp: verify_attestation_iff)
next
  case True
  have "length (method_commitment sha256 m) = 32" for m
    using assms(8) by (simp add: method_commitment_def)
  with True assms(4,5) have "rs_nonce r = rs_nonce s \<and> rs_uid r = rs_uid s \<and>
      method_commitment sha256 (rs_method r) = method_commitment sha256 (rs_method s) \<and>
      rs_confidence r = rs_confidence s \<and> rs_timestamp_ms r = rs_timestamp_ms s"
    using attested_message_inj [of r s sha256] by simp
  then show ?thesis
    using as_str_inj [OF assms(6,7)] by (auto simp: method_commitment_def)
qed

definition sample_result :: "VerificationResult" where
  "sample_result = \<lparr>rs_version = 1, rs_id = replicate 16 9, rs_confidence = f32_one, rs_method = Fido2,
     rs_timestamp_ms = 1234, rs_uid = 1000, rs_nonce = replicate 32 7, rs_evidence_hash = replicate 32 0\<rparr>"

theorem attestation_commits_witness:
  "(rs_nonce sample_result = rs_nonce sample_result \<and> rs_uid sample_result = rs_uid sample_result \<and>
      rs_method sample_result = rs_method sample_result \<and>
      rs_confidence sample_result = rs_confidence sample_result \<and>
      rs_timestamp_ms sample_result = rs_timestamp_ms sample_result) \<or>
    (attested_message (\<lambda>_. replicate 32 1) sample_result \<noteq> attested_message (\<lambda>_. replicate 32 1) sample_result \<and>
      (\<exists>key. hm_get (adapter_keys \<lparr>adapter_keys = [(''fido2'', [5])]\<rparr>) ''fido2'' = Some key \<and>
         (\<lambda>k m. replicate 32 (0::u8)) key (attested_message (\<lambda>_. replicate 32 1) sample_result) =
         (\<lambda>k m. replicate 32 0) key (attested_message (\<lambda>_. replicate 32 1) sample_result))) \<or>
    (as_bytes (as_str (rs_method sample_result)) \<noteq> as_bytes (as_str (rs_method sample_result)) \<and>
      (\<lambda>_. replicate 32 (1::u8)) (as_bytes (as_str (rs_method sample_result))) =
      (\<lambda>_. replicate 32 1) (as_bytes (as_str (rs_method sample_result))))"
  by (rule attestation_commits)
     (simp_all add: verify_attestation_def sample_result_def hm_get_def method_wf_def)

text \<open>The verifier loaded from the key directory has a key for a name exactly when the
  directory has a file of that name with the extension \<open>key\<close>, and the key is then 32 bytes read
  from such a file after its checks: a regular file of mode 0600 owned by root or the service
  user. One bad key file fails the whole load.\<close>

theorem key_directory_spec:
  assumes "load_from_dir_with_owner cur (Some (Inr entries)) owner = Inr v"
  shows "(hm_get (adapter_keys v) name \<noteq> None \<longleftrightarrow>
      (\<exists>e. Inr e \<in> set entries \<and> de_is_file e \<and> name \<noteq> [] \<and> de_name e = name @ ''.key'')) \<and>
    (\<forall>key. hm_get (adapter_keys v) name = Some key \<longrightarrow> length key = 32 \<and>
      (\<exists>e f stat. Inr e \<in> set entries \<and> de_name e = name @ ''.key'' \<and> de_opened e = Inr f \<and>
         fd_stat f = Some stat \<and> st_mode stat AND S_IFMT = S_IFREG \<and> st_mode stat AND 511 = 384 \<and>
         owner_ok cur owner (st_uid stat) \<and> map_option as_bytes (fd_data f) = Some key))"
proof -
  have l: "load_keys cur owner entries [] = Inr (adapter_keys v)"
    using assms by (auto simp: load_from_dir_with_owner_def res_bind_Inr_iff)
  have sound: "\<exists>e. Inr e \<in> set entries \<and> is_key_entry cur owner name key e"
    if "hm_get (adapter_keys v) name = Some key" for key
    using load_keys_sound [OF l that] by simp
  have complete: "hm_get (adapter_keys v) name \<noteq> None"
    if "Inr e \<in> set entries" "de_is_file e" "name \<noteq> []" "de_name e = name @ ''.key''" for e
    using load_keys_complete [OF l that] .
  have "length key = 32 \<and>
      (\<exists>e f stat. Inr e \<in> set entries \<and> de_name e = name @ ''.key'' \<and> de_opened e = Inr f \<and>
         fd_stat f = Some stat \<and> st_mode stat AND S_IFMT = S_IFREG \<and> st_mode stat AND 511 = 384 \<and>
         owner_ok cur owner (st_uid stat) \<and> map_option as_bytes (fd_data f) = Some key)"
    if key: "hm_get (adapter_keys v) name = Some key" for key
  proof -
    obtain e where e: "Inr e \<in> set entries" "is_key_entry cur owner name key e"
      using sound [OF key] by blast
    then show ?thesis
      by (auto simp: is_key_entry_def load_key_file_with_owner_def read_secure_exact_iff stat_ok_def
          mode_ok_def)
  qed
  then show ?thesis using sound complete by (fastforce simp: is_key_entry_def)
qed

definition sample_key_entry :: DirEntry where
  "sample_key_entry = \<lparr>de_name = ''demo.key'', de_is_file = True, de_opened =
     Inr \<lparr>fd_stat = Some \<lparr>st_mode = 33152, st_uid = 0, st_size = 32\<rparr>,
          fd_data = Some (replicate 32 CHR ''k''), fd_probe_ok = True, fd_chmod_ok = True\<rparr>\<rparr>"

lemma sample_key_loaded:
  "load_from_dir_with_owner 0 (Some (Inr [Inr sample_key_entry])) owner =
     Inr \<lparr>adapter_keys = [(''demo'', as_bytes (replicate 32 CHR ''k''))]\<rparr>"
proof -
  have "load_key_file_with_owner 0 (de_opened sample_key_entry) owner =
      Inr (as_bytes (replicate 32 CHR ''k''))"
    by (auto simp: load_key_file_with_owner_def read_secure_exact_iff stat_ok_def
        mode_ok_def owner_ok_def sample_key_entry_def)
  moreover have "path_ext ''demo.key'' = Some ''key''" "path_stem ''demo.key'' = ''demo''"
    by (simp_all add: path_ext_def path_stem_def rsplit_dot_def)
  ultimately show ?thesis
    by (simp add: load_from_dir_with_owner_def) (simp add: sample_key_entry_def hm_insert_def)
qed

theorem key_directory_spec_witness:
  "(hm_get (adapter_keys \<lparr>adapter_keys = [(''demo'', as_bytes (replicate 32 CHR ''k''))]\<rparr>) ''pin'' \<noteq> None \<longleftrightarrow>
      (\<exists>e. Inr e \<in> set [Inr sample_key_entry :: IoErrorKind + DirEntry] \<and> de_is_file e \<and>
         ''pin'' \<noteq> [] \<and> de_name e = ''pin'' @ ''.key''))"
  using key_directory_spec [OF sample_key_loaded [of RootOrCurrent], of "''pin''"] by (rule conjunct1)

end
