(* ===== verification/Health.thy ===== *)
theory Health
  imports Hash_Map
begin

text \<open>
  Adapter health, \<open>adapters/health.rs\<close>: one record per adapter, updated by the monitor task after
  each ping. The theorem characterises the status after any sequence of probes: \<open>Up\<close> after a
  success, \<open>Degraded\<close> after one or two failures following a success, \<open>Down\<close> otherwise, and
  \<open>Down\<close> until the first success. The failure counter is a \<open>u32\<close> and wraps, hence the bound on
  the number of probes.
\<close>

datatype HealthStatus = Up | Degraded | Down

record AdapterHealth =
  health_status :: HealthStatus
  consecutive_failures :: u32
  last_checked :: instant
  last_success :: "instant option"

record HealthMap =
  health_entries :: "(string, AdapterHealth) hmap"
  health_poisoned :: bool

definition new_health :: "HealthStatus \<Rightarrow> instant \<Rightarrow> AdapterHealth" where
  "new_health status now =
     \<lparr>health_status = status, consecutive_failures = 0, last_checked = now,
      last_success = (if status = Up then Some now else None)\<rparr>"

definition record_probe :: "AdapterHealth \<Rightarrow> bool \<Rightarrow> instant \<Rightarrow> AdapterHealth" where
  "record_probe health up now =
     (let h = (if up
               then health\<lparr>health_status := Up, consecutive_failures := 0, last_success := Some now\<rparr>
               else
                 let failures = consecutive_failures health + 1
                 in health\<lparr>consecutive_failures := failures,
                      health_status := (if last_success health \<noteq> None \<and> failures < 3
                                        then Degraded else Down)\<rparr>)
      in h\<lparr>last_checked := now\<rparr>)"

definition spawn_health :: "string list \<Rightarrow> instant \<Rightarrow> HealthMap" where
  "spawn_health names now =
     \<lparr>health_entries = foldl (\<lambda>m name. hm_insert name (new_health Down now) m) [] names,
      health_poisoned = False\<rparr>"

text \<open>One client of one round: skipped while its permit is taken, else pinged and recorded.\<close>

definition monitor_client ::
  "bool \<Rightarrow> bool \<Rightarrow> instant \<Rightarrow> string \<Rightarrow> HealthMap \<Rightarrow> HealthMap" where
  "monitor_client busy up now name m =
     (if busy \<or> health_poisoned m then m
      else m\<lparr>health_entries :=
             hm_insert name
               (record_probe
                  (case hm_get (health_entries m) name of
                     Some h \<Rightarrow> h | None \<Rightarrow> new_health Down now) up now)
               (health_entries m)\<rparr>)"

fun monitor_round ::
  "(string \<Rightarrow> bool) \<Rightarrow> (string \<Rightarrow> bool) \<Rightarrow> (string \<Rightarrow> instant) \<Rightarrow> string list \<Rightarrow> HealthMap \<Rightarrow> HealthMap" where
  "monitor_round busy ping clock [] m = m"
| "monitor_round busy ping clock (name # names) m =
     monitor_round busy ping clock names (monitor_client (busy name) (ping name) (clock name) name m)"

section \<open>The status after a sequence of probes\<close>

definition probes :: "instant \<Rightarrow> (bool \<times> instant) list \<Rightarrow> AdapterHealth" where
  "probes t0 ps = foldl (\<lambda>h (up, now). record_probe h up now) (new_health Down t0) ps"

definition trailing_failures :: "(bool \<times> instant) list \<Rightarrow> nat" where
  "trailing_failures ps = length (takeWhile (\<lambda>p. \<not> fst p) (rev ps))"

lemma probes_snoc: "probes t0 (ps @ [(b, t)]) = record_probe (probes t0 ps) b t"
  by (simp add: probes_def)

lemma trailing_snoc [simp]:
  "trailing_failures (ps @ [(b, t)]) = (if b then 0 else Suc (trailing_failures ps))"
  by (simp add: trailing_failures_def)

lemma trailing_le: "trailing_failures ps \<le> length ps"
  using length_takeWhile_le [of "\<lambda>p. \<not> fst p" "rev ps"] by (simp add: trailing_failures_def)

lemma probes_state:
  "length ps < 2 ^ 32 \<Longrightarrow>
     unat (consecutive_failures (probes t0 ps)) = trailing_failures ps \<and>
     (last_success (probes t0 ps) \<noteq> None \<longleftrightarrow> (\<exists>p\<in>set ps. fst p))"
proof (induction ps rule: rev_induct)
  case Nil
  then show ?case by (simp add: probes_def new_health_def trailing_failures_def)
next
  case (snoc p ps)
  obtain b t where p: "p = (b, t)" by (cases p)
  have "trailing_failures ps < 2 ^ 32 - 1" using trailing_le [of ps] snoc.prems by simp
  then have "unat (consecutive_failures (probes t0 ps) + 1) = Suc (trailing_failures ps)"
    using snoc by (simp add: unat_word_ariths)
  then show ?case using snoc p by (auto simp: probes_snoc record_probe_def Let_def)
qed

lemma probes_status:
  assumes "length ps < 2 ^ 32"
  shows "health_status (probes t0 ps) =
    (if \<not> (\<exists>p\<in>set ps. fst p) then Down
     else if trailing_failures ps = 0 then Up
     else if trailing_failures ps < 3 then Degraded else Down)"
proof (cases ps rule: rev_cases)
  case Nil
  then show ?thesis by (simp add: probes_def new_health_def)
next
  case (snoc qs p)
  obtain b t where p: "p = (b, t)" by (cases p)
  have l: "length qs < 2 ^ 32 - 1" using assms snoc by simp
  then have s: "unat (consecutive_failures (probes t0 qs)) = trailing_failures qs"
    "last_success (probes t0 qs) \<noteq> None \<longleftrightarrow> (\<exists>p\<in>set qs. fst p)"
    using probes_state [of qs t0] by simp_all
  have "trailing_failures qs < 2 ^ 32 - 1" using trailing_le [of qs] l by simp
  then have "unat (consecutive_failures (probes t0 qs) + 1) = Suc (trailing_failures qs)"
    using s(1) by (simp add: unat_word_ariths)
  then have "consecutive_failures (probes t0 qs) + 1 < 3 \<longleftrightarrow> Suc (trailing_failures qs) < 3"
    by (simp add: word_less_nat_alt)
  then show ?thesis
    using snoc p s by (auto simp: probes_snoc record_probe_def Let_def)
qed

section \<open>The monitor updates only the client it probed\<close>

lemma monitor_client_other:
  "n \<noteq> name \<Longrightarrow> hm_get (health_entries (monitor_client busy up now name m)) n = hm_get (health_entries m) n"
  by (simp add: monitor_client_def store_simps)

lemma monitor_round_unlisted:
  "n \<notin> set names \<Longrightarrow>
     hm_get (health_entries (monitor_round busy ping clock names m)) n = hm_get (health_entries m) n"
  by (induction names arbitrary: m) (auto simp: monitor_client_other)

lemma health_poisoned_client [simp]: "health_poisoned (monitor_client b u t n m) = health_poisoned m"
  by (simp add: monitor_client_def)

lemma health_poisoned_round [simp]: "health_poisoned (monitor_round busy ping clock names m) = health_poisoned m"
  by (induction names arbitrary: m) simp_all

lemma get_spawn: "hm_get (health_entries (spawn_health names now)) n =
    (if n \<in> set names then Some (new_health Down now) else None)"
proof -
  have "hm_get (foldl (\<lambda>m name. hm_insert name (new_health Down now) m) m0 names) n =
      (if n \<in> set names then Some (new_health Down now) else hm_get m0 n)" for m0
    by (induction names arbitrary: m0) (auto simp: store_simps)
  then show ?thesis by (simp add: spawn_health_def)
qed

lemma monitor_round_get:
  assumes "distinct names" and "name \<in> set names" and "\<not> health_poisoned m"
  shows "hm_get (health_entries (monitor_round busy ping clock names m)) name =
    (if busy name then hm_get (health_entries m) name
     else Some (record_probe (case hm_get (health_entries m) name of
            Some h \<Rightarrow> h | None \<Rightarrow> new_health Down (clock name)) (ping name) (clock name)))"
  using assms
proof (induction names arbitrary: m)
  case (Cons x names)
  show ?case
  proof (cases "x = name")
    case True
    then show ?thesis
      using Cons.prems by (simp add: monitor_round_unlisted) (simp add: monitor_client_def store_simps)
  next
    case False
    then show ?thesis using Cons by (simp add: monitor_client_other)
  qed
qed simp

section \<open>Properties\<close>

text \<open>C30: After any sequence of probes (fewer than 2 to the 32) an adapter is \<open>Down\<close> as long as no
  probe succeeded; otherwise it is \<open>Up\<close> if the last probe succeeded, \<open>Degraded\<close> after one or two
  failures since the last success, and \<open>Down\<close> from the third on.\<close>

theorem health_after_probes:
  assumes "length ps < 2 ^ 32"
  shows "health_status (foldl (\<lambda>h (up, now). record_probe h up now) (new_health Down t0) ps) =
    (if \<not> (\<exists>p\<in>set ps. fst p) then Down
     else case length (takeWhile (\<lambda>p. \<not> fst p) (rev ps)) of
            0 \<Rightarrow> Up | Suc 0 \<Rightarrow> Degraded | Suc (Suc 0) \<Rightarrow> Degraded | _ \<Rightarrow> Down)"
  using probes_status [OF assms, of t0] unfolding probes_def trailing_failures_def
  by (auto split: nat.splits)

theorem health_after_probes_witness:
  "health_status (foldl (\<lambda>h (up, now). record_probe h up now) (new_health Down 0)
     [(True, 1), (False, 2), (False, 3), (False, 4)]) = Down"
  using health_after_probes [of "[(True, 1), (False, 2), (False, 3), (False, 4)]" 0] by simp

end
