(* ===== verification/Adapter_Registry.thy ===== *)
theory Adapter_Registry
  imports Adapter_Client Attestation Health "HOL-Library.List_Lexorder" "HOL-Library.Char_ord"
begin

text \<open>
  Adapter configuration (\<open>adapters/config_loader.rs\<close>) and the registry that routes a method to
  its adapter (\<open>adapters/registry.rs\<close>). The TOML parser is the argument \<open>from_toml\<close>; directory
  listings and files are those of the guarded file access. Strings are ordered bytewise, as
  Rust's are. \<open>available_methods\<close> sees one state of the health table, while the code takes its lock
  once per method; \<open>dispatch_resolved\<close> looks the adapter up again in either case. The permit of an
  adapter (a semaphore of one) is the argument \<open>queue\<close>: what the bounded wait for it gave.
\<close>

section \<open>Configuration files\<close>

definition MAX_ADAPTER_CONFIG_BYTES :: int where
  "MAX_ADAPTER_CONFIG_BYTES = 64 * 1024"

record AdapterConfig =
  ac_name :: string
  ac_socket_path :: string
  ac_expected_uid :: u32
  ac_methods :: "string list"
  ac_timeout_ms :: u64

datatype Violation =
    EntryFailed IoErrorKind
  | ConfigFile FsError
  | ParseFailed string
  | ValidationFailed string

datatype RegistryError =
    AdapterDirMissing
  | AdapterDirUnreadable IoErrorKind
  | BadConfig string Violation
  | NoAdapterConfigs
  | DuplicateAdapterName string
  | DuplicateAdapterMethod string string string

fun validate_methods :: "string list \<Rightarrow> string list \<Rightarrow> string + unit" where
  "validate_methods seen [] = Inr ()"
| "validate_methods seen (m # ms) =
     res_bind (validate_method_name m False) (\<lambda>_.
       if m \<in> set seen then Inl (''duplicate method '' @ m) else validate_methods (m # seen) ms)"

definition validate_adapter_config :: "AdapterConfig \<Rightarrow> string + unit" where
  "validate_adapter_config cfg =
     res_bind (validate_adapter_name (ac_name cfg)) (\<lambda>_.
       if ac_socket_path cfg = [] then Inl ''socket_path must not be empty''
       else if ac_methods cfg = [] then Inl ''methods must not be empty''
       else
         res_bind (validate_methods [] (ac_methods cfg)) (\<lambda>_.
           if \<not> (100 \<le> ac_timeout_ms cfg \<and> ac_timeout_ms cfg \<le> 30000)
           then Inl ''timeout_ms must be between 100 and 30000''
           else Inr ()))"

definition handle_violation :: "bool \<Rightarrow> string \<Rightarrow> Violation \<Rightarrow> RegistryError + unit" where
  "handle_violation strict path reason = (if strict then Inl (BadConfig path reason) else Inr ())"

definition adapter_config_spec :: "OwnerPolicy \<Rightarrow> SecureFileSpec" where
  "adapter_config_spec owner =
     \<lparr>spec_label = ''adapter config'', spec_size = MaxSize MAX_ADAPTER_CONFIG_BYTES,
      spec_mode = NotGroupWorldWritable, spec_owner = owner\<rparr>"

text \<open>What one \<open>.toml\<close> file gives: its configuration or the reason it is refused.\<close>

definition read_adapter_config ::
  "(string \<Rightarrow> string + AdapterConfig) \<Rightarrow> u32 \<Rightarrow> OwnerPolicy \<Rightarrow> DirEntry \<Rightarrow> Violation + AdapterConfig" where
  "read_adapter_config from_toml current_uid owner entry =
     res_bind (map_err ConfigFile
       (read_secure_to_string current_uid (de_opened entry) (adapter_config_spec owner))) (\<lambda>contents.
     res_bind (map_err ParseFailed (from_toml contents)) (\<lambda>cfg.
     res_bind (map_err ValidationFailed (validate_adapter_config cfg)) (\<lambda>_. Inr cfg)))"

fun load_config_entries ::
  "(string \<Rightarrow> string + AdapterConfig) \<Rightarrow> u32 \<Rightarrow> bool \<Rightarrow> OwnerPolicy \<Rightarrow> (IoErrorKind + DirEntry) list \<Rightarrow>
   AdapterConfig list \<Rightarrow> RegistryError + AdapterConfig list" where
  "load_config_entries from_toml current_uid strict owner [] configs = Inr configs"
| "load_config_entries from_toml current_uid strict owner (x # xs) configs =
     (case x of
        Inl e \<Rightarrow>
          res_bind (handle_violation strict [] (EntryFailed e)) (\<lambda>_.
            load_config_entries from_toml current_uid strict owner xs configs)
      | Inr entry \<Rightarrow>
          if path_ext (de_name entry) \<noteq> Some ''toml''
          then load_config_entries from_toml current_uid strict owner xs configs
          else (case read_adapter_config from_toml current_uid owner entry of
                 Inl reason \<Rightarrow>
                   res_bind (handle_violation strict (de_name entry) reason) (\<lambda>_.
                     load_config_entries from_toml current_uid strict owner xs configs)
               | Inr cfg \<Rightarrow>
                   load_config_entries from_toml current_uid strict owner xs (configs @ [cfg])))"

definition load_adapter_configs ::
  "(string \<Rightarrow> string + AdapterConfig) \<Rightarrow> u32 \<Rightarrow> dir_listing \<Rightarrow> bool \<Rightarrow> OwnerPolicy \<Rightarrow>
   RegistryError + AdapterConfig list" where
  "load_adapter_configs from_toml current_uid dir strict owner =
     (case dir of
        None \<Rightarrow> if strict then Inl AdapterDirMissing else Inr []
      | Some listing \<Rightarrow>
          res_bind (map_err AdapterDirUnreadable listing) (\<lambda>entries.
          res_bind (load_config_entries from_toml current_uid strict owner entries []) (\<lambda>configs.
            if strict \<and> configs = [] then Inl NoAdapterConfigs else Inr configs)))"

section \<open>The registry\<close>

record AdapterRegistry =
  reg_clients :: "(string, AdapterClient) hmap"
  reg_adapter_names :: "string list"
  reg_health :: HealthMap

record ResolvedAdapter =
  ra_adapter_name :: string
  ra_method :: string
  ra_timeout_ms :: u64
  ra_client :: AdapterClient

definition client_of_config :: "AdapterConfig \<Rightarrow> AdapterClient" where
  "client_of_config cfg =
     \<lparr>cl_name = ac_name cfg, cl_socket_path = ac_socket_path cfg,
      cl_expected_uid = ac_expected_uid cfg, cl_timeout = from_millis (unat (ac_timeout_ms cfg))\<rparr>"

fun register_methods ::
  "AdapterClient \<Rightarrow> string list \<Rightarrow> (string, AdapterClient) hmap \<Rightarrow>
   RegistryError + (string, AdapterClient) hmap" where
  "register_methods shared [] clients = Inr clients"
| "register_methods shared (m # ms) clients =
     (case hm_get clients m of
        Some existing \<Rightarrow> Inl (DuplicateAdapterMethod m (cl_name existing) (cl_name shared))
      | None \<Rightarrow> register_methods shared ms (hm_insert m shared clients))"

fun register_configs ::
  "AdapterConfig list \<Rightarrow> string list \<Rightarrow> (string, AdapterClient) hmap \<Rightarrow>
   RegistryError + string list \<times> (string, AdapterClient) hmap" where
  "register_configs [] names clients = Inr (names, clients)"
| "register_configs (cfg # cfgs) names clients =
     (if ac_name cfg \<in> set names then Inl (DuplicateAdapterName (ac_name cfg))
      else
        res_bind (register_methods (client_of_config cfg) (ac_methods cfg) clients) (\<lambda>clients'.
          register_configs cfgs (ac_name cfg # names) clients'))"

definition load_registry ::
  "(string \<Rightarrow> string + AdapterConfig) \<Rightarrow> u32 \<Rightarrow> instant \<Rightarrow> dir_listing \<Rightarrow> bool \<Rightarrow> OwnerPolicy \<Rightarrow>
   RegistryError + AdapterRegistry" where
  "load_registry from_toml current_uid now dir strict owner =
     res_bind (load_adapter_configs from_toml current_uid dir strict owner) (\<lambda>configs.
     res_bind (register_configs configs [] []) (\<lambda>(names, clients).
       Inr \<lparr>reg_clients = clients, reg_adapter_names = sort names,
            reg_health = spawn_health (map ac_name configs) now\<rparr>))"

definition adapter_down :: "AdapterRegistry \<Rightarrow> string \<Rightarrow> bool" where
  "adapter_down reg name =
     (if health_poisoned (reg_health reg) then True
      else case hm_get (health_entries (reg_health reg)) name of
             None \<Rightarrow> True
           | Some entry \<Rightarrow> health_status entry = Down)"

definition available_methods :: "AdapterRegistry \<Rightarrow> string list" where
  "available_methods reg =
     sort (filter (\<lambda>method. case hm_get (reg_clients reg) method of
                              None \<Rightarrow> False
                            | Some client \<Rightarrow> \<not> adapter_down reg (cl_name client))
             (hm_keys (reg_clients reg)))"

definition resolve_client ::
  "AdapterRegistry \<Rightarrow> string \<Rightarrow> AdapterError + string \<times> AdapterClient" where
  "resolve_client reg method =
     (if method = ''any'' then
        ok_or (MethodNotFound method)
          (case available_methods reg of
             [] \<Rightarrow> None
           | name # _ \<Rightarrow> map_option (\<lambda>client. (name, client)) (hm_get (reg_clients reg) name))
      else
        ok_or (MethodNotFound method)
          (map_option (\<lambda>client. (method, client)) (hm_get (reg_clients reg) method)))"

definition resolve :: "AdapterRegistry \<Rightarrow> string \<Rightarrow> AdapterError + ResolvedAdapter" where
  "resolve reg method =
     res_bind (resolve_client reg method) (\<lambda>(resolved_method, client).
       Inr \<lparr>ra_adapter_name = cl_name client, ra_method = resolved_method,
            ra_timeout_ms = word_of_nat (cl_timeout client div 1000000), ra_client = client\<rparr>)"

datatype QueueOutcome = QueueElapsed | QueueClosed | QueueAcquired

definition dispatch_resolved ::
  "(VerificationRequest \<Rightarrow> string + string) \<Rightarrow> (string \<Rightarrow> string + VerificationResult) \<Rightarrow> QueueOutcome \<Rightarrow>
   AdapterIo \<Rightarrow> AdapterRegistry \<Rightarrow> ResolvedAdapter \<Rightarrow> VerificationRequest \<Rightarrow>
   (AdapterError + VerificationResult) \<times> string list" where
  "dispatch_resolved to_json from_json queue io reg resolved request =
     (let client = ra_client resolved
      in if adapter_down reg (cl_name client) then (Inl (AdapterDown (cl_name client)), [])
         else case queue of
                QueueElapsed \<Rightarrow> (Inl (AdapterBusy (cl_name client)), [])
              | QueueClosed \<Rightarrow> (Inl (AdapterDown (cl_name client)), [])
              | QueueAcquired \<Rightarrow> verify_client to_json from_json io client request)"

section \<open>Valid configurations\<close>

definition config_wf :: "AdapterConfig \<Rightarrow> bool" where
  "config_wf cfg \<longleftrightarrow> name_ok (ac_name cfg) \<and> ac_name cfg \<noteq> ''any'' \<and> ac_socket_path cfg \<noteq> [] \<and>
     ac_methods cfg \<noteq> [] \<and> distinct (ac_methods cfg) \<and>
     (\<forall>m\<in>set (ac_methods cfg). name_ok m \<and> m \<noteq> ''any'') \<and>
     100 \<le> unat (ac_timeout_ms cfg) \<and> unat (ac_timeout_ms cfg) \<le> 30000"

lemma validate_methods_iff:
  "validate_methods seen ms = Inr () \<longleftrightarrow>
     distinct ms \<and> (\<forall>m\<in>set ms. name_ok m \<and> m \<noteq> ''any'' \<and> m \<notin> set seen)"
  by (induction seen ms rule: validate_methods.induct) (auto simp: res_bind_Inr_iff)

lemma validate_adapter_config_iff: "validate_adapter_config cfg = Inr () \<longleftrightarrow> config_wf cfg"
  by (auto simp: validate_adapter_config_def res_bind_Inr_iff validate_methods_iff config_wf_def
      word_le_nat_alt)

lemma read_adapter_config_wf: "read_adapter_config from_toml cur owner e = Inr cfg \<Longrightarrow> config_wf cfg"
  by (auto simp: read_adapter_config_def res_bind_Inr_iff validate_adapter_config_iff)

lemma load_config_entries_Cons:
  assumes "load_config_entries from_toml cur strict owner (x # xs) acc = Inr cfgs"
  obtains
    (skip) "load_config_entries from_toml cur strict owner xs acc = Inr cfgs"
      "strict \<longrightarrow> (\<exists>e. x = Inr e \<and> path_ext (de_name e) \<noteq> Some ''toml'')"
  | (take) e cfg where "x = Inr e" "path_ext (de_name e) = Some ''toml''"
      "read_adapter_config from_toml cur owner e = Inr cfg"
      "load_config_entries from_toml cur strict owner xs (acc @ [cfg]) = Inr cfgs"
proof (cases x)
  case (Inl k)
  then show ?thesis using assms skip by (simp add: res_bind_Inr_iff handle_violation_def split: if_splits)
next
  case (Inr e)
  show ?thesis
  proof (cases "path_ext (de_name e) = Some ''toml''")
    case False
    then show ?thesis using assms Inr skip by simp
  next
    case True
    show ?thesis
    proof (cases "read_adapter_config from_toml cur owner e")
      case (Inl r)
      then show ?thesis
        using assms Inr True skip by (simp add: res_bind_Inr_iff handle_violation_def split: if_splits)
    next
      case (Inr cfg)
      then show ?thesis using assms \<open>x = Inr e\<close> True take by simp
    qed
  qed
qed

lemma load_config_entries_wf:
  "load_config_entries from_toml cur strict owner xs acc = Inr cfgs \<Longrightarrow>
     \<forall>c\<in>set acc. config_wf c \<Longrightarrow> \<forall>c\<in>set cfgs. config_wf c"
proof (induction xs arbitrary: acc)
  case (Cons x xs)
  from Cons.prems(1) show ?case
  proof (cases rule: load_config_entries_Cons)
    case skip
    from Cons.IH [OF skip(1) Cons.prems(2)] show ?thesis .
  next
    case (take e cfg)
    then have "\<forall>c\<in>set (acc @ [cfg]). config_wf c" using Cons.prems(2) read_adapter_config_wf by auto
    from Cons.IH [OF take(4) this] show ?thesis .
  qed
qed simp

text \<open>A strict load read every configuration file of the directory.\<close>

lemma load_config_entries_strict:
  "load_config_entries from_toml cur True owner xs acc = Inr cfgs \<Longrightarrow>
     \<exists>es. xs = map Inr es \<and>
       map Inr cfgs = map Inr acc @ map (read_adapter_config from_toml cur owner)
         (filter (\<lambda>e. path_ext (de_name e) = Some ''toml'') es)"
proof (induction xs arbitrary: acc)
  case (Cons x xs)
  from Cons.prems show ?case
  proof (cases rule: load_config_entries_Cons)
    case skip
    then obtain e where x: "x = Inr e" "path_ext (de_name e) \<noteq> Some ''toml''" by auto
    obtain es where "xs = map Inr es" "map Inr cfgs = map Inr acc @
        map (read_adapter_config from_toml cur owner)
          (filter (\<lambda>e. path_ext (de_name e) = Some ''toml'') es)"
      using Cons.IH [OF skip(1)] by blast
    with x show ?thesis by (intro exI [of _ "e # es"]) simp
  next
    case (take e cfg)
    obtain es where "xs = map Inr es" "map Inr cfgs = map Inr (acc @ [cfg]) @
        map (read_adapter_config from_toml cur owner)
          (filter (\<lambda>e. path_ext (de_name e) = Some ''toml'') es)"
      using Cons.IH [OF take(4)] by blast
    with take(1-3) show ?thesis by (intro exI [of _ "e # es"]) simp
  qed
qed simp

interpretation adapter_file: trusted_loader adapter_config_spec
  "\<lambda>current_uid opened owner. \<exists>from_toml entry cfg. de_opened entry = opened \<and>
     read_adapter_config from_toml current_uid owner entry = Inr cfg"
  by unfold_locales
    (auto simp: adapter_config_spec_def read_adapter_config_def res_bind_Inr_iff dest: read_secure_checked)

lemma load_config_entries_origin:
  "load_config_entries from_toml cur strict owner xs acc = Inr cfgs \<Longrightarrow> cfg \<in> set cfgs \<Longrightarrow>
     cfg \<in> set acc \<or> (\<exists>e. Inr e \<in> set xs \<and> read_adapter_config from_toml cur owner e = Inr cfg)"
proof (induction xs arbitrary: acc)
  case (Cons x xs)
  from Cons.prems(1) show ?case
  proof (cases rule: load_config_entries_Cons)
    case skip
    then show ?thesis using Cons.IH [OF skip(1)] Cons.prems by auto
  next
    case (take e c)
    then show ?thesis using Cons.IH [OF take(4)] Cons.prems by auto
  qed
qed simp

lemma load_adapter_configs_origin:
  assumes "load_adapter_configs from_toml cur dir strict owner = Inr cfgs" and "cfg \<in> set cfgs"
  shows "\<exists>entries e. dir = Some (Inr entries) \<and> Inr e \<in> set entries \<and>
    read_adapter_config from_toml cur owner e = Inr cfg"
  using assms load_config_entries_origin [of from_toml cur strict owner _ "[]" cfgs cfg]
  by (auto simp: load_adapter_configs_def res_bind_Inr_iff split: option.splits if_splits)

lemma load_adapter_configs_wf:
  "load_adapter_configs from_toml cur dir strict owner = Inr cfgs \<Longrightarrow> \<forall>c\<in>set cfgs. config_wf c"
  by (auto simp: load_adapter_configs_def res_bind_Inr_iff split: option.splits if_splits
      dest: load_config_entries_wf)

section \<open>Routing\<close>

lemma register_methods_get:
  "register_methods shared ms clients = Inr clients' \<Longrightarrow>
     distinct ms \<and> (\<forall>m\<in>set ms. hm_get clients m = None) \<and>
     (hm_inv clients \<longrightarrow> hm_inv clients') \<and>
     (\<forall>m. hm_get clients' m = (if m \<in> set ms then Some shared else hm_get clients m))"
proof (induction ms arbitrary: clients)
  case (Cons m ms)
  then have n: "hm_get clients m = None" "register_methods shared ms (hm_insert m shared clients) = Inr clients'"
    by (simp_all split: option.splits)
  from Cons.IH [OF this(2)] n(1) show ?case
    by (auto simp: store_simps wf_intros split: if_splits)
qed simp

definition owns :: "AdapterConfig list \<Rightarrow> string \<Rightarrow> AdapterConfig \<Rightarrow> bool" where
  "owns cfgs m cfg \<longleftrightarrow> cfg \<in> set cfgs \<and> m \<in> set (ac_methods cfg)"

lemma register_configs_get:
  "register_configs cfgs names clients = Inr (names', clients') \<Longrightarrow>
     names' = rev (map ac_name cfgs) @ names \<and> (distinct names \<longrightarrow> distinct names') \<and>
     (hm_inv clients \<longrightarrow> hm_inv clients') \<and>
     (\<forall>m c. hm_get clients' m = Some c \<longleftrightarrow>
        hm_get clients m = Some c \<or> (\<exists>cfg. owns cfgs m cfg \<and> c = client_of_config cfg)) \<and>
     (\<forall>m. (\<exists>cfg. owns cfgs m cfg) \<longrightarrow> hm_get clients m = None)"
proof (induction cfgs arbitrary: names clients)
  case Nil
  then show ?case by (auto simp: owns_def)
next
  case (Cons cfg cfgs)
  then obtain clients1 where new: "ac_name cfg \<notin> set names"
      and reg: "register_methods (client_of_config cfg) (ac_methods cfg) clients = Inr clients1"
      and rest: "register_configs cfgs (ac_name cfg # names) clients1 = Inr (names', clients')"
    by (auto simp: res_bind_Inr_iff split: if_splits)
  note r = register_methods_get [OF reg]
  note ih = Cons.IH [OF rest]
  have owns_Cons: "owns (cfg # cfgs) m c \<longleftrightarrow> c = cfg \<and> m \<in> set (ac_methods cfg) \<or> owns cfgs m c" for m c
    by (auto simp: owns_def)
  have fresh: "hm_get clients m = None" if "owns (cfg # cfgs) m c" for m c
    using that r ih by (auto simp: owns_Cons split: if_splits)
  have "hm_get clients' m = Some c \<longleftrightarrow>
        hm_get clients m = Some c \<or> (\<exists>k. owns (cfg # cfgs) m k \<and> c = client_of_config k)" for m c
    using r ih by (auto simp: owns_Cons split: if_splits)
  moreover have "names' = rev (map ac_name (cfg # cfgs)) @ names" using ih by simp
  moreover have "distinct (ac_name cfg # names) \<longrightarrow> distinct names'" using ih by blast
  then have "distinct names \<longrightarrow> distinct names'" using new by (simp only: distinct.simps) simp
  moreover note this
  moreover have "hm_inv clients \<longrightarrow> hm_inv clients'" using ih r by simp
  ultimately show ?case using fresh by blast
qed

text \<open>No method is served by two adapters.\<close>

lemma register_configs_unique:
  "register_configs cfgs names clients = Inr r \<Longrightarrow> owns cfgs m c \<Longrightarrow> owns cfgs m d \<Longrightarrow> c = d"
proof (induction cfgs arbitrary: names clients)
  case Nil
  then show ?case by (simp add: owns_def)
next
  case (Cons cfg cfgs)
  obtain names' clients' where r: "r = (names', clients')" by (cases r)
  obtain clients1 where reg: "register_methods (client_of_config cfg) (ac_methods cfg) clients = Inr clients1"
      and rest: "register_configs cfgs (ac_name cfg # names) clients1 = Inr r"
    using Cons.prems(1) by (auto simp: res_bind_Inr_iff split: if_splits)
  have "\<not> owns cfgs m k" if "m \<in> set (ac_methods cfg)" for k
    using register_methods_get [OF reg] register_configs_get [OF rest [unfolded r]] that
    by (auto split: if_splits)
  then show ?case
    using Cons.IH [OF rest] Cons.prems(2,3) by (auto simp: owns_def)
qed

text \<open>The invariant of a loaded registry; health updates do not touch the routes.\<close>

definition client_wf :: "AdapterClient \<Rightarrow> bool" where
  "client_wf c \<longleftrightarrow> name_ok (cl_name c) \<and>
     from_millis 100 \<le> cl_timeout c \<and> cl_timeout c \<le> from_millis 30000"

definition registry_wf :: "AdapterRegistry \<Rightarrow> bool" where
  "registry_wf reg \<longleftrightarrow> hm_inv (reg_clients reg) \<and>
     (\<forall>m c. hm_get (reg_clients reg) m = Some c \<longrightarrow> name_ok m \<and> m \<noteq> ''any'' \<and> client_wf c \<and>
        cl_name c \<in> set (reg_adapter_names reg))"

lemma load_registry_Inr:
  assumes "load_registry from_toml cur now dir strict owner = Inr reg"
  obtains cfgs where "load_adapter_configs from_toml cur dir strict owner = Inr cfgs"
    "\<forall>c\<in>set cfgs. config_wf c" "distinct (map ac_name cfgs)"
    "reg_adapter_names reg = sort (map ac_name cfgs)"
    "reg_health reg = spawn_health (map ac_name cfgs) now" "hm_inv (reg_clients reg)"
    "\<And>m c. hm_get (reg_clients reg) m = Some c \<longleftrightarrow> (\<exists>cfg. owns cfgs m cfg \<and> c = client_of_config cfg)"
    "\<And>m c d. owns cfgs m c \<Longrightarrow> owns cfgs m d \<Longrightarrow> c = d"
proof -
  obtain cfgs names clients where c: "load_adapter_configs from_toml cur dir strict owner = Inr cfgs"
      and r: "register_configs cfgs [] [] = Inr (names, clients)"
      and reg: "reg = \<lparr>reg_clients = clients, reg_adapter_names = sort names,
                  reg_health = spawn_health (map ac_name cfgs) now\<rparr>"
    using assms by (auto simp: load_registry_def res_bind_Inr_iff)
  note g = register_configs_get [OF r]
  then have n: "names = rev (map ac_name cfgs)" "distinct names" by auto
  then have d: "distinct (map ac_name cfgs)" by (simp only: distinct_rev)
  have "sort names = sort (map ac_name cfgs)"
    using n d by (intro sorted_distinct_set_unique) (simp_all only: sorted_sort distinct_sort set_sort set_rev distinct_rev)
  moreover have "hm_inv clients" using g by (simp add: hm_inv_def)
  ultimately show ?thesis
    using g register_configs_unique [OF r]
    by (intro that [OF c load_adapter_configs_wf [OF c] d]) (simp_all add: reg)
qed

lemma registry_client_origin:
  assumes "load_registry from_toml cur now dir strict owner = Inr reg" and "hm_get (reg_clients reg) m = Some c"
  shows "\<exists>entries e cfg. dir = Some (Inr entries) \<and> Inr e \<in> set entries \<and>
    read_adapter_config from_toml cur owner e = Inr cfg \<and> m \<in> set (ac_methods cfg) \<and> c = client_of_config cfg \<and>
    trusted_file cur owner (de_opened e)"
  using assms(1)
proof (cases rule: load_registry_Inr)
  case (1 cfgs)
  then obtain cfg where c: "cfg \<in> set cfgs" "m \<in> set (ac_methods cfg)" "c = client_of_config cfg"
    using assms(2) by (auto simp: owns_def)
  from load_adapter_configs_origin [OF 1(1) c(1)] c(2,3) adapter_file.loads_trusted show ?thesis by blast
qed

lemma client_of_config_wf: "config_wf cfg \<Longrightarrow> client_wf (client_of_config cfg)"
  by (simp add: client_wf_def client_of_config_def config_wf_def)

lemma load_registry_wf:
  assumes "load_registry from_toml cur now dir strict owner = Inr reg"
  shows "registry_wf reg"
  using assms
proof (cases rule: load_registry_Inr)
  case (1 cfgs)
  have "name_ok m \<and> m \<noteq> ''any'' \<and> client_wf c \<and> cl_name c \<in> set (reg_adapter_names reg)"
    if get: "hm_get (reg_clients reg) m = Some c" for m c
  proof -
    obtain cfg where "owns cfgs m cfg" "c = client_of_config cfg" using 1(7) [of m c] get by auto
    moreover have "config_wf cfg" using 1(2) \<open>owns cfgs m cfg\<close> by (simp add: owns_def)
    ultimately show ?thesis
      using 1(4) client_of_config_wf [of cfg]
      by (auto simp: owns_def config_wf_def client_of_config_def)
  qed
  then show ?thesis using 1(6) by (simp add: registry_wf_def)
qed

lemma available_methods_iff:
  "m \<in> set (available_methods reg) \<longleftrightarrow>
     (\<exists>c. hm_get (reg_clients reg) m = Some c \<and> \<not> adapter_down reg (cl_name c))"
  by (auto simp: available_methods_def hm_keys_iff split: option.splits)

lemma sorted_available [simp]: "sorted (available_methods reg)"
  by (simp add: available_methods_def)

lemma resolve_client_any:
  "resolve_client reg ''any'' = Inr (m, c) \<longleftrightarrow>
     (\<exists>ms. available_methods reg = m # ms) \<and> hm_get (reg_clients reg) m = Some c"
  by (auto simp: resolve_client_def split: list.splits)

lemma resolve_client_named:
  "method \<noteq> ''any'' \<Longrightarrow> resolve_client reg method = Inr (m, c) \<longleftrightarrow>
     m = method \<and> hm_get (reg_clients reg) method = Some c"
  by (auto simp: resolve_client_def)

lemma resolve_Inr:
  assumes "resolve reg method = Inr r"
  shows "hm_get (reg_clients reg) (ra_method r) = Some (ra_client r) \<and>
    ra_adapter_name r = cl_name (ra_client r) \<and>
    ra_timeout_ms r = word_of_nat (cl_timeout (ra_client r) div 1000000) \<and>
    (method \<noteq> ''any'' \<longrightarrow> ra_method r = method)"
  using assms
  by (cases "method = ''any''")
     (auto simp: resolve_def res_bind_Inr_iff resolve_client_any resolve_client_named)

lemma dispatch_sent:
  "snd (dispatch_resolved to_json from_json queue io reg r request) \<noteq> [] \<Longrightarrow>
     \<not> adapter_down reg (cl_name (ra_client r)) \<and> queue = QueueAcquired \<and>
     io_peer_uid io = Inr (cl_expected_uid (ra_client r))"
  by (auto simp: dispatch_resolved_def Let_def dest: verify_client_sent
      split: if_splits QueueOutcome.splits)

lemma dispatch_Inr:
  "fst (dispatch_resolved to_json from_json queue io reg r request) = Inr result \<Longrightarrow>
     \<not> adapter_down reg (cl_name (ra_client r)) \<and> queue = QueueAcquired \<and>
     fst (verify_client to_json from_json io (ra_client r) request) = Inr result"
  by (auto simp: dispatch_resolved_def Let_def split: if_splits QueueOutcome.splits)

section \<open>Properties\<close>

text \<open>C28: A loaded registry routes every configured method to exactly one adapter: the client of
  the only configuration that lists the method, with its socket, uid and timeout; adapter names
  are distinct and every configuration is valid.\<close>

theorem registry_routes:
  assumes "load_registry from_toml cur now dir strict owner = Inr reg"
  shows "\<exists>cfgs. load_adapter_configs from_toml cur dir strict owner = Inr cfgs \<and>
    (\<forall>cfg\<in>set cfgs. validate_adapter_config cfg = Inr ()) \<and>
    distinct (map ac_name cfgs) \<and> reg_adapter_names reg = sort (map ac_name cfgs) \<and>
    (\<forall>m c. hm_get (reg_clients reg) m = Some c \<longleftrightarrow>
       (\<exists>cfg\<in>set cfgs. m \<in> set (ac_methods cfg) \<and> c = client_of_config cfg)) \<and>
    (\<forall>m. \<forall>a\<in>set cfgs. \<forall>b\<in>set cfgs. m \<in> set (ac_methods a) \<and> m \<in> set (ac_methods b) \<longrightarrow> a = b)"
  using assms
proof (cases rule: load_registry_Inr)
  case (1 cfgs)
  have "hm_get (reg_clients reg) m = Some c \<longleftrightarrow>
       (\<exists>cfg\<in>set cfgs. m \<in> set (ac_methods cfg) \<and> c = client_of_config cfg)" for m c
    using 1(7) [of m c] by (auto simp: owns_def)
  moreover have "\<forall>m. \<forall>a\<in>set cfgs. \<forall>b\<in>set cfgs. m \<in> set (ac_methods a) \<and> m \<in> set (ac_methods b) \<longrightarrow> a = b"
    using 1(8) unfolding owns_def by blast
  ultimately show ?thesis
    using 1(1-4) by (intro exI [of _ cfgs] conjI) (simp_all add: validate_adapter_config_iff)
qed

text \<open>A production (strict) load uses the whole directory: it succeeds only if every entry
  could be read and every \<open>.toml\<close> file passed its file checks, parsed and validated, and at least
  one did; the configurations are then exactly those files', in directory order.\<close>

theorem strict_load_complete:
  assumes "load_adapter_configs from_toml cur (Some (Inr entries)) True owner = Inr cfgs"
  shows "cfgs \<noteq> [] \<and> (\<exists>es. entries = map Inr es \<and>
    map Inr cfgs = map (read_adapter_config from_toml cur owner)
      (filter (\<lambda>e. path_ext (de_name e) = Some ''toml'') es))"
proof -
  have "load_config_entries from_toml cur True owner entries [] = Inr cfgs" "cfgs \<noteq> []"
    using assms by (auto simp: load_adapter_configs_def res_bind_Inr_iff split: if_splits)
  then show ?thesis using load_config_entries_strict by fastforce
qed

text \<open>Resolving the wildcard method yields the alphabetically first method whose adapter is
  not down, and fails exactly when there is none; resolving a named method yields that method's
  adapter. The timeout the request carries is the configured one, without truncation.\<close>

theorem resolve_spec:
  assumes "registry_wf reg"
  shows "(case resolve reg ''any'' of
       Inl e \<Rightarrow> e = MethodNotFound ''any'' \<and> available_methods reg = []
     | Inr r \<Rightarrow> ra_method r \<in> set (available_methods reg) \<and>
         (\<forall>m\<in>set (available_methods reg). ra_method r \<le> m) \<and>
         \<not> adapter_down reg (ra_adapter_name r)) \<and>
    (m \<noteq> ''any'' \<longrightarrow> resolve reg m =
       (case hm_get (reg_clients reg) m of
          None \<Rightarrow> Inl (MethodNotFound m)
        | Some c \<Rightarrow> Inr \<lparr>ra_adapter_name = cl_name c, ra_method = m,
            ra_timeout_ms = word_of_nat (cl_timeout c div 1000000), ra_client = c\<rparr>)) \<and>
    (\<forall>c. hm_get (reg_clients reg) m = Some c \<longrightarrow>
       unat (word_of_nat (cl_timeout c div 1000000) :: u64) = cl_timeout c div 1000000)"
proof -
  have any: "case resolve reg ''any'' of
       Inl e \<Rightarrow> e = MethodNotFound ''any'' \<and> available_methods reg = []
     | Inr r \<Rightarrow> ra_method r \<in> set (available_methods reg) \<and>
         (\<forall>m\<in>set (available_methods reg). ra_method r \<le> m) \<and>
         \<not> adapter_down reg (ra_adapter_name r)"
  proof (cases "available_methods reg")
    case Nil
    then show ?thesis by (simp add: resolve_def resolve_client_def)
  next
    case (Cons k ks)
    then obtain c where "hm_get (reg_clients reg) k = Some c" "\<not> adapter_down reg (cl_name c)"
      using available_methods_iff [of k reg] by auto
    moreover have "\<forall>j\<in>set ks. k \<le> j" using sorted_available [of reg] Cons by simp
    ultimately show ?thesis using Cons by (auto simp: resolve_def resolve_client_def)
  qed
  have "unat (word_of_nat (cl_timeout c div 1000000) :: u64) = cl_timeout c div 1000000"
    if "hm_get (reg_clients reg) m = Some c" for c
  proof -
    have "cl_timeout c \<le> from_millis 30000"
      using assms that by (auto simp: registry_wf_def client_wf_def)
    then show ?thesis by (simp add: unat_of_nat)
  qed
  then show ?thesis using any by (auto simp: resolve_def resolve_client_def split: option.splits)
qed

text \<open>A request leaves the daemon only towards an adapter that is not down, whose single permit
  was obtained in time and whose socket peer has the configured uid.\<close>

theorem dispatch_guarded:
  assumes "snd (dispatch_resolved to_json from_json queue io reg r request) \<noteq> []"
  shows "\<not> adapter_down reg (cl_name (ra_client r)) \<and> queue = QueueAcquired \<and>
    io_peer_uid io = Inr (cl_expected_uid (ra_client r))"
  using assms by (rule dispatch_sent)

section \<open>Witnesses\<close>

definition sample_config :: AdapterConfig where
  "sample_config = \<lparr>ac_name = ''demo'', ac_socket_path = ''/run/demo'', ac_expected_uid = 990,
     ac_methods = [''fido2''], ac_timeout_ms = 5000\<rparr>"

definition sample_adapter_entry :: DirEntry where
  "sample_adapter_entry = \<lparr>de_name = ''demo.toml'', de_is_file = True, de_opened =
     Inr \<lparr>fd_stat = Some \<lparr>st_mode = 33188, st_uid = 0, st_size = 1\<rparr>,
          fd_data = Some ''c'', fd_probe_ok = True, fd_chmod_ok = True\<rparr>\<rparr>"

lemma sample_config_wf: "config_wf sample_config"
  by (simp add: config_wf_def sample_config_def name_ok_def MAX_NAME_LEN_def name_char_def
      is_ascii_alphanumeric_def is_ascii_digit_def)

lemma sample_configs_loaded:
  "load_adapter_configs (\<lambda>_. Inr sample_config) 0 (Some (Inr [Inr sample_adapter_entry])) True owner
     = Inr [sample_config]"
proof -
  have "read_secure_to_string 0 (de_opened sample_adapter_entry) (adapter_config_spec owner) = Inr ''c''"
    unfolding adapter_config_spec_def sample_adapter_entry_def
    by (subst read_secure_to_string_iff [where mx = "64 * 1024"])
       (simp_all add: MAX_ADAPTER_CONFIG_BYTES_def stat_ok_def mode_ok_def owner_ok_def)
  moreover have "validate_adapter_config sample_config = Inr ()"
    by (simp add: validate_adapter_config_iff sample_config_wf)
  moreover have "path_ext (de_name sample_adapter_entry) = Some ''toml''"
    by (simp add: sample_adapter_entry_def path_ext_def rsplit_dot_def)
  ultimately show ?thesis
    by (simp add: load_adapter_configs_def read_adapter_config_def)
qed

definition sample_registry :: AdapterRegistry where
  "sample_registry = \<lparr>reg_clients = [(''fido2'', client_of_config sample_config)],
     reg_adapter_names = [''demo''], reg_health = spawn_health [''demo''] 0\<rparr>"

lemma sample_registry_loaded:
  "load_registry (\<lambda>_. Inr sample_config) 0 0 (Some (Inr [Inr sample_adapter_entry])) True owner
     = Inr sample_registry"
  by (simp add: load_registry_def sample_configs_loaded sample_registry_def)
     (simp add: sample_config_def client_of_config_def hm_get_def hm_insert_def)

lemmas sample_registry_wf = load_registry_wf [OF sample_registry_loaded]

theorem registry_routes_witness:
  "\<exists>cfgs. load_adapter_configs (\<lambda>_. Inr sample_config) 0 (Some (Inr [Inr sample_adapter_entry])) True
      RootOrCurrent = Inr cfgs \<and>
    (\<forall>cfg\<in>set cfgs. validate_adapter_config cfg = Inr ()) \<and>
    distinct (map ac_name cfgs) \<and> reg_adapter_names sample_registry = sort (map ac_name cfgs) \<and>
    (\<forall>m c. hm_get (reg_clients sample_registry) m = Some c \<longleftrightarrow>
       (\<exists>cfg\<in>set cfgs. m \<in> set (ac_methods cfg) \<and> c = client_of_config cfg)) \<and>
    (\<forall>m. \<forall>a\<in>set cfgs. \<forall>b\<in>set cfgs. m \<in> set (ac_methods a) \<and> m \<in> set (ac_methods b) \<longrightarrow> a = b)"
  by (rule registry_routes [OF sample_registry_loaded])

theorem strict_load_complete_witness:
  "\<exists>es. [Inr sample_adapter_entry :: IoErrorKind + DirEntry] = map Inr es \<and>
    map Inr [sample_config] = map (read_adapter_config (\<lambda>_. Inr sample_config) 0 RootOrCurrent)
      (filter (\<lambda>e. path_ext (de_name e) = Some ''toml'') es)"
  using strict_load_complete [OF sample_configs_loaded] by (rule conjunct2)

theorem resolve_spec_witness:
  "resolve sample_registry ''fido2'' =
     Inr \<lparr>ra_adapter_name = ''demo'', ra_method = ''fido2'', ra_timeout_ms = 5000,
          ra_client = client_of_config sample_config\<rparr>"
  using resolve_spec [OF sample_registry_wf, of "''fido2''"]
  by (simp add: sample_registry_def hm_get_def client_of_config_def sample_config_def)

theorem dispatch_guarded_witness:
  "\<not> adapter_down (sample_registry\<lparr>reg_health := monitor_client False True 1 ''demo'' (spawn_health [''demo''] 0)\<rparr>)
     (cl_name (client_of_config sample_config))"
proof -
  let ?reg = "sample_registry\<lparr>reg_health := monitor_client False True 1 ''demo'' (spawn_health [''demo''] 0)\<rparr>"
  let ?r = "\<lparr>ra_adapter_name = ''demo'', ra_method = ''fido2'', ra_timeout_ms = 5000,
          ra_client = client_of_config sample_config\<rparr>"
  have "snd (dispatch_resolved (\<lambda>_. Inr ''r'') (\<lambda>_. Inl ''e'') QueueAcquired
     \<lparr>io_connect = Done (Inr ()), io_peer_uid = Inr 990, io_send = Done (Inr ()), io_next = Elapsed\<rparr>
     ?reg ?r \<lparr>vr_version = 1, vr_id = [1], vr_uid = 1000, vr_nonce = [7], vr_deadline_ms = 5\<rparr>) \<noteq> []"
    by (simp add: dispatch_resolved_def adapter_down_def Let_def verify_client_def client_of_config_def
        sample_config_def sample_registry_def monitor_client_def spawn_health_def store_simps
        record_probe_def)
  from dispatch_guarded [OF this] show ?thesis by simp
qed

end
