(* ===== verification/Nonce_Store.thy ===== *)
theory Nonce_Store
  imports Hash_Map
begin

text \<open>
  The single-use challenge store of \<open>security/nonce.rs\<close>. The state under the mutex is a
  record of the two hash maps and of the mutex's poisoning; each operation is one critical
  section. \<open>getrandom::fill\<close> is an argument: \<open>rng i\<close> is what the call number \<open>i\<close> of one
  \<open>generate\<close> returns, \<open>None\<close> for an error. \<open>cleanup_tick\<close> is one round of the background
  task. The locale \<open>single_use_store\<close> is the promise the server relies on, and its trace
  lemma says that no run, in any interleaving, honours a nonce more often than it issued it.
\<close>

definition NONCE_TTL :: duration where
  "NONCE_TTL = from_secs 30"

definition MAX_PENDING_NONCES :: nat where
  "MAX_PENDING_NONCES = 1024"

definition MAX_PENDING_NONCES_PER_UID :: nat where
  "MAX_PENDING_NONCES_PER_UID = 32"

record NonceState =
  pending :: "(bytes, instant \<times> u32) hmap"
  pending_per_uid :: "(u32, nat) hmap"
  nonce_poisoned :: bool

datatype NonceError =
  NotFound | Expired | UidMismatch | TableFull | TooManyForUid | StatePoisoned | RandomUnavailable

definition new_nonce_state :: NonceState where
  "new_nonce_state = \<lparr>pending = [], pending_per_uid = [], nonce_poisoned = False\<rparr>"

section \<open>Operations\<close>

definition decrement_uid_count :: "u32 \<Rightarrow> (u32, nat) hmap \<Rightarrow> (u32, nat) hmap" where
  "decrement_uid_count uid counts =
     (case hm_get counts uid of
        Some c \<Rightarrow> if 0 < c - 1 then hm_insert uid (c - 1) counts else hm_remove uid counts
      | None \<Rightarrow> hm_remove uid counts)"

definition issue :: "bytes \<Rightarrow> instant \<Rightarrow> u32 \<Rightarrow> NonceState \<Rightarrow> NonceState" where
  "issue nonce now uid s = s\<lparr>
     pending := hm_insert nonce (now, uid) (pending s),
     pending_per_uid :=
       hm_insert uid (case hm_get (pending_per_uid s) uid of None \<Rightarrow> 1 | Some c \<Rightarrow> c + 1)
         (pending_per_uid s)\<rparr>"

fun generate_loop ::
  "nat \<Rightarrow> nat \<Rightarrow> (nat \<Rightarrow> bytes option) \<Rightarrow> instant \<Rightarrow> u32 \<Rightarrow> NonceState \<Rightarrow>
   (NonceError + bytes) \<times> NonceState" where
  "generate_loop 0 i rng now uid s = (Inl TableFull, s)"
| "generate_loop (Suc n) i rng now uid s =
     (case rng i of
        None \<Rightarrow> (Inl RandomUnavailable, s)
      | Some nonce \<Rightarrow>
          if hm_get (pending s) nonce \<noteq> None then generate_loop n (Suc i) rng now uid s
          else (Inr nonce, issue nonce now uid s))"

definition generate ::
  "(nat \<Rightarrow> bytes option) \<Rightarrow> instant \<Rightarrow> u32 \<Rightarrow> NonceState \<Rightarrow> (NonceError + bytes) \<times> NonceState" where
  "generate rng now uid s =
     (if nonce_poisoned s then (Inl StatePoisoned, s)
      else if MAX_PENDING_NONCES \<le> hm_len (pending s) then (Inl TableFull, s)
      else if MAX_PENDING_NONCES_PER_UID \<le>
                (case hm_get (pending_per_uid s) uid of None \<Rightarrow> 0 | Some c \<Rightarrow> c)
        then (Inl TooManyForUid, s)
      else generate_loop 16 0 rng now uid s)"

definition drop_nonce :: "bytes \<Rightarrow> NonceState \<Rightarrow> NonceState" where
  "drop_nonce nonce s =
     (case hm_get (pending s) nonce of
        None \<Rightarrow> s
      | Some (_, uid) \<Rightarrow> s\<lparr>pending := hm_remove nonce (pending s),
                          pending_per_uid := decrement_uid_count uid (pending_per_uid s)\<rparr>)"

definition consume ::
  "instant \<Rightarrow> bytes \<Rightarrow> u32 \<Rightarrow> NonceState \<Rightarrow> (NonceError + unit) \<times> NonceState" where
  "consume now nonce uid s =
     (if nonce_poisoned s then (Inl StatePoisoned, s)
      else case hm_get (pending s) nonce of
        None \<Rightarrow> (Inl NotFound, s)
      | Some (issued_at, stored_uid) \<Rightarrow>
          (if NONCE_TTL < now - issued_at then Inl Expired
           else if stored_uid \<noteq> uid then Inl NonceError.UidMismatch
           else Inr (),
           drop_nonce nonce s))"

definition expired_nonces :: "instant \<Rightarrow> NonceState \<Rightarrow> bytes list" where
  "expired_nonces now s =
     map fst (filter (\<lambda>(_, issued_at, _). NONCE_TTL \<le> now - issued_at) (pending s))"

definition cleanup_tick :: "instant \<Rightarrow> NonceState \<Rightarrow> NonceState" where
  "cleanup_tick now s =
     (if nonce_poisoned s then s
      else foldl (\<lambda>s nonce. drop_nonce nonce s) s (expired_nonces now s))"

section \<open>Invariant\<close>

text \<open>
  The per-uid counter of a uid is the number of its pending nonces, and a uid with no pending
  nonce has no counter; the two limits hold.
\<close>

definition uid_pending :: "u32 \<Rightarrow> NonceState \<Rightarrow> nat" where
  "uid_pending uid s = hm_count (\<lambda>(_, u). u = uid) (pending s)"

definition counts_agree :: "NonceState \<Rightarrow> bool" where
  "counts_agree s \<longleftrightarrow>
     (\<forall>uid. hm_get (pending_per_uid s) uid =
              (if uid_pending uid s = 0 then None else Some (uid_pending uid s)))"

definition nonce_inv :: "NonceState \<Rightarrow> bool" where
  "nonce_inv s \<longleftrightarrow> hm_inv (pending s) \<and> hm_inv (pending_per_uid s) \<and> counts_agree s \<and>
     hm_len (pending s) \<le> MAX_PENDING_NONCES \<and>
     (\<forall>uid. uid_pending uid s \<le> MAX_PENDING_NONCES_PER_UID)"

lemma nonce_inv_new: "nonce_inv new_nonce_state"
  by (simp add: nonce_inv_def new_nonce_state_def counts_agree_def uid_pending_def)

lemma hm_get_decrement:
  "hm_get (decrement_uid_count uid c) u =
     (if u = uid then (case hm_get c uid of Some (Suc (Suc n)) \<Rightarrow> Some (Suc n) | _ \<Rightarrow> None)
      else hm_get c u)"
  by (auto simp: decrement_uid_count_def store_simps split: option.splits nat.splits)

lemma hm_inv_decrement: "hm_inv c \<Longrightarrow> hm_inv (decrement_uid_count uid c)"
  by (auto simp: decrement_uid_count_def intro: wf_intros split: option.splits)

lemma uid_pending_issue:
  "hm_get (pending s) n = None \<Longrightarrow>
     uid_pending u (issue n now uid s) = uid_pending u s + (if u = uid then 1 else 0)"
  by (auto simp: uid_pending_def issue_def hm.count_insert_fresh)

lemma uid_pending_drop:
  assumes "hm_inv (pending s)" and "hm_get (pending s) n = Some (t, uid)"
  shows "uid_pending u (drop_nonce n s) + (if u = uid then 1 else 0) = uid_pending u s"
  using hm.count_remove [OF assms, of "\<lambda>(_, v). v = u"] assms(2)
  by (auto simp: uid_pending_def drop_nonce_def split: if_splits)

lemma pending_drop: "pending (drop_nonce n s) = hm_remove n (pending s)"
  by (auto simp: drop_nonce_def hm.remove_absent split: option.splits)

lemma poisoned_drop [simp]: "nonce_poisoned (drop_nonce n s) = nonce_poisoned s"
  by (auto simp: drop_nonce_def split: option.splits)

lemma counts_agree_issue:
  assumes "counts_agree s" and "hm_get (pending s) n = None"
  shows "counts_agree (issue n now uid s)"
  using assms(1) uid_pending_issue [OF assms(2)]
  by (auto simp: counts_agree_def) (auto simp: issue_def store_simps)

lemma counts_agree_drop:
  assumes "counts_agree s" and "hm_inv (pending s)"
  shows "counts_agree (drop_nonce n s)"
proof (cases "hm_get (pending s) n")
  case None
  then show ?thesis using assms(1) by (simp add: drop_nonce_def)
next
  case (Some v)
  then obtain t uid where v: "hm_get (pending s) n = Some (t, uid)" by (cases v) auto
  have c: "hm_get (pending_per_uid (drop_nonce n s)) u =
      hm_get (decrement_uid_count uid (pending_per_uid s)) u" for u
    using v by (simp add: drop_nonce_def)
  have "hm_get (pending_per_uid (drop_nonce n s)) u =
      (if uid_pending u (drop_nonce n s) = 0 then None else Some (uid_pending u (drop_nonce n s)))" for u
  proof (cases "u = uid")
    case True
    then have "uid_pending u s = Suc (uid_pending u (drop_nonce n s))"
      using uid_pending_drop [OF assms(2) v, of u] by simp
    then show ?thesis
      using assms(1) True c by (simp add: counts_agree_def hm_get_decrement split: nat.splits)
  next
    case False
    then show ?thesis
      using assms(1) uid_pending_drop [OF assms(2) v, of u] c
      by (simp add: counts_agree_def hm_get_decrement)
  qed
  then show ?thesis by (simp add: counts_agree_def)
qed

lemma nonce_inv_drop [wf_intros]: "nonce_inv s \<Longrightarrow> nonce_inv (drop_nonce n s)"
proof -
  assume inv: "nonce_inv s"
  then have hp: "hm_inv (pending s)" by (simp add: nonce_inv_def)
  have "uid_pending u (drop_nonce n s) \<le> uid_pending u s" for u
    using hm.count_remove_le [OF hp] by (simp add: uid_pending_def pending_drop)
  moreover have "hm_len (pending (drop_nonce n s)) \<le> hm_len (pending s)"
    using hm.len_remove_le [OF hp] by (simp add: pending_drop)
  moreover have "hm_inv (pending_per_uid (drop_nonce n s))"
    using inv by (auto simp: nonce_inv_def drop_nonce_def hm_inv_decrement split: option.splits)
  ultimately show ?thesis
    using inv counts_agree_drop [OF _ hp]
    by (auto simp: nonce_inv_def pending_drop intro: hm.inv_remove le_trans)
qed

lemma nonce_inv_issue:
  assumes "nonce_inv s" and "hm_get (pending s) n = None"
    and "hm_len (pending s) < MAX_PENDING_NONCES"
    and "uid_pending uid s < MAX_PENDING_NONCES_PER_UID"
  shows "nonce_inv (issue n now uid s)"
proof -
  have "hm_len (pending (issue n now uid s)) \<le> MAX_PENDING_NONCES"
    using assms by (auto simp: nonce_inv_def issue_def intro: hm.insert_len_bound)
  moreover have "uid_pending u (issue n now uid s) \<le> MAX_PENDING_NONCES_PER_UID" for u
    using assms by (simp add: uid_pending_issue nonce_inv_def Suc_le_eq)
  ultimately show ?thesis
    using assms counts_agree_issue
    by (auto simp: nonce_inv_def) (auto simp: issue_def intro: wf_intros)
qed

section \<open>Behaviour of the operations\<close>

lemma generate_loop_cases:
  "generate_loop n i rng now uid s = (r, s') \<Longrightarrow>
     (\<exists>e \<in> {TableFull, RandomUnavailable}. r = Inl e \<and> s' = s) \<or>
     (\<exists>nonce j. r = Inr nonce \<and> i \<le> j \<and> j < i + n \<and> rng j = Some nonce \<and>
        hm_get (pending s) nonce = None \<and> s' = issue nonce now uid s)"
proof (induction n arbitrary: i)
  case 0
  then show ?case by auto
next
  case (Suc n)
  show ?case
  proof (cases "rng i")
    case None
    with Suc.prems show ?thesis by auto
  next
    case (Some nonce)
    show ?thesis
    proof (cases "hm_get (pending s) nonce")
      case None
      with Some Suc.prems show ?thesis by force
    next
      case (Some v)
      with \<open>rng i = Some nonce\<close> Suc.prems
      have "generate_loop n (Suc i) rng now uid s = (r, s')" by simp
      from Suc.IH [OF this] show ?thesis by (force intro: Suc_leD)
    qed
  qed
qed

lemma generate_Inl: "generate rng now uid s = (Inl e, s') \<Longrightarrow> s' = s"
  by (auto simp: generate_def dest: generate_loop_cases split: if_splits)

lemma uid_counter: "counts_agree s \<Longrightarrow>
    (case hm_get (pending_per_uid s) uid of None \<Rightarrow> 0 | Some c \<Rightarrow> c) = uid_pending uid s"
  by (simp add: counts_agree_def)

lemma generate_Inr:
  assumes "nonce_inv s" and "generate rng now uid s = (Inr n, s')"
  shows "hm_get (pending s) n = None \<and> s' = issue n now uid s \<and> nonce_poisoned s = False \<and>
    hm_len (pending s) < MAX_PENDING_NONCES \<and> uid_pending uid s < MAX_PENDING_NONCES_PER_UID \<and>
    (\<exists>j<16. rng j = Some n)"
proof -
  from assms(2) have loop: "generate_loop 16 0 rng now uid s = (Inr n, s')"
    and lim: "\<not> nonce_poisoned s" "hm_len (pending s) < MAX_PENDING_NONCES"
      "(case hm_get (pending_per_uid s) uid of None \<Rightarrow> 0 | Some c \<Rightarrow> c) < MAX_PENDING_NONCES_PER_UID"
    by (auto simp: generate_def split: if_splits)
  from generate_loop_cases [OF loop] lim show ?thesis
    using assms(1) by (auto simp: uid_counter nonce_inv_def)
qed

lemma nonce_inv_generate [wf_intros]:
  assumes "nonce_inv s"
  shows "nonce_inv (snd (generate rng now uid s))"
proof (cases "generate rng now uid s")
  case (Pair r s')
  show ?thesis
  proof (cases r)
    case (Inl e)
    then show ?thesis using Pair assms generate_Inl [of rng now uid s e s'] by simp
  next
    case (Inr n)
    then show ?thesis
      using Pair assms generate_Inr [OF assms, of rng now uid n s'] by (auto intro: nonce_inv_issue)
  qed
qed

lemma nonce_inv_consume [wf_intros]: "nonce_inv s \<Longrightarrow> nonce_inv (snd (consume now n uid s))"
  by (auto simp: consume_def intro: wf_intros split: option.splits)

lemma nonce_inv_drop_all: "nonce_inv s \<Longrightarrow> nonce_inv (foldl (\<lambda>s n. drop_nonce n s) s ns)"
  by (induction ns arbitrary: s) (simp_all add: wf_intros)

lemma nonce_inv_cleanup [wf_intros]: "nonce_inv s \<Longrightarrow> nonce_inv (cleanup_tick now s)"
  by (simp add: cleanup_tick_def nonce_inv_drop_all)

lemma pending_drop_all:
  "pending (foldl (\<lambda>s n. drop_nonce n s) s ns) = foldl (\<lambda>m k. hm_remove k m) (pending s) ns"
  by (induction ns arbitrary: s) (simp_all add: pending_drop)

lemma get_pending_cleanup:
  assumes "hm_inv (pending s)" and "\<not> nonce_poisoned s"
  shows "hm_get (pending (cleanup_tick now s)) n =
    (case hm_get (pending s) n of
       None \<Rightarrow> None
     | Some (t, u) \<Rightarrow> if NONCE_TTL \<le> now - t then None else Some (t, u))"
proof -
  have e: "n \<in> set (expired_nonces now s) \<longleftrightarrow>
      (\<exists>t u. hm_get (pending s) n = Some (t, u) \<and> NONCE_TTL \<le> now - t)"
    by (force simp: expired_nonces_def hm_get_Some_in_set [OF assms(1)])
  show ?thesis
    using assms(2) by (auto simp: cleanup_tick_def pending_drop_all hm.get_remove_all e split: option.splits)
qed

section \<open>The promise: single use\<close>

datatype ('g, 'c, 't, 'n) store_op = Generate 'g | Consume 'c 'n | Tick 't

datatype 'n store_event = Issued 'n | Honoured 'n | Silent

fun store_step ::
  "('g \<Rightarrow> 's \<Rightarrow> ('e + 'n) \<times> 's) \<Rightarrow> ('c \<Rightarrow> 'n \<Rightarrow> 's \<Rightarrow> ('e + unit) \<times> 's) \<Rightarrow> ('t \<Rightarrow> 's \<Rightarrow> 's) \<Rightarrow>
   ('g, 'c, 't, 'n) store_op \<Rightarrow> 's \<Rightarrow> 'n store_event \<times> 's" where
  "store_step gen con tick (Generate a) s =
     (case gen a s of (Inl _, s') \<Rightarrow> (Silent, s') | (Inr n, s') \<Rightarrow> (Issued n, s'))"
| "store_step gen con tick (Consume c n) s =
     (case con c n s of (Inl _, s') \<Rightarrow> (Silent, s') | (Inr _, s') \<Rightarrow> (Honoured n, s'))"
| "store_step gen con tick (Tick t) s = (Silent, tick t s)"

fun store_run ::
  "('g \<Rightarrow> 's \<Rightarrow> ('e + 'n) \<times> 's) \<Rightarrow> ('c \<Rightarrow> 'n \<Rightarrow> 's \<Rightarrow> ('e + unit) \<times> 's) \<Rightarrow> ('t \<Rightarrow> 's \<Rightarrow> 's) \<Rightarrow>
   ('g, 'c, 't, 'n) store_op list \<Rightarrow> 's \<Rightarrow> 'n store_event list \<times> 's" where
  "store_run gen con tick [] s = ([], s)"
| "store_run gen con tick (x # xs) s =
     (let (ev, s') = store_step gen con tick x s; (evs, s'') = store_run gen con tick xs s'
      in (ev # evs, s''))"

lemma store_step_snd: "snd (store_step gen con tick x s) =
    (case x of Generate a \<Rightarrow> snd (gen a s) | Consume c n \<Rightarrow> snd (con c n s) | Tick t \<Rightarrow> tick t s)"
  by (cases x) (auto split: prod.splits sum.splits)

locale single_use_store =
  fixes gen :: "'g \<Rightarrow> 's \<Rightarrow> ('e + 'n) \<times> 's"
    and con :: "'c \<Rightarrow> 'n \<Rightarrow> 's \<Rightarrow> ('e + unit) \<times> 's"
    and tick :: "'t \<Rightarrow> 's \<Rightarrow> 's"
    and live :: "'s \<Rightarrow> 'n set"
    and inv_store :: "'s \<Rightarrow> bool"
  assumes gen_ok: "inv_store s \<Longrightarrow> gen a s = (Inr n, s') \<Longrightarrow>
        n \<notin> live s \<and> live s' = insert n (live s)"
    and gen_err: "gen a s = (Inl e, s') \<Longrightarrow> live s' = live s"
    and con_ok: "con c n s = (Inr u, s') \<Longrightarrow> n \<in> live s \<and> live s' = live s - {n}"
    and con_err: "con c n s = (Inl e, s') \<Longrightarrow> live s' \<subseteq> live s"
    and tick_live: "inv_store s \<Longrightarrow> live (tick t s) \<subseteq> live s"
    and inv_gen: "inv_store s \<Longrightarrow> inv_store (snd (gen a s))"
    and inv_con: "inv_store s \<Longrightarrow> inv_store (snd (con c n s))"
    and inv_tick: "inv_store s \<Longrightarrow> inv_store (tick t s)"
begin

lemma step_balance:
  assumes "inv_store s" and "store_step gen con tick x s = (ev, s')"
  shows "inv_store s' \<and>
    of_bool (ev = Honoured n) + of_bool (n \<in> live s') \<le>
    (of_bool (ev = Issued n) + of_bool (n \<in> live s) :: nat)"
proof (cases x)
  case (Generate a)
  then show ?thesis
    using assms gen_ok [of s a] gen_err [of a s] inv_gen [of s a]
    by (auto split: prod.splits sum.splits)
next
  case (Consume c m)
  then show ?thesis
    using assms con_ok [of c m s] con_err [of c m s] inv_con [of s c m]
    by (fastforce split: prod.splits sum.splits)
next
  case (Tick t)
  then show ?thesis
    using assms tick_live [of s t] inv_tick [of s t] by auto
qed

lemma run_balance:
  assumes "inv_store s" and "store_run gen con tick xs s = (evs, s')"
  shows "count_list evs (Honoured n) + of_bool (n \<in> live s') \<le>
    count_list evs (Issued n) + of_bool (n \<in> live s)"
  using assms
proof (induction xs arbitrary: s evs)
  case Nil
  then show ?case by simp
next
  case (Cons x xs)
  obtain ev t where st: "store_step gen con tick x s = (ev, t)" by (cases "store_step gen con tick x s")
  obtain evs' where rn: "store_run gen con tick xs t = (evs', s')" and evs: "evs = ev # evs'"
    using Cons.prems(2) st by (auto split: prod.splits)
  have b: "inv_store t"
    "of_bool (ev = Honoured n) + of_bool (n \<in> live t) \<le>
      (of_bool (ev = Issued n) + of_bool (n \<in> live s) :: nat)"
    using step_balance [OF Cons.prems(1) st, of n] by auto
  show ?case
    using Cons.IH [OF b(1) rn] b(2) evs by (auto split: if_splits)
qed

text \<open>A nonce that is not live stays dead until it is issued again.\<close>

lemma run_dead:
  assumes "inv_store s" and "store_run gen con tick xs s = (evs, s')"
    and "n \<notin> live s" and "Issued n \<notin> set evs"
  shows "Honoured n \<notin> set evs"
proof -
  have "count_list evs (Issued n) = 0" using assms(4) by (simp add: count_list_0_iff)
  with run_balance [OF assms(1,2), of n] assms(3) have "count_list evs (Honoured n) = 0"
    by simp
  then show ?thesis by (simp add: count_list_0_iff)
qed

end

definition nonce_gen :: "(nat \<Rightarrow> bytes option) \<times> instant \<times> u32 \<Rightarrow> NonceState \<Rightarrow>
    (NonceError + bytes) \<times> NonceState" where
  "nonce_gen a s = (case a of (rng, now, uid) \<Rightarrow> generate rng now uid s)"

definition nonce_con :: "instant \<times> u32 \<Rightarrow> bytes \<Rightarrow> NonceState \<Rightarrow> (NonceError + unit) \<times> NonceState" where
  "nonce_con c n s = (case c of (now, uid) \<Rightarrow> consume now n uid s)"

definition live_nonces :: "NonceState \<Rightarrow> bytes set" where
  "live_nonces s = {n. hm_get (pending s) n \<noteq> None}"

lemma live_issue: "live_nonces (issue n now uid s) = insert n (live_nonces s)"
  by (auto simp: live_nonces_def issue_def store_simps)

lemma live_drop: "live_nonces (drop_nonce n s) = live_nonces s - {n}"
  by (auto simp: live_nonces_def pending_drop store_simps)

lemma consume_Inr: "consume now n uid s = (Inr u, s') \<Longrightarrow>
    (\<exists>t. hm_get (pending s) n = Some (t, uid) \<and> now - t \<le> NONCE_TTL) \<and> s' = drop_nonce n s \<and>
    \<not> nonce_poisoned s"
  by (auto simp: consume_def split: if_splits option.splits)

lemma fresh_nonce_spendable:
  assumes "nonce_inv s" and "generate rng now uid s = (Inr n, s')" and "later - now \<le> NONCE_TTL"
  shows "fst (consume later n uid s') = Inr ()"
  using generate_Inr [OF assms(1,2)] assms(3) by (simp add: consume_def issue_def store_simps)

lemma consume_live:
  "live_nonces (snd (consume now n uid s)) =
     (if nonce_poisoned s then live_nonces s else live_nonces s - {n})"
  by (auto simp: consume_def live_drop split: option.splits) (simp add: live_nonces_def)

lemma live_cleanup: "nonce_inv s \<Longrightarrow> live_nonces (cleanup_tick now s) \<subseteq> live_nonces s"
proof (cases "nonce_poisoned s")
  case False
  assume "nonce_inv s"
  then show ?thesis
    using get_pending_cleanup [OF _ False]
    by (auto simp: live_nonces_def nonce_inv_def split: option.splits if_splits)
qed (simp add: cleanup_tick_def)

lemma pending_card: "nonce_inv n \<Longrightarrow> hm_len (pending n) = card (live_nonces n)"
proof -
  assume "nonce_inv n"
  then have "distinct (map fst (pending n))" by (simp add: nonce_inv_def hm_inv_def)
  moreover have "live_nonces n = set (map fst (pending n))" by (auto simp: live_nonces_def hm_get_None)
  ultimately show ?thesis by (metis distinct_card hm_len_def length_map)
qed

lemma uid_pending_le: "uid_pending uid n \<le> hm_len (pending n)"
  by (simp add: uid_pending_def hm_count_def hm_len_def)

interpretation ns: single_use_store nonce_gen nonce_con cleanup_tick live_nonces nonce_inv
proof (unfold_locales, goal_cases)
  case (1 s a n s')
  obtain rng now uid where a: "a = (rng, now, uid)" by (cases a)
  from 1 a have "hm_get (pending s) n = None" "s' = issue n now uid s"
    using generate_Inr [OF 1(1), of rng now uid n s'] by (auto simp: nonce_gen_def)
  then show ?case by (simp add: live_issue) (simp add: live_nonces_def)
next
  case (2 a s e s')
  then show ?case by (auto simp: nonce_gen_def dest: generate_Inl split: prod.splits)
next
  case (3 c n s u s')
  then show ?case by (cases c) (auto simp: nonce_con_def live_drop live_nonces_def pending_drop store_simps
        dest!: consume_Inr split: if_splits)
next
  case (4 c n s e s')
  then show ?case
    using consume_live [of "fst c" n "snd c" s] by (cases c) (auto simp: nonce_con_def split: if_splits)
next
  case (5 s t)
  then show ?case by (rule live_cleanup)
qed (auto simp: nonce_gen_def nonce_con_def intro: wf_intros split: prod.splits)

abbreviation nonce_run :: "((nat \<Rightarrow> bytes option) \<times> instant \<times> u32, instant \<times> u32, instant, bytes) store_op list
    \<Rightarrow> NonceState \<Rightarrow> bytes store_event list \<times> NonceState" where
  "nonce_run \<equiv> store_run nonce_gen nonce_con cleanup_tick"

lemma nonce_run_inv: "nonce_inv s \<Longrightarrow> nonce_inv (snd (nonce_run xs s))"
proof (induction xs arbitrary: s)
  case (Cons x xs)
  have "nonce_inv (snd (store_step nonce_gen nonce_con cleanup_tick x s))"
    using Cons.prems ns.step_balance [of s x] by (metis prod.collapse)
  then show ?case using Cons.IH by (simp add: split_beta)
qed simp

text \<open>An entry stays until it is consumed or a cleanup finds it expired.\<close>

lemma get_issue_other: "n \<noteq> m \<Longrightarrow> hm_get (pending (issue m now uid s)) n = hm_get (pending s) n"
  by (simp add: issue_def store_simps)

fun op_spares :: "bytes \<Rightarrow> instant \<Rightarrow>
    ((nat \<Rightarrow> bytes option) \<times> instant \<times> u32, instant \<times> u32, instant, bytes) store_op \<Rightarrow> bool" where
  "op_spares n t (Generate a) = True"
| "op_spares n t (Consume c m) = (m \<noteq> n)"
| "op_spares n t (Tick now) = (now - t < NONCE_TTL)"

lemma step_spares:
  assumes "nonce_inv s" and "hm_get (pending s) n = Some (t, u)" and "op_spares n t x"
  shows "hm_get (pending (snd (store_step nonce_gen nonce_con cleanup_tick x s))) n = Some (t, u)"
proof (cases x)
  case (Generate a)
  obtain rng now uid where a: "a = (rng, now, uid)" by (cases a)
  show ?thesis
  proof (cases "generate rng now uid s")
    case (Pair r s')
    show ?thesis
    proof (cases r)
      case (Inl e)
      then show ?thesis
        using assms Generate a Pair generate_Inl [of rng now uid s e s'] by (simp add: nonce_gen_def)
    next
      case (Inr m)
      then have "hm_get (pending s) m = None" "s' = issue m now uid s"
        using Pair generate_Inr [OF assms(1), of rng now uid m s'] by auto
      then show ?thesis
        using assms(2) Inr Generate a Pair get_issue_other [of n m]
        by (cases "n = m") (auto simp: nonce_gen_def)
    qed
  qed
next
  case (Consume c m)
  then show ?thesis
    using assms by (cases c) (auto simp: nonce_con_def consume_def pending_drop store_simps
        split: option.splits)
next
  case (Tick now)
  then show ?thesis
    using assms get_pending_cleanup [of s now n]
    by (cases "nonce_poisoned s") (auto simp: nonce_inv_def cleanup_tick_def)
qed

lemma run_spares:
  assumes "nonce_inv s" and "hm_get (pending s) n = Some (t, u)" and "\<forall>x\<in>set xs. op_spares n t x"
  shows "hm_get (pending (snd (nonce_run xs s))) n = Some (t, u)"
  using assms
proof (induction xs arbitrary: s)
  case (Cons x xs)
  have "nonce_inv (snd (store_step nonce_gen nonce_con cleanup_tick x s))"
    using Cons.prems ns.step_balance [of s x] by (metis prod.collapse)
  then show ?case using Cons step_spares [of s n t u x] by (simp add: split_beta)
qed simp

lemma poisoned_issue [simp]: "nonce_poisoned (issue n now uid s) = nonce_poisoned s"
  by (simp add: issue_def)

lemma poisoned_generate [simp]: "nonce_poisoned (snd (generate rng now uid s)) = nonce_poisoned s"
proof -
  have "nonce_poisoned (snd (generate_loop 16 0 rng now uid s)) = nonce_poisoned s"
    using generate_loop_cases [of 16 0 rng now uid s] by (metis poisoned_issue prod.collapse)
  then show ?thesis by (simp add: generate_def)
qed

lemma poisoned_consume [simp]: "nonce_poisoned (snd (consume now n uid s)) = nonce_poisoned s"
  by (auto simp: consume_def split: option.splits)

lemma poisoned_cleanup [simp]: "nonce_poisoned (cleanup_tick now s) = nonce_poisoned s"
proof -
  have "nonce_poisoned (foldl (\<lambda>s n. drop_nonce n s) s ns) = nonce_poisoned s" for ns
    by (induction ns arbitrary: s) simp_all
  then show ?thesis by (simp add: cleanup_tick_def)
qed

lemma generate_first:
  "rng 0 = Some n \<Longrightarrow> hm_get (pending s) n = None \<Longrightarrow>
     generate_loop 16 0 rng now uid s = (Inr n, issue n now uid s)"
  by (simp add: numeral_eq_Suc)

lemma poisoned_run: "nonce_poisoned (snd (nonce_run xs s)) = nonce_poisoned s"
proof (induction xs arbitrary: s)
  case (Cons x xs)
  have "nonce_poisoned (snd (store_step nonce_gen nonce_con cleanup_tick x s)) = nonce_poisoned s"
    by (auto simp: store_step_snd nonce_gen_def nonce_con_def split: store_op.splits prod.splits)
  with Cons show ?case by (simp add: split_beta)
qed simp

section \<open>Properties\<close>

text \<open>C11: In every run of the store from its creation, in any interleaving of \<open>generate\<close>,
  \<open>consume\<close> and cleanup rounds, a nonce is honoured at most as often as it was issued: a
  captured result cannot be replayed.\<close>

theorem nonce_no_replay:
  "count_list (fst (nonce_run xs new_nonce_state)) (Honoured n)
     \<le> count_list (fst (nonce_run xs new_nonce_state)) (Issued n)"
proof -
  obtain evs s where r: "nonce_run xs new_nonce_state = (evs, s)"
    by (cases "nonce_run xs new_nonce_state")
  have "n \<notin> live_nonces new_nonce_state"
    by (simp add: live_nonces_def new_nonce_state_def)
  with ns.run_balance [OF nonce_inv_new r, of n] r show ?thesis by simp
qed

text \<open>Every reachable store keeps both limits, 1024 pending nonces and 32 per uid, and the
  per-uid counters are exactly the numbers of pending nonces, with no counter left at zero.\<close>

theorem nonce_store_limits:
  fixes xs :: "((nat \<Rightarrow> bytes option) \<times> instant \<times> u32, instant \<times> u32, instant, bytes) store_op list"
  defines "s \<equiv> snd (nonce_run xs new_nonce_state)"
  shows "hm_len (pending s) \<le> 1024 \<and> uid_pending uid s \<le> 32 \<and>
    hm_get (pending_per_uid s) uid =
      (if uid_pending uid s = 0 then None else Some (uid_pending uid s))"
  using nonce_run_inv [OF nonce_inv_new, of xs]
  by (simp add: s_def nonce_inv_def counts_agree_def MAX_PENDING_NONCES_def
      MAX_PENDING_NONCES_PER_UID_def)

text \<open>Any call of \<open>consume\<close> spends the nonce, whatever it returns (wrong uid and expiry
  included): no later sequence of operations honours it unless it is issued anew.\<close>

theorem consume_spends_nonce:
  assumes "nonce_inv s" and "\<not> nonce_poisoned s"
    and "Issued n \<notin> set (fst (nonce_run xs (snd (consume now n uid s))))"
  shows "Honoured n \<notin> set (fst (nonce_run xs (snd (consume now n uid s))))"
proof (rule ns.run_dead)
  show "nonce_inv (snd (consume now n uid s))" using assms(1) by (rule nonce_inv_consume)
  show "nonce_run xs (snd (consume now n uid s)) =
      (fst (nonce_run xs (snd (consume now n uid s))), snd (nonce_run xs (snd (consume now n uid s))))"
    by simp
  show "n \<notin> live_nonces (snd (consume now n uid s))" using assms(2) by (simp add: consume_live)
  show "Issued n \<notin> set (fst (nonce_run xs (snd (consume now n uid s))))" by (rule assms(3))
qed

definition sample_nonces :: NonceState where
  "sample_nonces = issue [7] 0 1000 new_nonce_state"

lemma sample_nonces_inv: "nonce_inv sample_nonces"
  unfolding sample_nonces_def
  by (rule nonce_inv_issue)
     (simp_all add: nonce_inv_new, simp_all add: new_nonce_state_def MAX_PENDING_NONCES_def
       MAX_PENDING_NONCES_PER_UID_def uid_pending_def)

theorem consume_spends_nonce_witness:
  "Honoured [7] \<notin> set (fst (nonce_run [Consume (2, 1000) [7]] (snd (consume 1 [7] 1001 sample_nonces))))"
  by (rule consume_spends_nonce [OF sample_nonces_inv])
     (simp_all add: sample_nonces_def issue_def new_nonce_state_def consume_def drop_nonce_def
       nonce_con_def store_simps NONCE_TTL_def)

text \<open>C32: A nonce the store issued is not lost: after any run of other operations that does
  not consume it and whose cleanup rounds come before its 30 seconds are over, the uid it was
  issued to can still consume it within those 30 seconds.\<close>

theorem issued_nonce_survives:
  assumes "nonce_inv s" and "generate rng t uid s = (Inr n, s1)"
    and "\<forall>x\<in>set xs. op_spares n t x" and "now - t \<le> NONCE_TTL"
  shows "fst (consume now n uid (snd (nonce_run xs s1))) = Inr ()"
proof -
  have g: "s1 = issue n t uid s" "\<not> nonce_poisoned s" and inv: "nonce_inv s1"
    using generate_Inr [OF assms(1,2)] nonce_inv_generate [OF assms(1), of rng t uid] assms(2)
    by auto
  have "hm_get (pending s1) n = Some (t, uid)"
    by (simp add: g(1) issue_def store_simps)
  from run_spares [OF inv this assms(3)]
  show ?thesis using assms(4) g poisoned_run [of xs s1] by (auto simp: consume_def)
qed

theorem issued_nonce_survives_witness:
  "fst (consume 100 [7] 1000 (snd (nonce_run [Tick 50, Consume (60, 1000) [8]]
     (snd (generate (\<lambda>_. Some [7]) 0 1000 new_nonce_state))))) = Inr ()"
proof (rule issued_nonce_survives [OF nonce_inv_new, of "\<lambda>_. Some [7]" 0 1000 "[7]"])
  show "generate (\<lambda>_. Some [7]) 0 1000 new_nonce_state =
      (Inr [7], snd (generate (\<lambda>_. Some [7]) 0 1000 new_nonce_state))"
    by (simp add: generate_def generate_first new_nonce_state_def MAX_PENDING_NONCES_def
        MAX_PENDING_NONCES_PER_UID_def)
qed (simp_all add: NONCE_TTL_def)

text \<open>A cleanup round of an unpoisoned store removes exactly the nonces that are at least
  30 seconds old and keeps every other entry unchanged.\<close>

theorem cleanup_removes_exactly_expired:
  assumes "nonce_inv s" and "\<not> nonce_poisoned s"
  shows "hm_get (pending (cleanup_tick now s)) n =
    (case hm_get (pending s) n of
       None \<Rightarrow> None
     | Some (t, u) \<Rightarrow> if from_secs 30 \<le> now - t then None else Some (t, u))"
  using assms get_pending_cleanup [of s now n]
  by (auto simp: nonce_inv_def NONCE_TTL_def split: option.splits)

theorem cleanup_removes_exactly_expired_witness:
  "hm_get (pending (cleanup_tick (from_secs 31) sample_nonces)) [7] = None"
  using cleanup_removes_exactly_expired [OF sample_nonces_inv, of "from_secs 31" "[7]"]
  by (simp add: sample_nonces_def issue_def new_nonce_state_def store_simps)

end
