(* ===== verification/Rate_Limit.thy ===== *)
theory Rate_Limit
  imports Hash_Map
begin

text \<open>
  The per-uid rate limiter of \<open>security/rate_limit.rs\<close>. The record holds the table under the
  mutex, its cap and the mutex's poisoning; \<open>check\<close> and \<open>cleanup_stale\<close> are one critical
  section each, with the clock reading they took as an argument. The theorems bound what a uid
  can get admitted over any interval of one window, and the size of the table.
\<close>

definition MAX_TRACKED_UIDS :: nat where
  "MAX_TRACKED_UIDS = 4096"

definition RATE_WINDOW :: duration where
  "RATE_WINDOW = from_secs 1"

definition STALE_AFTER :: duration where
  "STALE_AFTER = from_secs 60"

record RateEntry =
  last_reset :: instant
  re_count :: u32

record RateLimiter =
  limits :: "(u32, RateEntry) hmap"
  max_tracked_uids :: nat
  limits_poisoned :: bool

definition with_max_tracked_uids :: "nat \<Rightarrow> RateLimiter" where
  "with_max_tracked_uids n = \<lparr>limits = [], max_tracked_uids = n, limits_poisoned = False\<rparr>"

definition new_limiter :: RateLimiter where
  "new_limiter = with_max_tracked_uids MAX_TRACKED_UIDS"

section \<open>Operations\<close>

definition cleanup_stale_locked :: "instant \<Rightarrow> (u32, RateEntry) hmap \<Rightarrow> (u32, RateEntry) hmap" where
  "cleanup_stale_locked now m = hm_retain (\<lambda>_ entry. now - last_reset entry < STALE_AFTER) m"

definition cleanup_stale :: "instant \<Rightarrow> RateLimiter \<Rightarrow> RateLimiter" where
  "cleanup_stale now l =
     (if limits_poisoned l then l else l\<lparr>limits := cleanup_stale_locked now (limits l)\<rparr>)"

definition bump :: "instant \<Rightarrow> RateEntry \<Rightarrow> RateEntry" where
  "bump now e =
     (let e' = (if RATE_WINDOW < now - last_reset e then \<lparr>last_reset = now, re_count = 0\<rparr> else e)
      in e'\<lparr>re_count := saturating_add_u32 (re_count e') 1\<rparr>)"

definition check :: "instant \<Rightarrow> u32 \<Rightarrow> u32 \<Rightarrow> RateLimiter \<Rightarrow> bool \<times> RateLimiter" where
  "check now uid max_per_sec l =
     (if limits_poisoned l then (False, l)
      else
        let full = hm_get (limits l) uid = None \<and> max_tracked_uids l \<le> hm_len (limits l);
            m = (if full then cleanup_stale_locked now (limits l) else limits l)
        in if full \<and> max_tracked_uids l \<le> hm_len m then (False, l\<lparr>limits := m\<rparr>)
           else
             let entry = (case hm_get m uid of
                            Some e \<Rightarrow> e | None \<Rightarrow> \<lparr>last_reset = now, re_count = 0\<rparr>);
                 entry' = bump now entry
             in (re_count entry' \<le> max_per_sec, l\<lparr>limits := hm_insert uid entry' m\<rparr>))"

section \<open>Invariant\<close>

definition limiter_inv :: "RateLimiter \<Rightarrow> bool" where
  "limiter_inv l \<longleftrightarrow> hm_inv (limits l) \<and> hm_len (limits l) \<le> max_tracked_uids l"

lemma limiter_inv_new [wf_intros]: "limiter_inv (with_max_tracked_uids n)"
  by (simp add: limiter_inv_def with_max_tracked_uids_def)

lemma limiter_inv_cleanup [wf_intros]: "limiter_inv l \<Longrightarrow> limiter_inv (cleanup_stale now l)"
  using hm.len_retain [of _ "limits l"]
  by (auto simp: limiter_inv_def cleanup_stale_def cleanup_stale_locked_def intro: wf_intros le_trans)

lemma max_tracked_check [simp]: "max_tracked_uids (snd (check now uid mx l)) = max_tracked_uids l"
  by (simp add: check_def Let_def)

lemma max_tracked_cleanup [simp]: "max_tracked_uids (cleanup_stale now l) = max_tracked_uids l"
  by (simp add: cleanup_stale_def)

lemma limiter_inv_check [wf_intros]:
  assumes "limiter_inv l"
  shows "limiter_inv (snd (check now uid mx l))"
proof -
  have inv: "hm_inv (limits l)" "hm_inv (cleanup_stale_locked now (limits l))"
    using assms by (auto simp: limiter_inv_def cleanup_stale_locked_def intro: wf_intros)
  have le: "hm_len (cleanup_stale_locked now (limits l)) \<le> max_tracked_uids l"
    using assms hm.len_retain [of _ "limits l"]
    by (auto simp: limiter_inv_def cleanup_stale_locked_def intro: le_trans)
  show ?thesis
    using assms inv le
    by (auto simp: check_def Let_def limiter_inv_def hm.len_insert intro: wf_intros)
qed

section \<open>What one operation does to one uid\<close>

datatype rate_op = Check instant u32 | Cleanup instant

fun op_time :: "rate_op \<Rightarrow> instant" where
  "op_time (Check now _) = now"
| "op_time (Cleanup now) = now"

fun rate_step :: "u32 \<Rightarrow> rate_op \<Rightarrow> RateLimiter \<Rightarrow> bool \<times> RateLimiter" where
  "rate_step mx (Check now uid) l = check now uid mx l"
| "rate_step mx (Cleanup now) l = (False, cleanup_stale now l)"

fun op_uid :: "rate_op \<Rightarrow> u32 option" where
  "op_uid (Check _ uid) = Some uid"
| "op_uid (Cleanup _) = None"

text \<open>The times at which the calls of \<open>check\<close> for one uid returned \<open>true\<close>.\<close>

fun admitted :: "u32 \<Rightarrow> u32 \<Rightarrow> rate_op list \<Rightarrow> RateLimiter \<Rightarrow> instant list" where
  "admitted mx u [] l = []"
| "admitted mx u (x # xs) l =
     (let (ok, l') = rate_step mx x l
      in (if ok \<and> op_uid x = Some u then [op_time x] else []) @ admitted mx u xs l')"

fun rate_run :: "u32 \<Rightarrow> rate_op list \<Rightarrow> RateLimiter \<Rightarrow> RateLimiter" where
  "rate_run mx [] l = l"
| "rate_run mx (x # xs) l = rate_run mx xs (snd (rate_step mx x l))"

lemma limiter_inv_step [wf_intros]: "limiter_inv l \<Longrightarrow> limiter_inv (snd (rate_step mx x l))"
  by (cases x) (simp_all add: wf_intros)

lemma limiter_inv_run: "limiter_inv l \<Longrightarrow> limiter_inv (rate_run mx xs l)"
  by (induction xs arbitrary: l) (simp_all add: wf_intros)

lemma max_tracked_run: "max_tracked_uids (rate_run mx xs l) = max_tracked_uids l"
proof (induction xs arbitrary: l)
  case (Cons x xs)
  then show ?case by (cases x) simp_all
qed simp

lemma get_cleanup_locked:
  "hm_inv m \<Longrightarrow> hm_get (cleanup_stale_locked now m) u =
     (case hm_get m u of None \<Rightarrow> None
      | Some e \<Rightarrow> if now - last_reset e < STALE_AFTER then Some e else None)"
  by (simp add: cleanup_stale_locked_def store_simps)

abbreviation slot :: "u32 \<Rightarrow> RateLimiter \<Rightarrow> RateEntry option" where
  "slot u l \<equiv> hm_get (limits l) u"

lemma bump_within: "now - last_reset e \<le> RATE_WINDOW \<Longrightarrow>
    last_reset (bump now e) = last_reset e \<and>
    unat (re_count (bump now e)) = min (unat (re_count e) + 1) (2 ^ 32 - 1)"
  by (simp add: bump_def unat_saturating_add_u32)

lemma bump_after: "RATE_WINDOW < now - last_reset e \<Longrightarrow>
    last_reset (bump now e) = now \<and> unat (re_count (bump now e)) = 1"
  by (simp add: bump_def unat_saturating_add_u32)

lemma bump_new: "last_reset (bump now \<lparr>last_reset = now, re_count = 0\<rparr>) = now \<and>
    unat (re_count (bump now \<lparr>last_reset = now, re_count = 0\<rparr>)) = 1"
  by (simp add: bump_def unat_saturating_add_u32)

lemma rate_step_cases:
  assumes "limiter_inv l" and "rate_step mx x l = (ok, l')"
  obtains
    (same) "slot u l' = slot u l" "\<not> (ok \<and> op_uid x = Some u)"
  | (stale) e where "slot u l = Some e" "STALE_AFTER \<le> op_time x - last_reset e"
      "slot u l' = None" "\<not> (ok \<and> op_uid x = Some u)"
  | (window) e where
      "case slot u l of None \<Rightarrow> True | Some d \<Rightarrow> RATE_WINDOW < op_time x - last_reset d"
      "slot u l' = Some e" "last_reset e = op_time x" "unat (re_count e) = 1"
      "op_uid x = Some u" "ok \<longleftrightarrow> 1 \<le> unat mx"
  | (count) d e where "slot u l = Some d" "op_time x - last_reset d \<le> RATE_WINDOW"
      "slot u l' = Some e" "last_reset e = last_reset d"
      "unat (re_count e) = min (unat (re_count d) + 1) (2 ^ 32 - 1)"
      "op_uid x = Some u" "ok \<longleftrightarrow> unat (re_count e) \<le> unat mx"
proof (cases "\<exists>now. x = Check now u")
  case False
  have inv: "hm_inv (limits l)" using assms(1) by (simp add: limiter_inv_def)
  have other: "op_uid x \<noteq> Some u" using False by (cases x) auto
  have "slot u l' = slot u l \<or> slot u l' = hm_get (cleanup_stale_locked (op_time x) (limits l)) u"
    using assms(2) False by (cases x) (auto simp: check_def cleanup_stale_def Let_def store_simps
        split: if_splits)
  with other show ?thesis
    using that(1,2) by (auto simp: get_cleanup_locked [OF inv] split: option.splits if_splits)
next
  case True
  then obtain now where x: "x = Check now u" by auto
  have inv: "hm_inv (limits l)" using assms(1) by (simp add: limiter_inv_def)
  show ?thesis
  proof (cases "slot u l")
    case None
    then show ?thesis
      using assms(2) that(1,3) bump_new [of now] x
      by (auto simp: check_def Let_def get_cleanup_locked [OF inv] store_simps word_le_nat_alt
          split: if_splits)
  next
    case (Some d)
    then have r: "ok \<longleftrightarrow> re_count (bump now d) \<le> mx" "slot u l' = Some (bump now d)" if "\<not> limits_poisoned l"
      using assms(2) x that by (auto simp: check_def Let_def store_simps)
    show ?thesis
    proof (cases "limits_poisoned l")
      case True
      then show ?thesis using assms(2) that(1) x by (auto simp: check_def)
    next
      case False
      from r [OF False] show ?thesis
        using Some x that(3) [OF _ r(2) [OF False]] that(4) [OF Some _ r(2) [OF False]]
          bump_within [of now d] bump_after [of now d]
        by (cases "now - last_reset d \<le> RATE_WINDOW") (auto simp: word_le_nat_alt)
    qed
  qed
qed

section \<open>Counting over an interval\<close>

definition hits :: "instant \<Rightarrow> u32 \<Rightarrow> u32 \<Rightarrow> rate_op list \<Rightarrow> RateLimiter \<Rightarrow> nat" where
  "hits a mx u xs l = length (filter (\<lambda>t. a \<le> t \<and> t \<le> a + RATE_WINDOW) (admitted mx u xs l))"

lemma hits_Nil [simp]: "hits a mx u [] l = 0"
  by (simp add: hits_def)

lemma hits_Cons: "rate_step mx x l = (ok, l') \<Longrightarrow> hits a mx u (x # xs) l =
    of_bool (ok \<and> op_uid x = Some u \<and> a \<le> op_time x \<and> op_time x \<le> a + RATE_WINDOW) +
    hits a mx u xs l'"
  by (auto simp: hits_def)

lemma hits_snoc: "hits a mx u (xs @ [x]) l = hits a mx u xs l +
    of_bool (fst (rate_step mx x (rate_run mx xs l)) \<and> op_uid x = Some u \<and> a \<le> op_time x \<and>
      op_time x \<le> a + RATE_WINDOW)"
proof (induction xs arbitrary: l)
  case Nil
  then show ?case by (auto simp: hits_def split_beta)
next
  case (Cons y xs)
  obtain ok l' where "rate_step mx y l = (ok, l')" by (cases "rate_step mx y l")
  then show ?case using Cons by (simp add: hits_Cons)
qed

lemma rate_run_snoc [simp]: "rate_run mx (xs @ [x]) l = snd (rate_step mx x (rate_run mx xs l))"
  by (induction xs arbitrary: l) simp_all

lemma hits_late: "\<forall>x\<in>set xs. a + RATE_WINDOW < op_time x \<Longrightarrow> hits a mx u xs l = 0"
proof (induction xs arbitrary: l)
  case (Cons x xs)
  obtain ok l' where "rate_step mx x l = (ok, l')" by (cases "rate_step mx x l")
  with Cons show ?case by (simp add: hits_Cons)
qed simp

text \<open>A window that opened inside the interval: what is left of its budget bounds the rest.\<close>

lemma hits_window_inside:
  assumes "limiter_inv l" and "sorted (map op_time xs)" and "unat mx < 2 ^ 32 - 1"
    and "slot u l = Some e" and "a \<le> last_reset e"
  shows "hits a mx u xs l \<le> unat mx - unat (re_count e)"
  using assms
proof (induction xs arbitrary: l e)
  case (Cons x xs)
  obtain ok l' where st: "rate_step mx x l = (ok, l')" by (cases "rate_step mx x l")
  have inv: "limiter_inv l'" using limiter_inv_step [OF Cons.prems(1), of mx x] st by simp
  have later: "\<forall>y\<in>set xs. op_time x \<le> op_time y" using Cons.prems(2) by auto
  note IH = Cons.IH [OF inv _ Cons.prems(3)]
  have gone: "hits a mx u (x # xs) l = 0" if "RATE_WINDOW < op_time x - last_reset e"
    using that later Cons.prems(5) by (intro hits_late) auto
  from Cons.prems(1) st show ?case
  proof (cases rule: rate_step_cases [where u = u])
    case same
    then show ?thesis using IH [of e] Cons.prems by (auto simp: hits_Cons [OF st])
  next
    case (stale d)
    then show ?thesis using gone Cons.prems(4) by (simp add: STALE_AFTER_def RATE_WINDOW_def)
  next
    case (window d)
    then show ?thesis using gone Cons.prems(4) by simp
  next
    case (count d d')
    then have "hits a mx u xs l' \<le> unat mx - unat (re_count d')"
      using IH [of d'] Cons.prems by simp
    then show ?thesis
      using count Cons.prems(3,4) by (simp add: hits_Cons [OF st]) linarith
  qed
qed simp

text \<open>From the start of the interval on: the rest of the old window and one new window.\<close>

lemma hits_window_before:
  assumes "limiter_inv l" and "sorted (map op_time xs)" and "unat mx < 2 ^ 32 - 1"
    and "\<forall>x\<in>set xs. a \<le> op_time x"
  shows "hits a mx u xs l \<le>
    (case slot u l of None \<Rightarrow> 0 | Some e \<Rightarrow> unat mx - unat (re_count e)) + unat mx"
  using assms
proof (induction xs arbitrary: l)
  case (Cons x xs)
  obtain ok l' where st: "rate_step mx x l = (ok, l')" by (cases "rate_step mx x l")
  have inv: "limiter_inv l'" using limiter_inv_step [OF Cons.prems(1), of mx x] st by simp
  have IH: "hits a mx u xs l' \<le>
    (case slot u l' of None \<Rightarrow> 0 | Some e \<Rightarrow> unat mx - unat (re_count e)) + unat mx"
    using Cons.IH [OF inv] Cons.prems by simp
  from Cons.prems(1) st show ?case
  proof (cases rule: rate_step_cases [where u = u])
    case same
    then show ?thesis using IH by (auto simp: hits_Cons [OF st])
  next
    case (stale d)
    then show ?thesis using IH by (auto simp: hits_Cons [OF st])
  next
    case (window d)
    then have "hits a mx u xs l' \<le> unat mx - 1"
      using hits_window_inside [OF inv _ Cons.prems(3), of xs u d a] Cons.prems by simp
    then show ?thesis using window by (auto simp: hits_Cons [OF st])
  next
    case (count d d')
    then show ?thesis
      using IH Cons.prems(3) by (simp add: hits_Cons [OF st]) linarith
  qed
qed simp

lemma hits_bound:
  assumes "limiter_inv l" and "sorted (map op_time xs)" and "unat mx < 2 ^ 32 - 1"
  shows "hits a mx u xs l \<le> 2 * unat mx"
  using assms
proof (induction xs arbitrary: l)
  case (Cons x xs)
  obtain ok l' where st: "rate_step mx x l = (ok, l')" by (cases "rate_step mx x l")
  have inv: "limiter_inv l'" using limiter_inv_step [OF Cons.prems(1), of mx x] st by simp
  show ?case
  proof (cases "a \<le> op_time x")
    case True
    then have "\<forall>y\<in>set (x # xs). a \<le> op_time y" using Cons.prems(2) by auto
    from hits_window_before [OF Cons.prems this, of u] show ?thesis
      by (simp split: option.splits)
  next
    case False
    then show ?thesis using Cons.IH [OF inv] Cons.prems by (simp add: hits_Cons [OF st])
  qed
qed simp

section \<open>Properties\<close>

text \<open>In any run whose clock readings are in order, and for every interval of one window
  (one second), at most twice \<open>max_per_sec\<close> calls of one uid are admitted, whatever other uids
  and the cleanup do in between; for a budget below the saturation value of the counter.\<close>

theorem admitted_per_interval:
  assumes "sorted (map op_time xs)" and "unat mx < 2 ^ 32 - 1"
  shows "length (filter (\<lambda>t. a \<le> t \<and> t \<le> a + from_secs 1)
      (admitted mx u xs (with_max_tracked_uids n))) \<le> 2 * unat mx"
  using hits_bound [OF limiter_inv_new assms, where a = a and u = u]
  by (simp add: hits_def RATE_WINDOW_def)

theorem admitted_per_interval_witness:
  "length (filter (\<lambda>t. 5 \<le> t \<and> t \<le> 5 + from_secs 1)
      (admitted 1 1000 [Check 5 1000, Check 6 1000, Cleanup 7] (with_max_tracked_uids 4096))) \<le> 2"
  using admitted_per_interval [of "[Check 5 1000, Check 6 1000, Cleanup 7]" 1 5 1000 4096] by simp

text \<open>The table never holds more uids than its cap, 4096 for the limiter the daemon
  creates, in any sequence of checks and cleanup rounds.\<close>

theorem limiter_table_bounded: "hm_len (limits (rate_run mx xs new_limiter)) \<le> 4096"
  using limiter_inv_run [OF limiter_inv_new, of mx xs MAX_TRACKED_UIDS]
    max_tracked_run [of mx xs new_limiter]
  by (simp add: limiter_inv_def new_limiter_def with_max_tracked_uids_def MAX_TRACKED_UIDS_def)

text \<open>A uid whose window is over, or that has no slot while the table has room, gets its
  next call admitted as soon as the budget is at least one: the limiter never locks a uid out
  for good.\<close>

theorem check_admits_after_window:
  assumes "\<not> limits_poisoned l" and "1 \<le> unat mx"
    and "case slot uid l of None \<Rightarrow> hm_len (limits l) < max_tracked_uids l
         | Some e \<Rightarrow> from_secs 1 < now - last_reset e"
  shows "fst (check now uid mx l)"
proof (cases "slot uid l")
  case None
  then show ?thesis
    using assms bump_new [of now] by (simp add: check_def Let_def word_le_nat_alt)
next
  case (Some e)
  then show ?thesis
    using assms bump_after [of now e] by (simp add: check_def Let_def word_le_nat_alt RATE_WINDOW_def)
qed

theorem check_admits_after_window_witness:
  "fst (check (from_secs 3) 1000 1 (snd (check 0 1000 1 new_limiter)))"
  by (rule check_admits_after_window)
     (simp_all add: check_def new_limiter_def with_max_tracked_uids_def MAX_TRACKED_UIDS_def
       bump_def saturating_add_u32_def store_simps)

end
