(* ===== verification/Audit_Entry.thy ===== *)
theory Audit_Entry
  imports Core_Types
begin

text \<open>
  Audit entries and their hash input, \<open>infrastructure/audit/entry.rs\<close> and \<open>hex.rs\<close>. The
  hashed payload is a sequence of self-delimiting fields; the main lemma is that it determines
  every field of the entry except \<open>entry_hash\<close>, so that the only way to change an entry under
  its hash is a collision of SHA-256, which is the argument \<open>sha256\<close>. The clock is an argument
  of the constructors.
\<close>

section \<open>Hexadecimal\<close>

definition HEX :: string where
  "HEX = ''0123456789abcdef''"

definition encode_hex :: "bytes \<Rightarrow> string" where
  "encode_hex bs = concat (map (\<lambda>b. [HEX ! unat (drop_bit 4 b), HEX ! unat (b AND 15)]) bs)"

definition hex_sha256 :: "(bytes \<Rightarrow> bytes) \<Rightarrow> string \<Rightarrow> string" where
  "hex_sha256 sha256 input = encode_hex (sha256 (as_bytes input))"

definition lower_hex_char :: "char \<Rightarrow> bool" where
  "lower_hex_char c \<longleftrightarrow> (48 \<le> code c \<and> code c \<le> 57) \<or> (97 \<le> code c \<and> code c \<le> 102)"

definition is_lower_hex_hash :: "string \<Rightarrow> bool" where
  "is_lower_hex_hash v \<longleftrightarrow> length v = 64 \<and> list_all lower_hex_char v"

definition ZERO_HASH :: string where
  "ZERO_HASH = replicate 64 CHR ''0''"

text \<open>\<open>format!("{:08x}", bits)\<close>\<close>

fun hex_digits :: "nat \<Rightarrow> nat \<Rightarrow> string" where
  "hex_digits 0 n = []"
| "hex_digits (Suc k) n = hex_digits k (n div 16) @ [HEX ! (n mod 16)]"

section \<open>Entries\<close>

record AuditEntry =
  ae_ts_ms :: u64
  ae_request_id :: "string option"
  ae_caller_uid :: u32
  ae_uid :: u32
  ae_adapter_name :: "string option"
  ae_method :: string
  ae_decision :: string
  ae_deny_reason :: "string option"
  ae_confidence :: f32
  ae_evidence_hash :: string
  ae_nonce_prefix :: string
  ae_prev_hash :: string
  ae_entry_hash :: string

definition HASH_PAYLOAD_V1_PREFIX :: string where
  "HASH_PAYLOAD_V1_PREFIX = ''OLA-AUDIT-HASH-V1'' @ [newline]"

definition push_bytes :: "string \<Rightarrow> char \<Rightarrow> string \<Rightarrow> string" where
  "push_bytes name tag value =
     name @ '':'' @ [tag] @ '':'' @ nat_to_string (length value) @ '':'' @ value @ [newline]"

definition push_value :: "string \<Rightarrow> string \<Rightarrow> string" where
  "push_value name value = push_bytes name (CHR ''v'') value"

definition push_str :: "string \<Rightarrow> string \<Rightarrow> string" where
  "push_str name value = push_bytes name (CHR ''v'') value"

definition push_opt :: "string \<Rightarrow> string option \<Rightarrow> string" where
  "push_opt name value =
     (case value of
        Some v \<Rightarrow> push_bytes name (CHR ''s'') v
      | None \<Rightarrow> push_bytes name (CHR ''n'') [])"

definition hash_payload_v1 :: "AuditEntry \<Rightarrow> string" where
  "hash_payload_v1 e =
     HASH_PAYLOAD_V1_PREFIX @
     push_value ''ts_ms'' (nat_to_string (unat (ae_ts_ms e))) @
     push_opt ''request_id'' (ae_request_id e) @
     push_value ''caller_uid'' (nat_to_string (unat (ae_caller_uid e))) @
     push_value ''uid'' (nat_to_string (unat (ae_uid e))) @
     push_opt ''adapter_name'' (ae_adapter_name e) @
     push_str ''method'' (ae_method e) @
     push_str ''decision'' (ae_decision e) @
     push_opt ''deny_reason'' (ae_deny_reason e) @
     push_value ''confidence'' (hex_digits 8 (unat (ae_confidence e))) @
     push_str ''evidence_hash'' (ae_evidence_hash e) @
     push_str ''nonce_prefix'' (ae_nonce_prefix e) @
     push_str ''prev_hash'' (ae_prev_hash e)"

definition result_fields :: "VerificationResult \<Rightarrow> f32 \<times> string \<times> string" where
  "result_fields result =
     (rs_confidence result, encode_hex (rs_evidence_hash result), encode_hex (take 8 (rs_nonce result)))"

definition deny_entry ::
  "u64 \<Rightarrow> u32 \<Rightarrow> u32 \<Rightarrow> string \<Rightarrow> string \<Rightarrow> string option \<Rightarrow> string option \<Rightarrow>
   VerificationResult option \<Rightarrow> AuditEntry" where
  "deny_entry now_ms caller_uid uid method reason adapter_name request_id result =
     (let (confidence, evidence_hash, nonce_prefix) =
            (case result of Some r \<Rightarrow> result_fields r | None \<Rightarrow> (f32_zero, [], []))
      in \<lparr>ae_ts_ms = now_ms, ae_request_id = request_id, ae_caller_uid = caller_uid, ae_uid = uid,
          ae_adapter_name = adapter_name, ae_method = method, ae_decision = ''deny'',
          ae_deny_reason = Some reason, ae_confidence = confidence,
          ae_evidence_hash = evidence_hash, ae_nonce_prefix = nonce_prefix,
          ae_prev_hash = [], ae_entry_hash = []\<rparr>)"

definition from_decision ::
  "(f32 \<Rightarrow> string) \<Rightarrow> u64 \<Rightarrow> AuthContext \<Rightarrow> PolicyDecision \<Rightarrow> u32 \<Rightarrow> string option \<Rightarrow>
   string option \<Rightarrow> AuditEntry" where
  "from_decision dbg now_ms context decision caller_uid adapter_name request_id =
     (let (verdict, deny_reason) = (case decision of
              Allow \<Rightarrow> (''allow'', None)
            | Deny reason \<Rightarrow> (''deny'', Some (debug_reason dbg reason)));
          (_, evidence_hash, nonce_prefix) = result_fields (ctx_result context)
      in \<lparr>ae_ts_ms = now_ms, ae_request_id = request_id, ae_caller_uid = caller_uid,
          ae_uid = ctx_uid context, ae_adapter_name = adapter_name, ae_method = ctx_method context,
          ae_decision = verdict, ae_deny_reason = deny_reason,
          ae_confidence = rs_confidence (ctx_result context),
          ae_evidence_hash = evidence_hash, ae_nonce_prefix = nonce_prefix,
          ae_prev_hash = [], ae_entry_hash = []\<rparr>)"

section \<open>The hexadecimal forms are injective\<close>

lemma length_HEX [simp]: "length HEX = 16"
  by (simp add: HEX_def)

lemma HEX_inj: "i < 16 \<Longrightarrow> j < 16 \<Longrightarrow> HEX ! i = HEX ! j \<longleftrightarrow> i = j"
  by (rule nth_eq_iff_index_eq) (simp_all add: HEX_def)

lemma HEX_lower: "i < 16 \<Longrightarrow> lower_hex_char (HEX ! i)"
proof -
  have "list_all lower_hex_char HEX" by (simp add: HEX_def lower_hex_char_def)
  then show "i < 16 \<Longrightarrow> lower_hex_char (HEX ! i)" by (simp add: list_all_length)
qed

lemma nibbles: "unat (drop_bit 4 (b :: u8)) = unat b div 16" "unat (b AND 15) = unat b mod 16"
proof -
  show "unat (drop_bit 4 b) = unat b div 16"
    by (simp add: drop_bit_eq_div unat_div)
  have "(15 :: u8) = mask 4" by (simp add: mask_eq_exp_minus_1)
  then have "b AND 15 = take_bit 4 b" by (simp only: take_bit_eq_mask)
  then show "unat (b AND 15) = unat b mod 16"
    by (simp add: take_bit_eq_mod unat_mod)
qed

lemma nibble_bounds: "unat (b :: u8) div 16 < 16" "unat (b :: u8) mod 16 < 16"
  using unsigned_less [where 'a = nat, of b] by simp_all

lemma encode_hex_simps [simp]:
  "encode_hex [] = []"
  "encode_hex (b # bs) = [HEX ! (unat b div 16), HEX ! (unat b mod 16)] @ encode_hex bs"
  by (simp_all add: encode_hex_def nibbles)

lemma length_encode_hex [simp]: "length (encode_hex bs) = 2 * length bs"
  by (induction bs) simp_all

lemma encode_hex_lower: "list_all lower_hex_char (encode_hex bs)"
  by (induction bs) (simp_all add: HEX_lower nibble_bounds)

lemma encode_hex_inj [simp]: "encode_hex a = encode_hex b \<longleftrightarrow> a = b"
proof (induction a arbitrary: b)
  case Nil
  then show ?case by (cases b) simp_all
next
  case (Cons x a)
  show ?case
  proof (cases b)
    case (Cons y c)
    have "unat x div 16 = unat y div 16 \<and> unat x mod 16 = unat y mod 16 \<longleftrightarrow> x = y"
      by (metis div_mult_mod_eq word_unat_eq_iff)
    then show ?thesis
      using Cons.IH [of c] Cons by (auto simp: HEX_inj nibble_bounds)
  qed simp
qed

lemma is_lower_hex_sha: "length (sha256 (as_bytes s)) = 32 \<Longrightarrow> is_lower_hex_hash (hex_sha256 sha256 s)"
  by (simp add: is_lower_hex_hash_def hex_sha256_def encode_hex_lower)

lemma is_lower_hex_zero [simp]: "is_lower_hex_hash ZERO_HASH"
  by (simp add: is_lower_hex_hash_def ZERO_HASH_def lower_hex_char_def list_all_iff)

lemma hex_digits_inj: "m < 16 ^ k \<Longrightarrow> n < 16 ^ k \<Longrightarrow> hex_digits k m = hex_digits k n \<longleftrightarrow> m = n"
proof (induction k arbitrary: m n)
  case (Suc k)
  have "m div 16 < 16 ^ k" "n div 16 < 16 ^ k"
    using Suc.prems by (simp_all add: less_mult_imp_div_less mult.commute)
  with Suc.IH show ?case
    by (auto simp: HEX_inj) (metis div_mult_mod_eq)
qed simp

section \<open>The payload determines the entry\<close>

lemma decimal_prefix_inj:
  assumes "nat_to_string m @ CHR '':'' # xs = nat_to_string n @ CHR '':'' # ys"
  shows "m = n \<and> xs = ys"
proof -
  have "takeWhile is_ascii_digit (nat_to_string k @ CHR '':'' # zs) = nat_to_string k" for k zs
    by (rule takeWhile_stop) (simp_all add: nat_to_string_digits, simp add: is_ascii_digit_def)
  then have "nat_to_string m = nat_to_string n" using assms by metis
  with assms show ?thesis by simp
qed

lemma push_bytes_inj:
  "push_bytes name t v @ r = push_bytes name t' v' @ r' \<longleftrightarrow> t = t' \<and> v = v' \<and> r = r'"
proof
  assume eq: "push_bytes name t v @ r = push_bytes name t' v' @ r'"
  then have t: "t = t'"
    and "nat_to_string (length v) @ CHR '':'' # (v @ newline # r) =
         nat_to_string (length v') @ CHR '':'' # (v' @ newline # r')"
    by (simp_all add: push_bytes_def)
  from decimal_prefix_inj [OF this(2)]
  have "length v = length v'" "v @ newline # r = v' @ newline # r'" by auto
  with t show "t = t' \<and> v = v' \<and> r = r'" by simp
qed auto

lemma push_value_inj: "push_value n v @ r = push_value n v' @ r' \<longleftrightarrow> v = v' \<and> r = r'"
  by (simp add: push_value_def push_bytes_inj)

lemma push_str_inj: "push_str n v @ r = push_str n v' @ r' \<longleftrightarrow> v = v' \<and> r = r'"
  by (simp add: push_str_def push_bytes_inj)

lemma push_str_inj_end: "push_str n v = push_str n v' \<longleftrightarrow> v = v'"
  using push_str_inj [of n v "[]" v' "[]"] by simp

lemma push_opt_inj: "push_opt n v @ r = push_opt n v' @ r' \<longleftrightarrow> v = v' \<and> r = r'"
  by (auto simp: push_opt_def push_bytes_inj split: option.splits)

lemmas push_injs = push_value_inj push_str_inj push_str_inj_end push_opt_inj

lemma confidence_hex_inj: "hex_digits 8 (unat (a :: f32)) = hex_digits 8 (unat b) \<longleftrightarrow> a = b"
proof -
  have "unat a < 16 ^ 8" "unat b < 16 ^ 8"
    using unsigned_less [where 'a = nat, of a] unsigned_less [where 'a = nat, of b] by simp_all
  then show ?thesis by (simp add: hex_digits_inj word_unat_eq_iff del: hex_digits.simps)
qed

lemma hash_payload_inj:
  "hash_payload_v1 e = hash_payload_v1 f \<longleftrightarrow> e\<lparr>ae_entry_hash := h\<rparr> = f\<lparr>ae_entry_hash := h\<rparr>"
  by (cases e; cases f)
     (simp add: hash_payload_v1_def push_injs confidence_hex_inj word_unat_eq_iff [symmetric])

lemma hash_payload_entry_hash [simp]: "hash_payload_v1 (e\<lparr>ae_entry_hash := h\<rparr>) = hash_payload_v1 e"
  by (simp add: hash_payload_v1_def)

end
