(* ===== verification/Audit_Log.thy ===== *)
theory Audit_Log
  imports Audit_Entry Secure_Fs
begin

text \<open>
  The audit log: \<open>infrastructure/audit/logger.rs\<close> (append with fsync, recovery of the chain at
  startup, reopening for rotation) and \<open>verifier.rs\<close> (the \<open>audit verify\<close> command). A file is
  the list of its bytes. serde_json is two arguments, \<open>to_json\<close> and \<open>from_json\<close>; a theorem that
  needs the round trip assumes it for the entries at hand (\<open>json_faithful\<close>). The write and the
  sync of one call may fail, and a failing write may leave a part of the line in the file. The
  locale \<open>hash_chain\<close> is the abstract chain the verifier implements.
\<close>

section \<open>Hash chains\<close>

text \<open>The chain over a list of links, started at a hash: its last hash, if every link is sound.\<close>

fun chain_from ::
  "('e \<Rightarrow> 'h) \<Rightarrow> ('e \<Rightarrow> 'h) \<Rightarrow> ('e \<Rightarrow> 'p) \<Rightarrow> ('p \<Rightarrow> 'h) \<Rightarrow> 'h \<Rightarrow> 'e list \<Rightarrow> 'h option" where
  "chain_from prev_of hash_of payload digest h [] = Some h"
| "chain_from prev_of hash_of payload digest h (e # es) =
     (if prev_of e = h \<and> hash_of e = digest (payload e)
      then chain_from prev_of hash_of payload digest (hash_of e) es else None)"

locale hash_chain =
  fixes prev_of :: "'e \<Rightarrow> 'h"
    and hash_of :: "'e \<Rightarrow> 'h"
    and payload :: "'e \<Rightarrow> 'p"
    and digest :: "'p \<Rightarrow> 'h"
  assumes payload_commits: "payload e = payload f \<Longrightarrow> hash_of e = hash_of f \<Longrightarrow> e = f"
begin

lemma chain_append:
  "chain_from prev_of hash_of payload digest h (xs @ ys) =
     (case chain_from prev_of hash_of payload digest h xs of
        None \<Rightarrow> None | Some k \<Rightarrow> chain_from prev_of hash_of payload digest k ys)"
  by (induction xs arbitrary: h) simp_all

lemma chain_snoc:
  "chain_from prev_of hash_of payload digest h (xs @ [e]) = Some k \<longleftrightarrow>
     chain_from prev_of hash_of payload digest h xs = Some (prev_of e) \<and>
     hash_of e = digest (payload e) \<and> k = hash_of e"
  by (auto simp: chain_append split: option.splits if_splits)

text \<open>Two chains of one length with one last hash are equal, or two of their links collide.\<close>

lemma chain_unique:
  assumes "length xs = length ys"
    and "chain_from prev_of hash_of payload digest h xs = Some k"
    and "chain_from prev_of hash_of payload digest h' ys = Some k"
  shows "xs = ys \<or> (\<exists>i<length xs. payload (xs ! i) \<noteq> payload (ys ! i) \<and>
           digest (payload (xs ! i)) = digest (payload (ys ! i)))"
  using assms
proof (induction xs arbitrary: ys k rule: rev_induct)
  case Nil
  then show ?case by simp
next
  case (snoc x xs)
  obtain zs y where ys: "ys = zs @ [y]" using snoc.prems(1) by (cases ys rule: rev_cases) auto
  have len: "length xs = length zs" using snoc.prems(1) ys by simp
  have x: "chain_from prev_of hash_of payload digest h xs = Some (prev_of x)"
      "hash_of x = digest (payload x)" "k = hash_of x"
    and y: "chain_from prev_of hash_of payload digest h' zs = Some (prev_of y)"
      "hash_of y = digest (payload y)" "k = hash_of y"
    using snoc.prems(2,3) ys by (auto simp: chain_snoc)
  show ?case
  proof (cases "payload x = payload y")
    case False
    with x y ys len show ?thesis by (intro disjI2 exI [of _ "length zs"]) (simp add: nth_append)
  next
    case True
    have "hash_of x = hash_of y" using x(3) y(3) by simp
    with True have "x = y" by (rule payload_commits)
    then have "xs = zs \<or> (\<exists>i<length xs. payload (xs ! i) \<noteq> payload (zs ! i) \<and>
        digest (payload (xs ! i)) = digest (payload (zs ! i)))"
      using snoc.IH [OF len x(1)] y(1) by simp
    then show ?thesis
    proof
      assume "\<exists>i<length xs. payload (xs ! i) \<noteq> payload (zs ! i) \<and>
          digest (payload (xs ! i)) = digest (payload (zs ! i))"
      then obtain i where "i < length xs" "payload (xs ! i) \<noteq> payload (zs ! i)"
          "digest (payload (xs ! i)) = digest (payload (zs ! i))" by blast
      then show ?thesis
        using ys len by (intro disjI2 exI [of _ i]) (simp add: nth_append)
    qed (simp add: ys \<open>x = y\<close>)
  qed
qed

end

interpretation audit: hash_chain ae_prev_hash ae_entry_hash hash_payload_v1 "hex_sha256 sha256"
  for sha256 :: "bytes \<Rightarrow> bytes"
proof unfold_locales
  show "hash_payload_v1 e = hash_payload_v1 f \<Longrightarrow> ae_entry_hash e = ae_entry_hash f \<Longrightarrow> e = f" for e f
    using hash_payload_inj [of e f "[]"] by (cases e; cases f) simp
qed

abbreviation audit_chain :: "(bytes \<Rightarrow> bytes) \<Rightarrow> string \<Rightarrow> AuditEntry list \<Rightarrow> string option" where
  "audit_chain sha256 \<equiv> chain_from ae_prev_hash ae_entry_hash hash_payload_v1 (hex_sha256 sha256)"

section \<open>The verifier\<close>

record AuditVerifyReport =
  rp_entries :: nat
  rp_last_hash :: string

datatype AuditVerifyError =
    VerifyOpen IoErrorKind | VerifyStat | VerifyNotRegular | VerifyRead
  | Incomplete nat | NotUtf8 nat | Malformed nat | InvalidPrevHash nat | InvalidEntryHash nat
  | PrevHashMismatch nat | EntryHashMismatch nat

definition verify_line ::
  "(string \<Rightarrow> AuditEntry option) \<Rightarrow> (bytes \<Rightarrow> bytes) \<Rightarrow> string \<Rightarrow> nat \<Rightarrow> string \<Rightarrow>
   AuditVerifyError + string" where
  "verify_line from_json sha256 prev_hash line_no buf =
     res_bind (map_err (\<lambda>_. NotUtf8 line_no) (from_utf8 buf)) (\<lambda>line.
     res_bind (ok_or (Malformed line_no) (from_json line)) (\<lambda>entry.
       if \<not> is_lower_hex_hash (ae_prev_hash entry) then Inl (InvalidPrevHash line_no)
       else if \<not> is_lower_hex_hash (ae_entry_hash entry) then Inl (InvalidEntryHash line_no)
       else if ae_prev_hash entry \<noteq> prev_hash then Inl (PrevHashMismatch line_no)
       else
         let entry_hash = ae_entry_hash entry;
             expected = hex_sha256 sha256 (hash_payload_v1 (entry\<lparr>ae_entry_hash := []\<rparr>))
         in if entry_hash \<noteq> expected then Inl (EntryHashMismatch line_no) else Inr entry_hash))"

function verify_loop ::
  "(string \<Rightarrow> AuditEntry option) \<Rightarrow> (bytes \<Rightarrow> bytes) \<Rightarrow> string \<Rightarrow> nat \<Rightarrow> nat \<Rightarrow> string \<Rightarrow>
   AuditVerifyError + AuditVerifyReport" where
  "verify_loop from_json sha256 prev_hash entries line_no content =
     (if content = [] then Inr \<lparr>rp_entries = entries, rp_last_hash = prev_hash\<rparr>
      else case dropWhile (\<lambda>c. c \<noteq> newline) content of
             [] \<Rightarrow> Inl (Incomplete (line_no + 1))
           | _ # rest \<Rightarrow>
               (case verify_line from_json sha256 prev_hash (line_no + 1)
                       (takeWhile (\<lambda>c. c \<noteq> newline) content) of
                  Inl e \<Rightarrow> Inl e
                | Inr entry_hash \<Rightarrow>
                    verify_loop from_json sha256 entry_hash (entries + 1) (line_no + 1) rest))"
  by pat_completeness auto
termination
  by (relation "measure (\<lambda>(_, _, _, _, _, content). length content)")
     (auto dest: dropWhile_Cons_length)

declare verify_loop.simps [simp del]

definition verify_reader ::
  "(string \<Rightarrow> AuditEntry option) \<Rightarrow> (bytes \<Rightarrow> bytes) \<Rightarrow> string \<Rightarrow> AuditVerifyError + AuditVerifyReport" where
  "verify_reader from_json sha256 content = verify_loop from_json sha256 ZERO_HASH 0 0 content"

definition open_audit_log :: "(IoErrorKind + OpenFile) \<Rightarrow> AuditVerifyError + OpenFile" where
  "open_audit_log opened =
     res_bind (map_err VerifyOpen opened) (\<lambda>file.
     res_bind (ok_or VerifyStat (fd_stat file)) (\<lambda>stat.
       if st_mode stat AND S_IFMT \<noteq> S_IFREG then Inl VerifyNotRegular else Inr file))"

definition verify_audit_log ::
  "(string \<Rightarrow> AuditEntry option) \<Rightarrow> (bytes \<Rightarrow> bytes) \<Rightarrow> (IoErrorKind + OpenFile) \<Rightarrow>
   AuditVerifyError + AuditVerifyReport" where
  "verify_audit_log from_json sha256 opened =
     res_bind (open_audit_log opened) (\<lambda>file.
     res_bind (ok_or VerifyRead (fd_data file)) (verify_reader from_json sha256))"

section \<open>Recovery at startup\<close>

definition AUDIT_RECOVERY_WINDOW_BYTES :: nat where
  "AUDIT_RECOVERY_WINDOW_BYTES = 1024 * 1024"

datatype AuditError =
    AuditParentDir | AuditOpen FsError | AuditRead | NoCompleteEntry | NonUtf8Entry
  | MalformedFinal | InvalidFinalPrev | InvalidFinalHash | FinalHashMismatch
  | AuditPoisoned | AuditSerialization | AuditWrite | AuditSync

definition recover_entry_hash ::
  "(string \<Rightarrow> AuditEntry option) \<Rightarrow> (bytes \<Rightarrow> bytes) \<Rightarrow> string \<Rightarrow> AuditError + string" where
  "recover_entry_hash from_json sha256 line =
     res_bind (ok_or MalformedFinal (from_json line)) (\<lambda>entry.
       if \<not> is_lower_hex_hash (ae_prev_hash entry) then Inl InvalidFinalPrev
       else if \<not> is_lower_hex_hash (ae_entry_hash entry) then Inl InvalidFinalHash
       else
         let recovered = ae_entry_hash entry;
             expected = hex_sha256 sha256 (hash_payload_v1 (entry\<lparr>ae_entry_hash := []\<rparr>))
         in if recovered \<noteq> expected then Inl FinalHashMismatch else Inr recovered)"

text \<open>\<open>slice::split\<close> on the newline byte: one piece more than there are newlines.\<close>

fun split_newline :: "string \<Rightarrow> string list" where
  "split_newline [] = [[]]"
| "split_newline (c # s) =
     (if c = newline then [] # split_newline s
      else case split_newline s of [] \<Rightarrow> [[c]] | l # ls \<Rightarrow> (c # l) # ls)"

definition last_complete_line :: "string \<Rightarrow> string option" where
  "last_complete_line tail =
     (if tail \<noteq> [] \<and> last tail \<noteq> newline then None
      else find (\<lambda>line. \<not> list_all is_ascii_whitespace line) (rev (split_newline tail)))"

text \<open>What recovery looks at: the file, or its last mebibyte from the first line break on.\<close>

definition recovery_tail :: "nat \<Rightarrow> string \<Rightarrow> string" where
  "recovery_tail start content =
     (let window = drop start content
      in if start = 0 then window
         else case dropWhile (\<lambda>c. c \<noteq> newline) window of [] \<Rightarrow> [] | _ # r \<Rightarrow> r)"

definition last_entry_hash ::
  "(string \<Rightarrow> AuditEntry option) \<Rightarrow> (bytes \<Rightarrow> bytes) \<Rightarrow> string \<Rightarrow> AuditError + string" where
  "last_entry_hash from_json sha256 content =
     (let len = length content
      in if len = 0 then Inr ZERO_HASH
         else
           let start = len - AUDIT_RECOVERY_WINDOW_BYTES;
               truncated = (start \<noteq> 0);
               tail = recovery_tail start content
           in case last_complete_line tail of
                None \<Rightarrow>
                  if \<not> truncated \<and> list_all is_ascii_whitespace tail then Inr ZERO_HASH
                  else Inl NoCompleteEntry
              | Some line \<Rightarrow>
                  res_bind (map_err (\<lambda>_. NonUtf8Entry) (from_utf8 line))
                    (recover_entry_hash from_json sha256))"

section \<open>The logger\<close>

record AuditLogger =
  al_owner :: OwnerPolicy
  al_file :: string
  al_prev_hash :: string
  al_poisoned :: bool

text \<open>The outcomes of the three \<open>open\<close> calls of \<open>open_secure_append\<close>, with mode 0640.\<close>

type_synonym append_opens = "(IoErrorKind + OpenFile) \<times> (IoErrorKind + OpenFile) \<times> (IoErrorKind + OpenFile)"

definition append_open :: "u32 \<Rightarrow> append_opens \<Rightarrow> OwnerPolicy \<Rightarrow> FsError + OpenFile" where
  "append_open current_uid opens owner =
     (case opens of (existing, created, reopened) \<Rightarrow>
        open_secure_append current_uid existing created reopened 416 owner)"

text \<open>\<open>mkdir_ok\<close>: the parent directory exists or could be created.\<close>

definition open_logger ::
  "(string \<Rightarrow> AuditEntry option) \<Rightarrow> (bytes \<Rightarrow> bytes) \<Rightarrow> bool \<Rightarrow> u32 \<Rightarrow> append_opens \<Rightarrow> OwnerPolicy \<Rightarrow>
   AuditError + AuditLogger" where
  "open_logger from_json sha256 mkdir_ok current_uid opens owner =
     (if \<not> mkdir_ok then Inl AuditParentDir
      else
        res_bind (map_err AuditOpen (append_open current_uid opens owner)) (\<lambda>file.
        res_bind (ok_or AuditRead (fd_data file)) (\<lambda>content.
        res_bind (last_entry_hash from_json sha256 content) (\<lambda>prev_hash.
          Inr \<lparr>al_owner = owner, al_file = content, al_prev_hash = prev_hash, al_poisoned = False\<rparr>))))"

text \<open>
  \<open>reopen\<close> replaces the file and keeps the hash. The new file is not read; what it holds
  (nothing, when its content cannot be known) is where later lines are appended.
\<close>

definition reopen :: "u32 \<Rightarrow> append_opens \<Rightarrow> AuditLogger \<Rightarrow> (AuditError + unit) \<times> AuditLogger" where
  "reopen current_uid opens l =
     (if al_poisoned l then (Inl AuditPoisoned, l)
      else case append_open current_uid opens (al_owner l) of
             Inl e \<Rightarrow> (Inl (AuditOpen e), l)
           | Inr file \<Rightarrow>
               (Inr (), l\<lparr>al_file := (case fd_data file of None \<Rightarrow> [] | Some d \<Rightarrow> d)\<rparr>))"

text \<open>The entry as it is written: linked to the chain and sealed with its hash.\<close>

definition seal :: "(bytes \<Rightarrow> bytes) \<Rightarrow> string \<Rightarrow> AuditEntry \<Rightarrow> AuditEntry" where
  "seal sha256 prev_hash entry =
     (let linked = entry\<lparr>ae_prev_hash := prev_hash, ae_entry_hash := []\<rparr>
      in linked\<lparr>ae_entry_hash := hex_sha256 sha256 (hash_payload_v1 linked)\<rparr>)"

text \<open>\<open>write_fail\<close> is \<open>Some n\<close> when \<open>write_all\<close> fails after \<open>n\<close> bytes reached the file.\<close>

definition log ::
  "(AuditEntry \<Rightarrow> string option) \<Rightarrow> (bytes \<Rightarrow> bytes) \<Rightarrow> nat option \<Rightarrow> bool \<Rightarrow> AuditEntry \<Rightarrow> AuditLogger \<Rightarrow>
   (AuditError + unit) \<times> AuditLogger" where
  "log to_json sha256 write_fail sync_ok entry0 l =
     (if al_poisoned l then (Inl AuditPoisoned, l)
      else
        let entry = seal sha256 (al_prev_hash l) entry0
        in case to_json entry of
             None \<Rightarrow> (Inl AuditSerialization, l)
           | Some json \<Rightarrow>
               let line = json @ [newline]
               in (case write_fail of
                    Some n \<Rightarrow> (Inl AuditWrite, l\<lparr>al_file := al_file l @ take n line\<rparr>)
                  | None \<Rightarrow>
                      let written = l\<lparr>al_file := al_file l @ line\<rparr>
                      in if \<not> sync_ok then (Inl AuditSync, written)
                         else (Inr (), written\<lparr>al_prev_hash := ae_entry_hash entry\<rparr>)))"

end
