(* ===== verification/Server.thy ===== *)
theory Server
  imports Config Protocol Policy Allowlist Adapter_Registry Nonce_Store Rate_Limit Audit_Log
begin

text \<open>
  The request path of the daemon, \<open>infrastructure/ipc/unix_socket.rs\<close>. The server state is a
  record of the components' states. The packages the handlers call (serde_json, SHA-256, HMAC,
  float printing) are the fields of \<open>Packages\<close>; what the outside world does during one request
  (clocks, randomness, the adapter's socket, the disk) are the fields of \<open>Oracle\<close>.

  \<open>handle_verify_once\<close> is split where the code awaits: \<open>begin_verify\<close> up to the adapter call,
  \<open>conclude_verify\<close> from the adapter's answer to the decision, \<open>settle\<close> for the audit write and
  the response. The whole handler composes the three; the interleaved system runs the same
  functions as separate steps. In the same way \<open>screen_line\<close> is what \<open>handle_client\<close> does with a
  line before it waits for anything.
\<close>

section \<open>State\<close>

record Packages =
  pk_sha256 :: "bytes \<Rightarrow> bytes"
  pk_hmac :: "bytes \<Rightarrow> bytes \<Rightarrow> bytes"
  pk_entry_json :: "AuditEntry \<Rightarrow> string option"
  pk_request_json :: "VerificationRequest \<Rightarrow> string + string"
  pk_result_json :: "string \<Rightarrow> string + VerificationResult"
  pk_client_json :: "string \<Rightarrow> string + Request"
  pk_debug_f32 :: "f32 \<Rightarrow> string"

record Oracle =
  or_check_now :: instant
  or_rng :: "nat \<Rightarrow> bytes option"
  or_generate_now :: instant
  or_uuid :: bytes
  or_start_ms :: u64
  or_queue :: QueueOutcome
  or_io :: AdapterIo
  or_finish_ms :: u64
  or_consume_now :: instant
  or_policy_ms :: u64
  or_audit_ms :: u64
  or_write_fail :: "nat option"
  or_sync_ok :: bool
  or_send_ok :: bool

record ReloadableState =
  rl_allowlist :: Allowlist
  rl_policy :: PolicyEngine

record ServerState =
  sv_registry :: AdapterRegistry
  sv_reloadable :: ReloadableState
  sv_attester :: AttestationVerifier
  sv_nonces :: NonceState
  sv_audit :: AuditLogger
  sv_limiter :: RateLimiter
  sv_config :: Config
  sv_owner :: OwnerPolicy
  sv_metrics :: Metrics

definition RATE_LIMIT_PER_UID :: u32 where
  "RATE_LIMIT_PER_UID = 100"

definition CARGO_PKG_VERSION :: string where
  "CARGO_PKG_VERSION = ''0.2.0''"

definition count_failure :: "ServerState \<Rightarrow> ServerState" where
  "count_failure st = st\<lparr>sv_metrics := inc_failures (sv_metrics st)\<rparr>"

section \<open>Parameters of a request\<close>

definition request_uid :: "u32 \<Rightarrow> json option \<Rightarrow> string + u32" where
  "request_uid caller_uid params =
     (if caller_uid \<noteq> 0 then Inr caller_uid
      else case Option.bind params (\<lambda>p. json_get p ''uid'') of
             None \<Rightarrow> Inl ''root caller must supply params.uid''
           | Some v \<Rightarrow>
              (case json_as_u64 v of
                 None \<Rightarrow> Inl ''uid must be an unsigned integer''
               | Some uid \<Rightarrow>
                   if 4294967295 < uid then Inl ''uid out of range'' else Inr (ucast uid)))"

definition request_method :: "json option \<Rightarrow> string + string" where
  "request_method params =
     (case params of
        None \<Rightarrow> Inr ''any''
      | Some p \<Rightarrow>
         (case json_as_object p of
            None \<Rightarrow> Inl ''params must be an object''
          | Some kvs \<Rightarrow>
             (case map_of kvs ''method'' of
                None \<Rightarrow> Inr ''any''
              | Some v \<Rightarrow>
                 (case json_as_str v of
                    None \<Rightarrow> Inl ''params.method must be a string''
                  | Some m \<Rightarrow>
                      res_bind (map_err (\<lambda>_. ''params.method is invalid'') (validate_method_name m True))
                        (\<lambda>_. Inr m)))))"

fun nonce_reason :: "NonceError \<Rightarrow> string" where
  "nonce_reason NotFound = ''nonce_not_found''"
| "nonce_reason Expired = ''nonce_expired''"
| "nonce_reason NonceError.UidMismatch = ''nonce_uid_mismatch''"
| "nonce_reason TableFull = ''nonce_table_full''"
| "nonce_reason TooManyForUid = ''nonce_uid_limit''"
| "nonce_reason StatePoisoned = ''nonce_store_unavailable''"
| "nonce_reason RandomUnavailable = ''nonce_random_unavailable''"

fun attestation_reason :: "AttestationError \<Rightarrow> string" where
  "attestation_reason UnknownAdapter = ''attestation_unknown_adapter''"
| "attestation_reason HashMismatch = ''attestation_hash_mismatch''"

section \<open>Audit\<close>

definition write_audit_or_error ::
  "Packages \<Rightarrow> Oracle \<Rightarrow> ServerState \<Rightarrow> AuditEntry \<Rightarrow> string option \<Rightarrow> (Response + unit) \<times> ServerState" where
  "write_audit_or_error pk orc st entry rid =
     (let (r, logger) = log (pk_entry_json pk) (pk_sha256 pk) (or_write_fail orc) (or_sync_ok orc)
                          entry (sv_audit st);
          st' = st\<lparr>sv_audit := logger\<rparr>
      in case r of
           Inl _ \<Rightarrow> (Inl (response_error rid ''audit failed''), count_failure st')
         | Inr _ \<Rightarrow> (Inr (), st'))"

section \<open>verify\_once\<close>

text \<open>What a handler wants recorded, and the response it gives once the record is durable.\<close>

record Conclusion =
  cn_entry :: AuditEntry
  cn_response :: Response

text \<open>An accepted request between the adapter call and its answer.\<close>

record Session =
  ss_caller_uid :: u32
  ss_uid :: u32
  ss_req_id :: "string option"
  ss_resolved :: ResolvedAdapter
  ss_nonce :: bytes
  ss_request :: VerificationRequest

definition deny_conclusion ::
  "Oracle \<Rightarrow> u32 \<Rightarrow> u32 \<Rightarrow> string \<Rightarrow> string \<Rightarrow> string option \<Rightarrow> string option \<Rightarrow>
   VerificationResult option \<Rightarrow> string \<Rightarrow> Conclusion" where
  "deny_conclusion orc caller_uid uid method reason adapter_name req_id result client_reason =
     \<lparr>cn_entry = deny_entry (or_audit_ms orc) caller_uid uid method reason adapter_name req_id result,
      cn_response = response_deny req_id client_reason\<rparr>"

definition begin_verify ::
  "Oracle \<Rightarrow> ServerState \<Rightarrow> u32 \<Rightarrow> u32 \<Rightarrow> string \<Rightarrow> string option \<Rightarrow>
   (Conclusion + Session) \<times> ServerState" where
  "begin_verify orc st caller_uid uid method req_id =
     (case resolve (sv_registry st) method of
        Inl e \<Rightarrow>
          let reason = adapter_error_text e
          in (Inl (deny_conclusion orc caller_uid uid method reason None req_id None reason), st)
      | Inr resolved \<Rightarrow>
         (case generate (or_rng orc) (or_generate_now orc) uid (sv_nonces st) of
            (Inl e, nonces) \<Rightarrow>
              let reason = nonce_reason e
              in (Inl (deny_conclusion orc caller_uid uid (ra_method resolved) reason
                    (Some (ra_adapter_name resolved)) req_id None reason), st\<lparr>sv_nonces := nonces\<rparr>)
          | (Inr nonce, nonces) \<Rightarrow>
              (Inr \<lparr>ss_caller_uid = caller_uid, ss_uid = uid, ss_req_id = req_id,
                    ss_resolved = resolved, ss_nonce = nonce,
                    ss_request = \<lparr>vr_version = PROTOCOL_VERSION, vr_id = or_uuid orc, vr_uid = uid,
                       vr_nonce = nonce,
                       vr_deadline_ms = saturating_add_u64 (or_start_ms orc) (ra_timeout_ms resolved)\<rparr>\<rparr>,
               st\<lparr>sv_nonces := nonces\<rparr>)))"

definition session_dispatch ::
  "Packages \<Rightarrow> Oracle \<Rightarrow> ServerState \<Rightarrow> Session \<Rightarrow> (AdapterError + VerificationResult) \<times> string list" where
  "session_dispatch pk orc st ss =
     dispatch_resolved (pk_request_json pk) (pk_result_json pk) (or_queue orc) (or_io orc)
       (sv_registry st) (ss_resolved ss) (ss_request ss)"

definition session_deny ::
  "Oracle \<Rightarrow> Session \<Rightarrow> string \<Rightarrow> VerificationResult option \<Rightarrow> string \<Rightarrow> Conclusion" where
  "session_deny orc ss reason result client_reason =
     deny_conclusion orc (ss_caller_uid ss) (ss_uid ss) (ra_method (ss_resolved ss)) reason
       (Some (ra_adapter_name (ss_resolved ss))) (ss_req_id ss) result client_reason"

definition spend_nonce :: "Oracle \<Rightarrow> Session \<Rightarrow> ServerState \<Rightarrow> (NonceError + unit) \<times> ServerState" where
  "spend_nonce orc ss st =
     (let (r, nonces) = consume (or_consume_now orc) (ss_nonce ss) (ss_uid ss) (sv_nonces st)
      in (r, st\<lparr>sv_nonces := nonces\<rparr>))"

definition session_context :: "Session \<Rightarrow> VerificationResult \<Rightarrow> AuthContext" where
  "session_context ss result =
     \<lparr>ctx_uid = ss_uid ss, ctx_method = ra_method (ss_resolved ss), ctx_request = ss_request ss,
      ctx_result = result, ctx_decision = None\<rparr>"

text \<open>Attestation, method check and policy, once the nonce is spent.\<close>

definition judge ::
  "Packages \<Rightarrow> Oracle \<Rightarrow> ReloadableState \<Rightarrow> Session \<Rightarrow> VerificationResult \<Rightarrow> ServerState \<Rightarrow> Conclusion" where
  "judge pk orc reloadable ss result st =
     (case (if cf_require_attestation (sv_config st)
            then verify_attestation (pk_sha256 pk) (pk_hmac pk) (sv_attester st)
                   (ra_adapter_name (ss_resolved ss)) result
            else Inr ()) of
        Inl e \<Rightarrow>
          session_deny orc ss (attestation_reason e) (Some result) ''invalid evidence hash''
      | Inr _ \<Rightarrow>
          if as_str (rs_method result) \<noteq> ra_method (ss_resolved ss)
          then session_deny orc ss ''method_mismatch'' (Some result) ''method mismatch''
          else
            let context = session_context ss result;
                decision = evaluate (or_policy_ms orc) (rl_policy reloadable) context;
                context' = context\<lparr>ctx_decision := Some decision\<rparr>
            in \<lparr>cn_entry = from_decision (pk_debug_f32 pk) (or_audit_ms orc) context' decision
                   (ss_caller_uid ss) (Some (ra_adapter_name (ss_resolved ss))) (ss_req_id ss),
                cn_response = (case decision of
                    Allow \<Rightarrow> response_allow (ss_req_id ss) (as_str (rs_method result))
                  | Deny reason \<Rightarrow>
                      response_deny (ss_req_id ss) (debug_reason (pk_debug_f32 pk) reason))\<rparr>)"

definition conclude_verify ::
  "Packages \<Rightarrow> Oracle \<Rightarrow> ReloadableState \<Rightarrow> Session \<Rightarrow> AdapterError + VerificationResult \<Rightarrow> ServerState \<Rightarrow>
   Conclusion \<times> ServerState" where
  "conclude_verify pk orc reloadable ss answer st =
     (case answer of
        Inl e \<Rightarrow>
          let reason = adapter_error_text e
          in (session_deny orc ss reason None reason, snd (spend_nonce orc ss st))
      | Inr result \<Rightarrow>
          if rs_nonce result \<noteq> ss_nonce ss
          then (session_deny orc ss ''nonce_mismatch'' (Some result) ''nonce mismatch detected'',
                snd (spend_nonce orc ss st))
          else if vr_deadline_ms (ss_request ss) < or_finish_ms orc
          then (session_deny orc ss ''request_deadline_expired'' (Some result) ''request deadline expired'',
                snd (spend_nonce orc ss st))
          else (case spend_nonce orc ss st of
                 (Inl e, st') \<Rightarrow>
                   (session_deny orc ss (nonce_reason e) (Some result) ''nonce replay detected'', st')
               | (Inr _, st') \<Rightarrow> (judge pk orc reloadable ss result st', st')))"

definition settle ::
  "Packages \<Rightarrow> Oracle \<Rightarrow> string option \<Rightarrow> Conclusion \<Rightarrow> ServerState \<Rightarrow> Response \<times> ServerState" where
  "settle pk orc rid cn st =
     (case write_audit_or_error pk orc st (cn_entry cn) rid of
        (Inl response, st') \<Rightarrow> (response, st')
      | (Inr _, st') \<Rightarrow> (cn_response cn, st'))"

definition handle_verify_once ::
  "Packages \<Rightarrow> Oracle \<Rightarrow> ServerState \<Rightarrow> ReloadableState \<Rightarrow> u32 \<Rightarrow> u32 \<Rightarrow> string \<Rightarrow> string option \<Rightarrow>
   Response \<times> ServerState" where
  "handle_verify_once pk orc st reloadable caller_uid uid method req_id =
     (case begin_verify orc st caller_uid uid method req_id of
        (Inl cn, st1) \<Rightarrow> settle pk orc req_id cn st1
      | (Inr ss, st1) \<Rightarrow>
          let (cn, st2) =
                conclude_verify pk orc reloadable ss (fst (session_dispatch pk orc st1 ss)) st1
          in settle pk orc req_id cn st2)"

section \<open>One line of a client\<close>

datatype Control = Continue | Close | FailClient

definition reply :: "Oracle \<Rightarrow> Control \<Rightarrow> Response \<Rightarrow> ServerState \<Rightarrow> Control \<times> Response list \<times> ServerState" where
  "reply orc after response st =
     (if or_send_ok orc then (after, [response], st) else (FailClient, [], st))"

text \<open>What a line asks for, once it has been screened: nothing (the connection closes silently), an
  answer that is known already, or a verification of \<open>uid\<close> by a method.\<close>

datatype Screened = SilentClose | Answer Control Response | Verify u32 string "string option"

definition verify_once_request :: "u32 \<Rightarrow> Request \<Rightarrow> ServerState \<Rightarrow> Screened \<times> ServerState" where
  "verify_once_request caller_uid req st =
     (case request_uid caller_uid (rq_params req) of
        Inl msg \<Rightarrow> (Answer Close (response_error (rq_id req) msg), count_failure st)
      | Inr uid \<Rightarrow>
         (case request_method (rq_params req) of
            Inl msg \<Rightarrow> (Answer Close (response_error (rq_id req) msg), count_failure st)
          | Inr method \<Rightarrow> (Verify uid method (rq_id req), st)))"

definition serve_request :: "u32 \<Rightarrow> Request \<Rightarrow> ServerState \<Rightarrow> Screened \<times> ServerState" where
  "serve_request caller_uid req st =
     (if rq_version req \<noteq> PROTOCOL_VERSION
      then (Answer Continue
             (response_error (rq_id req)
               (''Unsupported protocol version '' @ nat_to_string (unat (rq_version req)))), count_failure st)
      else if rq_method req = ''ping''
      then (Answer Continue
             (response_ok (rq_id req)
               (JObj [(''ok'', JBool True), (''version'', JStr CARGO_PKG_VERSION)])), st)
      else if rq_method req = ''status''
      then (Answer Continue
             (response_ok (rq_id req)
               (JObj [(''status'', JStr ''running''), (''version'', JStr CARGO_PKG_VERSION),
                      (''methods'', JArr (map JStr (available_methods (sv_registry st))))])), st)
      else if rq_method req = ''list_methods''
      then (Answer Continue
             (response_ok (rq_id req) (JArr (map JStr (available_methods (sv_registry st))))), st)
      else if rq_method req = ''verify_once'' then verify_once_request caller_uid req st
      else (Answer Continue (response_error (rq_id req) ''Unknown method''), count_failure st))"

definition screen_line ::
  "Packages \<Rightarrow> instant \<Rightarrow> u32 \<Rightarrow> u32 \<Rightarrow> string \<Rightarrow> ServerState \<Rightarrow> Screened \<times> ServerState" where
  "screen_line pk now self_uid caller_uid line st =
     (if \<not> is_allowed self_uid caller_uid (rl_allowlist (sv_reloadable st)) then (SilentClose, count_failure st)
      else
        let (ok, limiter) = check now caller_uid RATE_LIMIT_PER_UID (sv_limiter st);
            st1 = st\<lparr>sv_limiter := limiter\<rparr>
        in if \<not> ok
           then (Answer Close (response_error None ''Rate limit exceeded''), count_failure st1)
           else case pk_client_json pk line of
             Inl e \<Rightarrow> (Answer Continue (response_error None (''Invalid JSON: '' @ e)), count_failure st1)
           | Inr req \<Rightarrow> serve_request caller_uid req st1)"

text \<open>One loaded state serves the whole request, from the allowlist check to the policy.\<close>

definition handle_line ::
  "Packages \<Rightarrow> Oracle \<Rightarrow> u32 \<Rightarrow> u32 \<Rightarrow> string \<Rightarrow> ServerState \<Rightarrow> Control \<times> Response list \<times> ServerState" where
  "handle_line pk orc self_uid caller_uid line st =
     (let reloadable = sv_reloadable st
      in case screen_line pk (or_check_now orc) self_uid caller_uid line st of
           (SilentClose, st1) \<Rightarrow> (Close, [], st1)
         | (Answer after response, st1) \<Rightarrow> reply orc after response st1
         | (Verify uid method req_id, st1) \<Rightarrow>
             let (response, st2) = handle_verify_once pk orc st1 reloadable caller_uid uid method req_id
             in reply orc Continue response st2)"

text \<open>What \<open>framed.next()\<close> under the idle timeout delivers.\<close>

datatype ClientEvent = Line string | CodecError | Eof | IdleTimeout

fun client_loop ::
  "Packages \<Rightarrow> u32 \<Rightarrow> u32 \<Rightarrow> (ClientEvent \<times> Oracle) list \<Rightarrow> ServerState \<Rightarrow>
   Control \<times> Response list \<times> ServerState" where
  "client_loop pk self_uid caller_uid [] st = (Continue, [], st)"
| "client_loop pk self_uid caller_uid ((ev, orc) # evs) st =
     (case ev of
        Eof \<Rightarrow> (Close, [], st)
      | IdleTimeout \<Rightarrow> (Close, [], st\<lparr>sv_metrics := inc_idle_closes (sv_metrics st)\<rparr>)
      | CodecError \<Rightarrow> (FailClient, [], st\<lparr>sv_metrics := inc_requests (sv_metrics st)\<rparr>)
      | Line line \<Rightarrow>
          let (ctl, out, st1) = handle_line pk orc self_uid caller_uid line
                                  (st\<lparr>sv_metrics := inc_requests (sv_metrics st)\<rparr>)
          in if ctl = Continue
             then let (ctl', out', st2) = client_loop pk self_uid caller_uid evs st1
                  in (ctl', out @ out', st2)
             else (ctl, out, st1))"

text \<open>\<open>creds\<close>: the peer credentials, \<open>None\<close> when the kernel call fails.\<close>

definition handle_client ::
  "Packages \<Rightarrow> u32 \<Rightarrow> u32 option \<Rightarrow> (ClientEvent \<times> Oracle) list \<Rightarrow> ServerState \<Rightarrow>
   Control \<times> Response list \<times> ServerState" where
  "handle_client pk self_uid creds evs st =
     (case creds of
        None \<Rightarrow> (FailClient, [], st)
      | Some caller_uid \<Rightarrow>
          if \<not> is_allowed self_uid caller_uid (rl_allowlist (sv_reloadable st))
          then (Close, [], count_failure st)
          else client_loop pk self_uid caller_uid evs st)"

end
