(* ===== verification/Audit_Properties.thy ===== *)
theory Audit_Properties
  imports Audit_Log
begin

text \<open>
  What the audit log guarantees: the verifier implements the abstract chain; what the logger
  wrote verifies; a verified log fixes every entry up to a SHA-256 collision among its entries;
  a restart resumes the chain where it ended; and what happens when a sync fails or the log is
  rotated.
\<close>

section \<open>The verifier implements the chain\<close>

lemma verify_loop_Nil [simp]:
  "verify_loop from_json sha256 h n k [] = Inr \<lparr>rp_entries = n, rp_last_hash = h\<rparr>"
  by (simp add: verify_loop.simps)

lemma verify_loop_line:
  "newline \<notin> set l \<Longrightarrow> verify_loop from_json sha256 h n k (l @ newline # rest) =
     (case verify_line from_json sha256 h (k + 1) l of
        Inl e \<Rightarrow> Inl e
      | Inr h' \<Rightarrow> verify_loop from_json sha256 h' (n + 1) (k + 1) rest)"
proof -
  assume "newline \<notin> set l"
  then have "takeWhile (\<lambda>c. c \<noteq> newline) (l @ newline # rest) = l"
    "dropWhile (\<lambda>c. c \<noteq> newline) (l @ newline # rest) = newline # rest"
    by (auto intro!: takeWhile_stop dropWhile_stop)
  then show ?thesis by (subst verify_loop.simps) simp
qed

definition entry_wf :: "AuditEntry \<Rightarrow> bool" where
  "entry_wf e \<longleftrightarrow> is_lower_hex_hash (ae_prev_hash e) \<and> is_lower_hex_hash (ae_entry_hash e)"

lemma verify_line_iff:
  "verify_line from_json sha256 h k l = Inr h' \<longleftrightarrow>
     utf8_valid l \<and> (\<exists>e. from_json l = Some e \<and> entry_wf e \<and> ae_prev_hash e = h \<and>
        ae_entry_hash e = hex_sha256 sha256 (hash_payload_v1 e) \<and> h' = ae_entry_hash e)"
  by (auto simp: verify_line_def res_bind_Inr_iff entry_wf_def Let_def)

definition log_lines_ok ::
  "(string \<Rightarrow> AuditEntry option) \<Rightarrow> string list \<Rightarrow> AuditEntry list \<Rightarrow> bool" where
  "log_lines_ok from_json ls es \<longleftrightarrow>
     list_all2 (\<lambda>l e. newline \<notin> set l \<and> utf8_valid l \<and> from_json l = Some e \<and> entry_wf e) ls es"

lemma verify_loop_chain:
  "log_lines_ok from_json ls es \<Longrightarrow> audit_chain sha256 h es = Some h' \<Longrightarrow>
     verify_loop from_json sha256 h n k (unlines ls @ rest) =
     verify_loop from_json sha256 h' (n + length es) (k + length es) rest"
proof (induction ls arbitrary: es h n k)
  case Nil
  then show ?case by (simp add: log_lines_ok_def)
next
  case (Cons l ls)
  then obtain e es' where es: "es = e # es'"
    and e: "newline \<notin> set l" "utf8_valid l" "from_json l = Some e" "entry_wf e"
    and rest: "log_lines_ok from_json ls es'"
    by (auto simp: log_lines_ok_def list_all2_Cons1)
  have "verify_line from_json sha256 h (k + 1) l = Inr (ae_entry_hash e)"
    using e Cons.prems(2) es by (auto simp: verify_line_iff split: if_splits)
  moreover have "audit_chain sha256 (ae_entry_hash e) es' = Some h'"
    using Cons.prems(2) es by (simp split: if_splits)
  ultimately show ?case
    using Cons.IH [OF rest, of "ae_entry_hash e" "n + 1" "k + 1"] e(1) es
    by (simp add: verify_loop_line)
qed

lemma newline_split:
  assumes "dropWhile (\<lambda>c. c \<noteq> newline) s = c # rest"
  shows "s = takeWhile (\<lambda>c. c \<noteq> newline) s @ newline # rest"
    and "newline \<notin> set (takeWhile (\<lambda>c. c \<noteq> newline) s)"
proof -
  have c: "c = newline"
    using dropWhile_eq_Cons_conv [THEN iffD1, OF assms] by blast
  have "takeWhile (\<lambda>c. c \<noteq> newline) s @ newline # rest = s"
    using takeWhile_dropWhile_id [of "\<lambda>c. c \<noteq> newline" s] unfolding assms c .
  then show "s = takeWhile (\<lambda>c. c \<noteq> newline) s @ newline # rest" by (rule sym)
  show "newline \<notin> set (takeWhile (\<lambda>c. c \<noteq> newline) s)"
    using set_takeWhileD [of newline "\<lambda>c. c \<noteq> newline" s] by auto
qed

lemma verify_loop_Inr:
  "verify_loop from_json sha256 h n k content = Inr r \<Longrightarrow>
     \<exists>ls es. content = unlines ls \<and> log_lines_ok from_json ls es \<and>
       audit_chain sha256 h es = Some (rp_last_hash r) \<and> rp_entries r = n + length es"
proof (induction from_json sha256 h n k content rule: verify_loop.induct)
  case (1 from_json sha256 h n k content)
  show ?case
  proof (cases "dropWhile (\<lambda>c. c \<noteq> newline) content")
    case Nil
    then have "content = []"
      using 1(2) by (cases "content = []") (simp_all add: verify_loop.simps [of _ _ _ _ _ content] del: dropWhile_eq_Nil_conv)
    then show ?thesis
      using 1(2) by (intro exI [of _ "[]"]) (auto simp: log_lines_ok_def)
  next
    case (Cons c rest)
    let ?l = "takeWhile (\<lambda>c. c \<noteq> newline) content"
    have ne: "content \<noteq> []" using Cons by auto
    obtain h' where line: "verify_line from_json sha256 h (k + 1) ?l = Inr h'"
        and rec: "verify_loop from_json sha256 h' (n + 1) (k + 1) rest = Inr r"
      using 1(2) ne Cons
      by (auto simp: verify_loop.simps [of _ _ _ _ _ content] split: sum.splits)
    obtain ls es where ih: "rest = unlines ls" "log_lines_ok from_json ls es"
        "audit_chain sha256 h' es = Some (rp_last_hash r)" "rp_entries r = n + 1 + length es"
      using 1(1) [OF ne Cons line rec] by blast
    obtain e where e: "utf8_valid ?l" "from_json ?l = Some e" "entry_wf e" "ae_prev_hash e = h"
        "ae_entry_hash e = hex_sha256 sha256 (hash_payload_v1 e)" "h' = ae_entry_hash e"
      using line by (auto simp: verify_line_iff)
    have "content = unlines (?l # ls)" "newline \<notin> set ?l"
      using newline_split [OF Cons] unfolding unlines_simps ih(1) by this+
    moreover have "log_lines_ok from_json (?l # ls) (e # es)"
      using e ih(2) \<open>newline \<notin> set ?l\<close> by (simp add: log_lines_ok_def)
    moreover have "audit_chain sha256 h (e # es) = Some (rp_last_hash r)"
      using e ih(3) by simp
    ultimately show ?thesis using ih(4) by (intro exI [of _ "?l # ls"] exI [of _ "e # es"]) simp
  qed
qed

lemma verify_reader_iff:
  "verify_reader from_json sha256 content = Inr r \<longleftrightarrow>
     (\<exists>ls es. content = unlines ls \<and> log_lines_ok from_json ls es \<and>
       audit_chain sha256 ZERO_HASH es = Some (rp_last_hash r) \<and> rp_entries r = length es)"
proof
  assume "verify_reader from_json sha256 content = Inr r"
  then show "\<exists>ls es. content = unlines ls \<and> log_lines_ok from_json ls es \<and>
       audit_chain sha256 ZERO_HASH es = Some (rp_last_hash r) \<and> rp_entries r = length es"
    using verify_loop_Inr [of from_json sha256 ZERO_HASH 0 0 content r]
    by (simp add: verify_reader_def)
next
  assume "\<exists>ls es. content = unlines ls \<and> log_lines_ok from_json ls es \<and>
       audit_chain sha256 ZERO_HASH es = Some (rp_last_hash r) \<and> rp_entries r = length es"
  then obtain ls es where "content = unlines ls" "log_lines_ok from_json ls es"
       "audit_chain sha256 ZERO_HASH es = Some (rp_last_hash r)" "rp_entries r = length es" by blast
  then show "verify_reader from_json sha256 content = Inr r"
    using verify_loop_chain [of from_json ls es sha256 ZERO_HASH "rp_last_hash r" 0 0 "[]"]
    by (simp add: verify_reader_def)
qed

lemma verify_reader_append:
  assumes "verify_reader from_json sha256 a = Inr r"
  shows "verify_reader from_json sha256 (a @ b) =
    verify_loop from_json sha256 (rp_last_hash r) (rp_entries r) (rp_entries r) b"
proof -
  obtain ls es where "a = unlines ls" "log_lines_ok from_json ls es"
       "audit_chain sha256 ZERO_HASH es = Some (rp_last_hash r)" "rp_entries r = length es"
    using assms by (auto simp: verify_reader_iff)
  then show ?thesis
    using verify_loop_chain [of from_json ls es sha256 ZERO_HASH "rp_last_hash r" 0 0 b]
    by (simp add: verify_reader_def)
qed

section \<open>The logger extends the chain\<close>

definition json_faithful ::
  "(AuditEntry \<Rightarrow> string option) \<Rightarrow> (string \<Rightarrow> AuditEntry option) \<Rightarrow> AuditEntry \<Rightarrow> bool" where
  "json_faithful to_json from_json e =
     (case to_json e of
        None \<Rightarrow> False
      | Some js \<Rightarrow> newline \<notin> set js \<and> utf8_valid js \<and> from_json js = Some e)"

lemma ae_seal [simp]:
  "ae_prev_hash (seal sha256 h e) = h"
  "ae_entry_hash (seal sha256 h e) = hex_sha256 sha256 (hash_payload_v1 (seal sha256 h e))"
  by (simp_all add: seal_def Let_def)

lemma seal_wf:
  "is_lower_hex_hash h \<Longrightarrow> \<forall>m. length (sha256 m) = 32 \<Longrightarrow> entry_wf (seal sha256 h e)"
  by (simp add: entry_wf_def is_lower_hex_sha)

text \<open>The file verifies and the logger holds the hash of its last entry.\<close>

definition intact ::
  "(string \<Rightarrow> AuditEntry option) \<Rightarrow> (bytes \<Rightarrow> bytes) \<Rightarrow> nat \<Rightarrow> AuditLogger \<Rightarrow> bool" where
  "intact from_json sha256 n l \<longleftrightarrow> \<not> al_poisoned l \<and>
     verify_reader from_json sha256 (al_file l) =
       Inr \<lparr>rp_entries = n, rp_last_hash = al_prev_hash l\<rparr>"

lemma chain_wf:
  "log_lines_ok from_json ls es \<Longrightarrow> audit_chain sha256 h es = Some h' \<Longrightarrow> is_lower_hex_hash h \<Longrightarrow>
     is_lower_hex_hash h'"
proof (induction es arbitrary: ls h)
  case (Cons e es)
  then show ?case
    by (auto simp: log_lines_ok_def list_all2_Cons2 entry_wf_def split: if_splits)
qed simp

lemma intact_hex: "intact from_json sha256 n l \<Longrightarrow> is_lower_hex_hash (al_prev_hash l)"
  by (auto simp: intact_def verify_reader_iff dest: chain_wf)

lemma verify_sealed:
  assumes "json_faithful to_json from_json (seal sha256 h e)" and "is_lower_hex_hash h"
    and "\<forall>m. length (sha256 m) = 32" and "to_json (seal sha256 h e) = Some js"
  shows "verify_line from_json sha256 h k js = Inr (ae_entry_hash (seal sha256 h e))"
  using assms seal_wf [OF assms(2,3), of e]
  by (auto simp: verify_line_iff json_faithful_def)

lemma log_intact:
  assumes "intact from_json sha256 n l"
    and "json_faithful to_json from_json (seal sha256 (al_prev_hash l) e)"
    and "\<forall>m. length (sha256 m) = 32"
    and "log to_json sha256 wr sy e l = (Inr (), l')"
  shows "intact from_json sha256 (n + 1) l'"
proof -
  let ?e = "seal sha256 (al_prev_hash l) e"
  obtain js where js: "to_json ?e = Some js" "newline \<notin> set js"
    using assms(2) by (auto simp: json_faithful_def split: option.splits)
  have l': "l' = l\<lparr>al_file := al_file l @ js @ [newline], al_prev_hash := ae_entry_hash ?e\<rparr>"
    using assms(1,4) js(1)
    by (auto simp: log_def intact_def Let_def split: option.splits if_splits)
  have "verify_line from_json sha256 (al_prev_hash l) (n + 1) js = Inr (ae_entry_hash ?e)"
    using verify_sealed [OF assms(2) intact_hex [OF assms(1)] assms(3) js(1)] .
  then have "verify_reader from_json sha256 (al_file l @ js @ [newline]) =
      Inr \<lparr>rp_entries = n + 1, rp_last_hash = ae_entry_hash ?e\<rparr>"
    using assms(1) verify_reader_append [of from_json sha256 "al_file l" _ "js @ [newline]"]
      verify_loop_line [OF js(2), of from_json sha256 "al_prev_hash l" n n "[]"]
    by (simp add: intact_def)
  then show ?thesis using assms(1) by (simp add: intact_def l')
qed

text \<open>Logging a list of entries, each written and synced.\<close>

definition log_all ::
  "(AuditEntry \<Rightarrow> string option) \<Rightarrow> (bytes \<Rightarrow> bytes) \<Rightarrow> AuditEntry list \<Rightarrow> AuditLogger \<Rightarrow> AuditLogger" where
  "log_all to_json sha256 es l = foldl (\<lambda>l e. snd (log to_json sha256 None True e l)) l es"

lemma log_Inr:
  "\<not> al_poisoned l \<Longrightarrow> to_json (seal sha256 (al_prev_hash l) e) = Some js \<Longrightarrow>
     log to_json sha256 None True e l =
       (Inr (), l\<lparr>al_file := al_file l @ js @ [newline],
                  al_prev_hash := ae_entry_hash (seal sha256 (al_prev_hash l) e)\<rparr>)"
  by (simp add: log_def Let_def)

lemma log_all_intact:
  assumes "intact from_json sha256 n l" and "\<forall>m. length (sha256 m) = 32"
    and "\<forall>e\<in>set es. \<forall>h. is_lower_hex_hash h \<longrightarrow> json_faithful to_json from_json (seal sha256 h e)"
  shows "intact from_json sha256 (n + length es) (log_all to_json sha256 es l)"
  using assms
proof (induction es arbitrary: n l)
  case (Cons e es)
  have f: "json_faithful to_json from_json (seal sha256 (al_prev_hash l) e)"
    using Cons.prems(3) intact_hex [OF Cons.prems(1)] by simp
  then obtain js where "to_json (seal sha256 (al_prev_hash l) e) = Some js"
    by (auto simp: json_faithful_def split: option.splits)
  then have "log to_json sha256 None True e l = (Inr (), snd (log to_json sha256 None True e l))"
    using Cons.prems(1) by (simp add: log_Inr intact_def)
  from Cons.IH [OF log_intact [OF Cons.prems(1) f Cons.prems(2) this] Cons.prems(2)] Cons.prems(3)
  show ?case by (simp add: log_all_def)
qed (simp add: log_all_def)

section \<open>Recovery\<close>

lemma split_newline_nonempty [simp]: "split_newline s \<noteq> []"
  by (cases s) (auto split: list.splits)

lemma split_newline_append [simp]: "split_newline (a @ newline # b) = split_newline a @ split_newline b"
proof (induction a)
  case (Cons c a)
  then show ?case by (cases "split_newline a") auto
qed simp

lemma split_newline_line [simp]: "newline \<notin> set l \<Longrightarrow> split_newline l = [l]"
  by (induction l) auto

lemma split_unlines: "\<forall>l\<in>set ls. newline \<notin> set l \<Longrightarrow> split_newline (unlines ls) = ls @ [[]]"
  by (induction ls) simp_all

lemma last_complete_line_end:
  assumes "newline \<notin> set l" and "\<not> list_all is_ascii_whitespace l" and "w = [] \<or> last w = newline"
  shows "last_complete_line (w @ l @ [newline]) = Some l"
proof -
  have "\<exists>ps. split_newline (w @ l @ [newline]) = ps @ [l, []]"
  proof (cases "w = []")
    case True
    then show ?thesis using assms(1) split_newline_append [of l "[]"] by (simp del: split_newline_append)
  next
    case False
    then obtain a where "w = a @ [newline]" using assms(3) by (metis append_butlast_last_id)
    then have "split_newline (w @ l @ [newline]) = split_newline a @ split_newline (l @ newline # [])"
      using split_newline_append [of a "l @ [newline]"] by (simp del: split_newline_append)
    then show ?thesis using assms(1) by simp
  qed
  then show ?thesis using assms(2) by (auto simp: last_complete_line_def)
qed

lemma last_unlines: "ls \<noteq> [] \<Longrightarrow> last (unlines ls) = newline"
  by (induction ls rule: rev_induct) simp_all

lemma recovery_tail_end:
  assumes "start \<le> length u" and "start < length u \<or> start = 0" and "u = [] \<or> last u = newline"
  shows "\<exists>w. recovery_tail start (u @ v) = w @ v \<and> (w = [] \<or> last w = newline)"
proof (cases "start = 0")
  case True
  then show ?thesis using assms(3) by (auto simp: recovery_tail_def Let_def)
next
  case False
  then have lt: "start < length u" using assms(2) by simp
  then have win: "drop start (u @ v) = drop start u @ v" by simp
  have "last u = newline" using assms(3) lt by auto
  then have "newline \<in> set (drop start u)" using lt by (metis drop_eq_Nil last_drop last_in_set linorder_not_less)
  then obtain p q where pq: "drop start u = p @ newline # q" "newline \<notin> set p"
    by (meson split_list_first)
  have "dropWhile (\<lambda>c. c \<noteq> newline) (drop start (u @ v)) = newline # q @ v"
    unfolding win pq(1) append_assoc append_Cons using pq(2) by (intro dropWhile_stop) auto
  moreover have "q = [] \<or> last q = newline"
    using pq \<open>last u = newline\<close> lt by (metis last.simps last_appendR last_drop list.discI)
  ultimately show ?thesis using False by (auto simp: recovery_tail_def Let_def)
qed

lemma last_entry_hash_end:
  assumes "newline \<notin> set l" and "\<not> list_all is_ascii_whitespace l" and "utf8_valid l"
    and "length l + 1 < AUDIT_RECOVERY_WINDOW_BYTES"
    and "u = [] \<or> last u = newline"
  shows "last_entry_hash from_json sha256 (u @ l @ [newline]) = recover_entry_hash from_json sha256 l"
proof -
  let ?c = "u @ l @ [newline]"
  let ?start = "length ?c - AUDIT_RECOVERY_WINDOW_BYTES"
  have "?start \<le> length u" "?start < length u \<or> ?start = 0" using assms(4) by auto
  then obtain w where "recovery_tail ?start ?c = w @ l @ [newline]" "w = [] \<or> last w = newline"
    using recovery_tail_end [OF _ _ assms(5)] by blast
  then have "last_complete_line (recovery_tail ?start ?c) = Some l"
    using last_complete_line_end [OF assms(1,2)] by simp
  moreover have "length ?c \<noteq> 0" by simp
  ultimately show ?thesis
    using assms(3) by (simp only: last_entry_hash_def Let_def if_False option.case from_utf8_def) simp
qed

lemma recover_verified:
  assumes "from_json l = Some e" and "entry_wf e"
    and "ae_entry_hash e = hex_sha256 sha256 (hash_payload_v1 e)"
  shows "recover_entry_hash from_json sha256 l = Inr (ae_entry_hash e)"
  using assms by (simp add: recover_entry_hash_def entry_wf_def Let_def)

lemma last_entry_hash_verified:
  assumes "verify_reader from_json sha256 c = Inr r"
    and "\<forall>s. list_all is_ascii_whitespace s \<longrightarrow> from_json s = None"
    and "\<forall>l\<in>set (split_newline c). length l + 1 < AUDIT_RECOVERY_WINDOW_BYTES"
  shows "last_entry_hash from_json sha256 c = Inr (rp_last_hash r)"
proof -
  obtain ls es where c: "c = unlines ls" and ok: "log_lines_ok from_json ls es"
       and ch: "audit_chain sha256 ZERO_HASH es = Some (rp_last_hash r)"
    using assms(1) by (auto simp: verify_reader_iff)
  have nl: "\<forall>l\<in>set ls. newline \<notin> set l"
    using ok by (auto simp: log_lines_ok_def list_all2_conv_all_nth in_set_conv_nth)
  show ?thesis
  proof (cases ls rule: rev_cases)
    case Nil
    then show ?thesis using c ok ch by (simp add: last_entry_hash_def log_lines_ok_def)
  next
    case (snoc ms l)
    then obtain fs e where es: "es = fs @ [e]" "log_lines_ok from_json ms fs"
        "newline \<notin> set l" "utf8_valid l" "from_json l = Some e" "entry_wf e"
      using ok by (auto simp: log_lines_ok_def list_all2_append1 list_all2_Cons1)
    have h: "ae_entry_hash e = hex_sha256 sha256 (hash_payload_v1 e)" "rp_last_hash r = ae_entry_hash e"
      using ch es(1) by (auto simp: audit.chain_snoc)
    have "l \<in> set (split_newline c)"
      unfolding c using split_unlines [OF nl] snoc by (simp only:) simp
    then have "last_entry_hash from_json sha256 (unlines ms @ l @ [newline]) =
        recover_entry_hash from_json sha256 l"
      using assms(2,3) es(3-5) last_unlines [of ms]
      by (intro last_entry_hash_end) (auto, cases "ms = []", auto)
    then show ?thesis using c snoc h recover_verified [where from_json = from_json, OF es(5,6) h(1)] by simp
  qed
qed

text \<open>The entries of a log: its lines, decoded.\<close>

definition entries_of :: "(string \<Rightarrow> AuditEntry option) \<Rightarrow> string \<Rightarrow> AuditEntry list" where
  "entries_of from_json content = List.map_filter from_json (butlast (split_newline content))"

lemma entries_of_unlines:
  assumes "log_lines_ok from_json ls es"
  shows "entries_of from_json (unlines ls) = es"
proof -
  have "split_newline (unlines ls) = ls @ [[]]"
    using assms by (intro split_unlines) (auto simp: log_lines_ok_def list_all2_conv_all_nth in_set_conv_nth)
  moreover have "List.map_filter from_json ls = es"
    using assms by (induction ls arbitrary: es) (auto simp: log_lines_ok_def list_all2_Cons1)
  ultimately show ?thesis by (simp add: entries_of_def)
qed

section \<open>Properties\<close>

text \<open>C14: From a log that verifies, any number of entries logged with successful writes and
  syncs leaves a log that verifies, with that many entries more and with the logger's hash as its
  last hash; for entries that serde_json writes on one line and reads back, and 32-byte digests.\<close>

theorem logged_chain_verifies:
  assumes "intact from_json sha256 n l" and "\<forall>m. length (sha256 m) = 32"
    and "\<forall>e\<in>set es. \<forall>h. is_lower_hex_hash h \<longrightarrow> json_faithful to_json from_json (seal sha256 h e)"
  shows "verify_reader from_json sha256 (al_file (log_all to_json sha256 es l)) =
    Inr \<lparr>rp_entries = n + length es, rp_last_hash = al_prev_hash (log_all to_json sha256 es l)\<rparr>"
  using log_all_intact [OF assms] by (simp add: intact_def)

text \<open>C13: Two logs that verify with the same report, as many entries and the same last hash,
  hold the same entries in every field, unless two entries at the same position give a collision
  of SHA-256 on two different payloads: a verified checkpoint fixes the whole history.\<close>

theorem audit_log_tamper_evident:
  assumes "verify_reader from_json sha256 a = Inr r" and "verify_reader from_json sha256 b = Inr r"
  shows "entries_of from_json a = entries_of from_json b \<or>
    (\<exists>i<rp_entries r.
       let p = as_bytes (hash_payload_v1 (entries_of from_json a ! i));
           q = as_bytes (hash_payload_v1 (entries_of from_json b ! i))
       in p \<noteq> q \<and> sha256 p = sha256 q)"
proof -
  obtain ls es where a: "a = unlines ls" "log_lines_ok from_json ls es"
       "audit_chain sha256 ZERO_HASH es = Some (rp_last_hash r)" "rp_entries r = length es"
    using assms(1) by (auto simp: verify_reader_iff)
  obtain ms fs where b: "b = unlines ms" "log_lines_ok from_json ms fs"
       "audit_chain sha256 ZERO_HASH fs = Some (rp_last_hash r)" "rp_entries r = length fs"
    using assms(2) by (auto simp: verify_reader_iff)
  have len: "length es = length fs" using a(4) b(4) by simp
  have "entries_of from_json a = es" "entries_of from_json b = fs"
    using entries_of_unlines a(1,2) b(1,2) by auto
  then show ?thesis
    using audit.chain_unique [OF len a(3) b(3)] a(4)
    by (simp add: Let_def hex_sha256_def)
qed

text \<open>C34: Opening a log that verifies, when its lines fit the recovery window, resumes the chain:
  the logger holds the file and the last hash the verifier reports, so the next entry links to
  the last one. \<open>from_json\<close> is assumed to reject blank lines, as JSON does.\<close>

theorem restart_resumes_chain:
  assumes "verify_reader from_json sha256 c = Inr r"
    and "append_open cur opens owner = Inr f" and "fd_data f = Some c"
    and "\<forall>s. list_all is_ascii_whitespace s \<longrightarrow> from_json s = None"
    and "\<forall>l\<in>set (split_newline c). length l + 1 < 1024 * 1024"
  shows "open_logger from_json sha256 True cur opens owner =
    Inr \<lparr>al_owner = owner, al_file = c, al_prev_hash = rp_last_hash r, al_poisoned = False\<rparr>"
proof -
  have "last_entry_hash from_json sha256 c = Inr (rp_last_hash r)"
    using assms(5) by (intro last_entry_hash_verified [OF assms(1,4)]) (simp add: AUDIT_RECOVERY_WINDOW_BYTES_def)
  then show ?thesis using assms(2,3) by (simp add: open_logger_def)
qed

text \<open>\<open>log\<close> succeeds only if the whole line of the sealed entry, linked to the current
  hash, was written and synced; on every failure the caller gets an error and the hash of the
  chain is not advanced.\<close>

theorem log_outcome:
  "(fst (log to_json sha256 wr sy e l) = Inr () \<longleftrightarrow>
      \<not> al_poisoned l \<and> to_json (seal sha256 (al_prev_hash l) e) \<noteq> None \<and> wr = None \<and> sy) \<and>
   (case log to_json sha256 wr sy e l of
      (Inr _, l') \<Rightarrow>
        al_file l' = al_file l @ the (to_json (seal sha256 (al_prev_hash l) e)) @ [newline] \<and>
        al_prev_hash l' = hex_sha256 sha256 (hash_payload_v1 (seal sha256 (al_prev_hash l) e))
    | (Inl _, l') \<Rightarrow> al_prev_hash l' = al_prev_hash l)"
  by (auto simp: log_def Let_def split: option.splits)

section \<open>Witnesses\<close>

definition sample_sha :: "bytes \<Rightarrow> bytes" where
  "sample_sha m = replicate 32 1"

definition sample_entry :: AuditEntry where
  "sample_entry = \<lparr>ae_ts_ms = 1, ae_request_id = Some ''req-1'', ae_caller_uid = 1000, ae_uid = 1000,
     ae_adapter_name = Some ''fido2'', ae_method = ''fido2'', ae_decision = ''allow'',
     ae_deny_reason = None, ae_confidence = f32_one, ae_evidence_hash = [], ae_nonce_prefix = [],
     ae_prev_hash = [], ae_entry_hash = []\<rparr>"

text \<open>A codec that writes the previous hash and reads the sealed sample entry back.\<close>

definition sample_to_json :: "AuditEntry \<Rightarrow> string option" where
  "sample_to_json e = Some (ae_prev_hash e)"

definition sample_from_json :: "string \<Rightarrow> AuditEntry option" where
  "sample_from_json s = (if is_lower_hex_hash s then Some (seal sample_sha s sample_entry) else None)"

definition sample_logger :: AuditLogger where
  "sample_logger = \<lparr>al_owner = RootOrCurrent, al_file = [], al_prev_hash = ZERO_HASH, al_poisoned = False\<rparr>"

lemma length_sample_sha [simp]: "length (sample_sha m) = 32"
  by (simp add: sample_sha_def)

lemma lower_hex_plain: "is_lower_hex_hash h \<Longrightarrow> c \<in> set h \<Longrightarrow> 33 \<le> code c \<and> code c < 128"
  by (auto simp: is_lower_hex_hash_def list_all_iff lower_hex_char_def)

lemma sample_faithful:
  assumes "is_lower_hex_hash h"
  shows "json_faithful sample_to_json sample_from_json (seal sample_sha h sample_entry)"
proof -
  have "newline \<notin> set h" using lower_hex_plain [OF assms, of newline] by auto
  moreover have "utf8_valid h" using lower_hex_plain [OF assms] by (intro utf8_valid_ascii) auto
  ultimately show ?thesis
    using assms by (simp add: json_faithful_def sample_to_json_def sample_from_json_def)
qed

lemma sample_blank: "list_all is_ascii_whitespace s \<longrightarrow> sample_from_json s = None"
proof -
  have "is_lower_hex_hash s \<Longrightarrow> s \<noteq> []" by (auto simp: is_lower_hex_hash_def)
  then show ?thesis
    by (cases s) (auto simp: sample_from_json_def is_ascii_whitespace_def dest: lower_hex_plain)
qed

lemma sample_intact: "intact sample_from_json sample_sha 0 sample_logger"
  by (simp add: intact_def sample_logger_def verify_reader_def)

lemma encode_hex_ones: "encode_hex (replicate n 1) = concat (replicate n [CHR ''0'', CHR ''1''])"
  by (induction n) (simp_all add: HEX_def)

lemma sample_digest: "hex_sha256 sample_sha s = concat (replicate 32 [CHR ''0'', CHR ''1''])"
  by (simp only: hex_sha256_def sample_sha_def encode_hex_ones)

lemma sample_digest_nonzero: "concat (replicate 32 [CHR ''0'', CHR ''1'']) \<noteq> ZERO_HASH"
proof -
  have "CHR ''1'' \<in> set (concat (replicate 32 [CHR ''0'', CHR ''1'']))" by simp
  moreover have "CHR ''1'' \<notin> set ZERO_HASH" by (simp add: ZERO_HASH_def)
  ultimately show ?thesis by metis
qed

theorem logged_chain_verifies_witness:
  "verify_reader sample_from_json sample_sha
     (al_file (log_all sample_to_json sample_sha [sample_entry, sample_entry] sample_logger)) =
   Inr \<lparr>rp_entries = 0 + length [sample_entry, sample_entry],
        rp_last_hash = al_prev_hash (log_all sample_to_json sample_sha [sample_entry, sample_entry] sample_logger)\<rparr>"
  by (rule logged_chain_verifies [OF sample_intact]) (simp_all add: sample_faithful)

lemma sample_line_verifies:
  "verify_reader sample_from_json sample_sha (unlines [ZERO_HASH]) =
     Inr \<lparr>rp_entries = 1, rp_last_hash = concat (replicate 32 [CHR ''0'', CHR ''1''])\<rparr>"
proof -
  have "log_lines_ok sample_from_json [ZERO_HASH] [seal sample_sha ZERO_HASH sample_entry]"
    using sample_faithful [of ZERO_HASH] seal_wf [of ZERO_HASH sample_sha sample_entry]
    by (simp add: log_lines_ok_def json_faithful_def sample_to_json_def)
  then show ?thesis
    by (subst verify_reader_iff)
       (rule exI [of _ "[ZERO_HASH]"], rule exI [of _ "[seal sample_sha ZERO_HASH sample_entry]"],
         simp add: sample_digest)
qed

theorem audit_log_tamper_evident_witness:
  "entries_of sample_from_json (unlines [ZERO_HASH]) = entries_of sample_from_json (unlines [ZERO_HASH]) \<or>
    (\<exists>i<rp_entries \<lparr>rp_entries = 1, rp_last_hash = concat (replicate 32 [CHR ''0'', CHR ''1''])\<rparr>.
       let p = as_bytes (hash_payload_v1 (entries_of sample_from_json (unlines [ZERO_HASH]) ! i));
           q = as_bytes (hash_payload_v1 (entries_of sample_from_json (unlines [ZERO_HASH]) ! i))
       in p \<noteq> q \<and> sample_sha p = sample_sha q)"
  by (rule audit_log_tamper_evident [OF sample_line_verifies sample_line_verifies])

definition sample_log_file :: OpenFile where
  "sample_log_file = \<lparr>fd_stat = Some \<lparr>st_mode = 33152, st_uid = 0, st_size = 65\<rparr>,
     fd_data = Some (unlines [ZERO_HASH]), fd_probe_ok = True, fd_chmod_ok = True\<rparr>"

lemma newline_not_hex: "is_lower_hex_hash h \<Longrightarrow> newline \<notin> set h"
  using lower_hex_plain [of h newline] by auto

theorem restart_resumes_chain_witness:
  "open_logger sample_from_json sample_sha True 0 (Inr sample_log_file, Inl IoOther, Inl IoOther)
     RootOrCurrent =
   Inr \<lparr>al_owner = RootOrCurrent, al_file = unlines [ZERO_HASH],
        al_prev_hash = rp_last_hash \<lparr>rp_entries = 1, rp_last_hash = concat (replicate 32 [CHR ''0'', CHR ''1''])\<rparr>,
        al_poisoned = False\<rparr>"
proof (rule restart_resumes_chain [OF sample_line_verifies])
  show "append_open 0 (Inr sample_log_file, Inl IoOther, Inl IoOther) RootOrCurrent = Inr sample_log_file"
    by (simp add: append_open_def open_secure_append_def validate_owner_def sample_log_file_def)
  show "\<forall>l\<in>set (split_newline (unlines [ZERO_HASH])). length l + 1 < 1024 * 1024"
    using split_unlines [of "[ZERO_HASH]"] newline_not_hex [of ZERO_HASH]
    by (simp add: ZERO_HASH_def)
qed (simp_all add: sample_blank sample_log_file_def)

section \<open>When the chain breaks\<close>

text \<open>C35: If the sync of one entry fails after its line was written, the logger keeps the old hash, so
  the next entry that is logged successfully links to it a second time, and \<open>audit verify\<close> rejects the
  file at that line, whatever is appended to it afterwards. This under the conditions that the log
  verified before, that digests have 32 bytes, that the JSON of both entries reads back as it was
  written, and that the first entry's hash is not the hash it links to.\<close>

theorem sync_failure_breaks_chain:
  assumes "intact from_json sha256 n l" and "\<forall>m. length (sha256 m) = 32"
    and "json_faithful to_json from_json (seal sha256 (al_prev_hash l) e)"
    and "json_faithful to_json from_json (seal sha256 (al_prev_hash l) f)"
    and "ae_entry_hash (seal sha256 (al_prev_hash l) e) \<noteq> al_prev_hash l"
  defines "l1 \<equiv> snd (log to_json sha256 None False e l)"
  defines "l2 \<equiv> snd (log to_json sha256 None True f l1)"
  shows "fst (log to_json sha256 None False e l) = Inl AuditSync \<and>
    fst (log to_json sha256 None True f l1) = Inr () \<and>
    (\<forall>later. verify_reader from_json sha256 (al_file l2 @ later) = Inl (PrevHashMismatch (n + 2)))"
proof -
  let ?h = "al_prev_hash l"
  obtain js ks where js: "to_json (seal sha256 ?h e) = Some js" "newline \<notin> set js"
      and ks: "to_json (seal sha256 ?h f) = Some ks" "newline \<notin> set ks" "utf8_valid ks"
        "from_json ks = Some (seal sha256 ?h f)"
    using assms(3,4) by (auto simp: json_faithful_def split: option.splits)
  have p: "\<not> al_poisoned l" using assms(1) by (simp add: intact_def)
  have l1: "l1 = l\<lparr>al_file := al_file l @ js @ [newline]\<rparr>"
    "fst (log to_json sha256 None False e l) = Inl AuditSync"
    using p js by (simp_all add: l1_def log_def Let_def)
  have log2: "log to_json sha256 None True f l1 =
      (Inr (), l1\<lparr>al_file := al_file l @ js @ newline # ks @ [newline],
                  al_prev_hash := ae_entry_hash (seal sha256 ?h f)\<rparr>)"
    using p ks by (simp add: l1 log_def Let_def)
  have "verify_line from_json sha256 ?h (n + 1) js = Inr (ae_entry_hash (seal sha256 ?h e))"
    using verify_sealed [OF assms(3) intact_hex [OF assms(1)] assms(2) js(1)] .
  moreover have "verify_line from_json sha256 (ae_entry_hash (seal sha256 ?h e)) (n + 2) ks =
      Inl (PrevHashMismatch (n + 2))"
    using ks seal_wf [OF intact_hex [OF assms(1)] assms(2), of f] assms(5)
    by (simp add: verify_line_def entry_wf_def from_utf8_def)
  ultimately have "verify_reader from_json sha256 (al_file l @ js @ newline # ks @ newline # later) =
      Inl (PrevHashMismatch (n + 2))" for later
    using assms(1) js(2) ks(2)
    by (simp add: intact_def verify_reader_append verify_loop_line)
  then show ?thesis by (simp add: l1(2) l2_def log2)
qed

theorem sync_failure_breaks_chain_witness:
  "\<forall>later. verify_reader sample_from_json sample_sha
     (al_file (snd (log sample_to_json sample_sha None True sample_entry
        (snd (log sample_to_json sample_sha None False sample_entry sample_logger)))) @ later) =
   Inl (PrevHashMismatch (0 + 2))"
proof -
  have "ae_entry_hash (seal sample_sha ZERO_HASH sample_entry) \<noteq> ZERO_HASH"
    by (simp add: sample_digest sample_digest_nonzero)
  then show ?thesis
    using sync_failure_breaks_chain [OF sample_intact, of sample_to_json sample_entry sample_entry]
      sample_faithful [of ZERO_HASH]
    by (simp add: sample_logger_def)
qed

text \<open>C37: After a rotation (a reopened, empty file) the next entry keeps its link to the old
  file, so the new file on its own does not verify unless the chain was still empty: the verifier
  starts every file at the zero hash.\<close>

theorem rotated_log_rejected:
  assumes "intact from_json sha256 n l" and "\<forall>m. length (sha256 m) = 32"
    and "json_faithful to_json from_json (seal sha256 (al_prev_hash l) e)"
    and "al_prev_hash l \<noteq> ZERO_HASH"
    and "append_open cur opens (al_owner l) = Inr f" and "fd_data f = Some []"
  defines "l1 \<equiv> snd (reopen cur opens l)"
  shows "fst (log to_json sha256 None True e l1) = Inr () \<and>
    verify_reader from_json sha256 (al_file (snd (log to_json sha256 None True e l1))) =
      Inl (PrevHashMismatch 1)"
proof -
  obtain js where js: "to_json (seal sha256 (al_prev_hash l) e) = Some js" "newline \<notin> set js"
      "utf8_valid js" "from_json js = Some (seal sha256 (al_prev_hash l) e)"
    using assms(3) by (auto simp: json_faithful_def split: option.splits)
  have p: "\<not> al_poisoned l" using assms(1) by (simp add: intact_def)
  then have "l1 = l\<lparr>al_file := []\<rparr>" using assms(5,6) by (simp add: l1_def reopen_def)
  moreover have "verify_line from_json sha256 ZERO_HASH 1 js = Inl (PrevHashMismatch 1)"
    using js assms(4) seal_wf [OF intact_hex [OF assms(1)] assms(2), of e]
    by (simp add: verify_line_def entry_wf_def from_utf8_def)
  ultimately show ?thesis
    using p js verify_loop_line [OF js(2), of from_json sha256 ZERO_HASH 0 0 "[]"]
    by (simp add: log_def Let_def verify_reader_def)
qed

text \<open>C36: An entry whose JSON form does not read back (serde_json writes a confidence that is not
  finite as \<open>null\<close>, which is no \<open>f32\<close>) is logged without an error, but makes \<open>audit verify\<close>
  fail at its line and the next start of the daemon fail to recover the chain.\<close>

theorem unreadable_entry_blocks_restart:
  assumes "intact from_json sha256 n l" and "to_json (seal sha256 (al_prev_hash l) e) = Some js"
    and "newline \<notin> set js" and "utf8_valid js" and "\<not> list_all is_ascii_whitespace js"
    and "length js + 1 < 1024 * 1024" and "from_json js = None"
  defines "l1 \<equiv> snd (log to_json sha256 None True e l)"
  shows "fst (log to_json sha256 None True e l) = Inr () \<and>
    verify_reader from_json sha256 (al_file l1) = Inl (Malformed (n + 1)) \<and>
    last_entry_hash from_json sha256 (al_file l1) = Inl MalformedFinal"
proof -
  have p: "\<not> al_poisoned l" and v: "verify_reader from_json sha256 (al_file l) =
       Inr \<lparr>rp_entries = n, rp_last_hash = al_prev_hash l\<rparr>"
    using assms(1) by (simp_all add: intact_def)
  have l1: "al_file l1 = al_file l @ js @ [newline]"
    using p assms(2) by (simp add: l1_def log_Inr)
  have "verify_line from_json sha256 (al_prev_hash l) (n + 1) js = Inl (Malformed (n + 1))"
    using assms(4,7) by (simp add: verify_line_def from_utf8_def)
  then have "verify_reader from_json sha256 (al_file l1) = Inl (Malformed (n + 1))"
    using v assms(3) by (simp add: l1 verify_reader_append verify_loop_line)
  moreover have "al_file l = [] \<or> last (al_file l) = newline"
  proof -
    obtain ls where "al_file l = unlines ls" using v by (auto simp: verify_reader_iff)
    then show ?thesis using last_unlines [of ls] by (cases "ls = []") auto
  qed
  then have "last_entry_hash from_json sha256 (al_file l1) = recover_entry_hash from_json sha256 js"
    unfolding l1 using assms(3-6)
    by (intro last_entry_hash_end) (simp_all add: AUDIT_RECOVERY_WINDOW_BYTES_def)
  ultimately show ?thesis
    using p assms(2,7) by (simp add: log_Inr recover_entry_hash_def)
qed

theorem unreadable_entry_blocks_restart_witness:
  "fst (log (\<lambda>_. Some ''{}'') sample_sha None True sample_entry sample_logger) = Inr () \<and>
   verify_reader sample_from_json sample_sha
     (al_file (snd (log (\<lambda>_. Some ''{}'') sample_sha None True sample_entry sample_logger))) =
     Inl (Malformed (0 + 1)) \<and>
   last_entry_hash sample_from_json sample_sha
     (al_file (snd (log (\<lambda>_. Some ''{}'') sample_sha None True sample_entry sample_logger))) =
     Inl MalformedFinal"
  by (rule unreadable_entry_blocks_restart [OF sample_intact, where js = "''{}''"])
     (simp_all add: is_ascii_whitespace_def sample_from_json_def is_lower_hex_hash_def)

theorem rotated_log_rejected_witness:
  "fst (log sample_to_json sample_sha None True sample_entry
     (snd (reopen 0 (Inl IoNotFound, Inr (sample_log_file\<lparr>fd_data := Some []\<rparr>), Inl IoOther)
        (snd (log sample_to_json sample_sha None True sample_entry sample_logger))))) = Inr ()"
proof -
  let ?l = "snd (log sample_to_json sample_sha None True sample_entry sample_logger)"
  have l: "log sample_to_json sample_sha None True sample_entry sample_logger = (Inr (), ?l)"
    and h: "al_prev_hash ?l = ae_entry_hash (seal sample_sha ZERO_HASH sample_entry)"
    and ow: "al_owner ?l = RootOrCurrent"
    by (simp_all add: log_def Let_def sample_logger_def sample_to_json_def)
  have i: "intact sample_from_json sample_sha (0 + 1) ?l"
    by (rule log_intact [OF sample_intact _ _ l])
       (simp_all add: sample_faithful sample_logger_def)
  have "al_prev_hash ?l \<noteq> ZERO_HASH"
    by (simp add: h sample_digest sample_digest_nonzero)
  then show ?thesis
    using rotated_log_rejected [OF i, where to_json = sample_to_json and e = sample_entry and cur = 0
        and opens = "(Inl IoNotFound, Inr (sample_log_file\<lparr>fd_data := Some []\<rparr>), Inl IoOther)"
        and f = "sample_log_file\<lparr>fd_data := Some []\<rparr>"] intact_hex [OF i]
    by (simp add: sample_faithful ow append_open_def open_secure_append_def validate_owner_def
        sample_log_file_def)
qed

end
