(* ===== verification/Server_Properties.thy ===== *)
theory Server_Properties
  imports Server Audit_Properties
begin

text \<open>
  What one request guarantees: an allow needs every check of the path; a decision leaves the
  daemon only with its entry written and synced; the nonce of a request never outlives it; the
  target uid of a non-root caller is its own. The lemmas about \<open>begin_verify\<close>,
  \<open>conclude_verify\<close> and \<open>settle\<close> are shared with the interleaved system.
\<close>

section \<open>Shape of the conclusions\<close>

lemma decision_deny_conclusion [simp]:
  "decision_of (cn_response (deny_conclusion orc c u m r a i res cr)) = Some ''deny''"
  "ae_decision (cn_entry (deny_conclusion orc c u m r a i res cr)) = ''deny''"
  "ae_caller_uid (cn_entry (deny_conclusion orc c u m r a i res cr)) = c"
  "ae_uid (cn_entry (deny_conclusion orc c u m r a i res cr)) = u"
  "ae_request_id (cn_entry (deny_conclusion orc c u m r a i res cr)) = i"
  "rsp_id (cn_response (deny_conclusion orc c u m r a i res cr)) = i"
  by (simp_all add: deny_conclusion_def deny_entry_def split: prod.splits)

lemma session_deny_simps [simp]:
  "decision_of (cn_response (session_deny orc ss r res cr)) = Some ''deny''"
  "ae_decision (cn_entry (session_deny orc ss r res cr)) = ''deny''"
  "ae_caller_uid (cn_entry (session_deny orc ss r res cr)) = ss_caller_uid ss"
  "ae_uid (cn_entry (session_deny orc ss r res cr)) = ss_uid ss"
  "ae_request_id (cn_entry (session_deny orc ss r res cr)) = ss_req_id ss"
  "rsp_id (cn_response (session_deny orc ss r res cr)) = ss_req_id ss"
  by (simp_all add: session_deny_def)

text \<open>The entry and the response of a conclusion tell the same story.\<close>

definition conclusion_for :: "u32 \<Rightarrow> u32 \<Rightarrow> string option \<Rightarrow> Conclusion \<Rightarrow> bool" where
  "conclusion_for caller uid rid cn \<longleftrightarrow>
     ae_decision (cn_entry cn) \<in> {''allow'', ''deny''} \<and>
     decision_of (cn_response cn) = Some (ae_decision (cn_entry cn)) \<and>
     rsp_id (cn_response cn) = rid \<and> ae_request_id (cn_entry cn) = rid \<and>
     ae_caller_uid (cn_entry cn) = caller \<and> ae_uid (cn_entry cn) = uid"

abbreviation session_conclusion :: "Session \<Rightarrow> Conclusion \<Rightarrow> bool" where
  "session_conclusion ss \<equiv> conclusion_for (ss_caller_uid ss) (ss_uid ss) (ss_req_id ss)"

lemma conclusion_for_deny [simp]:
  "session_conclusion ss (session_deny orc ss r res cr)"
  "conclusion_for c u i (deny_conclusion orc c u m r a i res cr)"
  by (simp_all add: conclusion_for_def)

lemma from_decision_simps [simp]:
  "ae_caller_uid (from_decision dbg now c d caller a i) = caller"
  "ae_uid (from_decision dbg now c d caller a i) = ctx_uid c"
  "ae_request_id (from_decision dbg now c d caller a i) = i"
  "ae_decision (from_decision dbg now c d caller a i) = (case d of Allow \<Rightarrow> ''allow'' | Deny _ \<Rightarrow> ''deny'')"
  by (simp_all add: from_decision_def Let_def split_beta split: PolicyDecision.splits)

lemma judge_conclusion: "session_conclusion ss (judge pk orc rel ss result st)"
  by (auto simp: judge_def Let_def conclusion_for_def session_context_def
      split: sum.splits PolicyDecision.splits)

lemma conclude_conclusion: "session_conclusion ss (fst (conclude_verify pk orc rel ss ans st))"
  by (auto simp: conclude_verify_def judge_conclusion Let_def split: sum.splits prod.splits)

lemma begin_conclusion:
  "begin_verify orc st caller uid method rid = (Inl cn, st') \<Longrightarrow> conclusion_for caller uid rid cn"
  by (auto simp: begin_verify_def Let_def split: sum.splits prod.splits)

lemma begin_session:
  "begin_verify orc st caller uid method rid = (Inr ss, st') \<Longrightarrow>
     ss_caller_uid ss = caller \<and> ss_uid ss = uid \<and> ss_req_id ss = rid \<and>
     resolve (sv_registry st) method = Inr (ss_resolved ss) \<and>
     generate (or_rng orc) (or_generate_now orc) uid (sv_nonces st) = (Inr (ss_nonce ss), sv_nonces st') \<and>
     st' = st\<lparr>sv_nonces := sv_nonces st'\<rparr> \<and>
     ss_request ss = \<lparr>vr_version = PROTOCOL_VERSION, vr_id = or_uuid orc, vr_uid = uid,
        vr_nonce = ss_nonce ss,
        vr_deadline_ms = saturating_add_u64 (or_start_ms orc) (ra_timeout_ms (ss_resolved ss))\<rparr>"
  by (auto simp: begin_verify_def Let_def split: sum.splits prod.splits)

section \<open>What an allow needs\<close>

lemma judge_allow:
  assumes "decision_of (cn_response (judge pk orc rel ss result st)) = Some ''allow''"
  shows "(cf_require_attestation (sv_config st) \<longrightarrow>
      verify_attestation (pk_sha256 pk) (pk_hmac pk) (sv_attester st)
        (ra_adapter_name (ss_resolved ss)) result = Inr ()) \<and>
    as_str (rs_method result) = ra_method (ss_resolved ss) \<and>
    evaluate (or_policy_ms orc) (rl_policy rel) (session_context ss result) = Allow \<and>
    cn_response (judge pk orc rel ss result st) =
      response_allow (ss_req_id ss) (ra_method (ss_resolved ss))"
  using assms by (auto simp: judge_def Let_def split: sum.splits if_splits PolicyDecision.splits)

definition answer_sound ::
  "Packages \<Rightarrow> Oracle \<Rightarrow> ReloadableState \<Rightarrow> Session \<Rightarrow> ServerState \<Rightarrow> VerificationResult \<Rightarrow> bool" where
  "answer_sound pk orc rel ss st result \<longleftrightarrow>
     rs_nonce result = ss_nonce ss \<and> or_finish_ms orc \<le> vr_deadline_ms (ss_request ss) \<and>
     fst (consume (or_consume_now orc) (ss_nonce ss) (ss_uid ss) (sv_nonces st)) = Inr () \<and>
     (cf_require_attestation (sv_config st) \<longrightarrow>
        verify_attestation (pk_sha256 pk) (pk_hmac pk) (sv_attester st)
          (ra_adapter_name (ss_resolved ss)) result = Inr ()) \<and>
     as_str (rs_method result) = ra_method (ss_resolved ss) \<and>
     evaluate (or_policy_ms orc) (rl_policy rel) (session_context ss result) = Allow"

lemma conclude_allow:
  assumes "decision_of (cn_response (fst (conclude_verify pk orc rel ss ans st))) = Some ''allow''"
  shows "\<exists>result. ans = Inr result \<and> answer_sound pk orc rel ss st result \<and>
    cn_response (fst (conclude_verify pk orc rel ss ans st)) =
      response_allow (ss_req_id ss) (ra_method (ss_resolved ss))"
proof (cases ans)
  case (Inl e)
  then show ?thesis using assms by (simp add: conclude_verify_def Let_def)
next
  case (Inr result)
  obtain r nonces where c: "consume (or_consume_now orc) (ss_nonce ss) (ss_uid ss) (sv_nonces st) = (r, nonces)"
    by (cases "consume (or_consume_now orc) (ss_nonce ss) (ss_uid ss) (sv_nonces st)")
  have pass: "rs_nonce result = ss_nonce ss" "\<not> vr_deadline_ms (ss_request ss) < or_finish_ms orc" "r = Inr ()"
    and cn: "fst (conclude_verify pk orc rel ss ans st) = judge pk orc rel ss result (st\<lparr>sv_nonces := nonces\<rparr>)"
    using assms Inr c
    by (auto simp: conclude_verify_def spend_nonce_def split: if_splits sum.splits)
  from assms [unfolded cn] have "decision_of (cn_response (judge pk orc rel ss result (st\<lparr>sv_nonces := nonces\<rparr>))) = Some ''allow''" .
  from judge_allow [OF this] show ?thesis
    using Inr pass c cn by (auto simp: answer_sound_def not_less)
qed

section \<open>Settling\<close>

lemma settle_cases:
  assumes "settle pk orc rid cn st = (resp, st')"
  obtains
    (durable) json where "resp = cn_response cn" "st' = st\<lparr>sv_audit := sv_audit st'\<rparr>"
      "pk_entry_json pk (seal (pk_sha256 pk) (al_prev_hash (sv_audit st)) (cn_entry cn)) = Some json"
      "log (pk_entry_json pk) (pk_sha256 pk) None True (cn_entry cn) (sv_audit st) = (Inr (), sv_audit st')"
      "al_file (sv_audit st') = al_file (sv_audit st) @ json @ [newline]"
      "al_prev_hash (sv_audit st') =
         ae_entry_hash (seal (pk_sha256 pk) (al_prev_hash (sv_audit st)) (cn_entry cn))"
      "or_write_fail orc = None" "or_sync_ok orc"
  | (failed) e where "resp = response_error rid ''audit failed''"
      "log (pk_entry_json pk) (pk_sha256 pk) (or_write_fail orc) (or_sync_ok orc) (cn_entry cn)
         (sv_audit st) = (Inl e, sv_audit st')"
      "st' = count_failure (st\<lparr>sv_audit := sv_audit st'\<rparr>)"
proof (cases "log (pk_entry_json pk) (pk_sha256 pk) (or_write_fail orc) (or_sync_ok orc)
    (cn_entry cn) (sv_audit st)")
  case (Pair r l)
  show ?thesis
  proof (cases r)
    case (Inl e)
    then show ?thesis
      using assms Pair failed [of e]
      by (auto simp: settle_def write_audit_or_error_def count_failure_def)
  next
    case (Inr u)
    then have l: "resp = cn_response cn" "st' = st\<lparr>sv_audit := l\<rparr>"
      using assms Pair by (auto simp: settle_def write_audit_or_error_def)
    have "or_write_fail orc = None" "or_sync_ok orc" "\<not> al_poisoned (sv_audit st)"
      and "\<exists>json. pk_entry_json pk (seal (pk_sha256 pk) (al_prev_hash (sv_audit st)) (cn_entry cn)) = Some json \<and>
        al_file l = al_file (sv_audit st) @ json @ [newline] \<and>
        al_prev_hash l = ae_entry_hash (seal (pk_sha256 pk) (al_prev_hash (sv_audit st)) (cn_entry cn))"
      using Pair Inr by (auto simp: log_def Let_def split: option.splits if_splits)
    then show ?thesis using durable l Pair Inr by auto
  qed
qed

lemma settle_nonces [simp]: "sv_nonces (snd (settle pk orc rid cn st)) = sv_nonces st"
  by (auto simp: settle_def write_audit_or_error_def count_failure_def Let_def
      split: prod.splits sum.splits)

lemma conclude_nonces:
  "sv_nonces (snd (conclude_verify pk orc rel ss ans st)) =
     snd (consume (or_consume_now orc) (ss_nonce ss) (ss_uid ss) (sv_nonces st))"
  by (auto simp: conclude_verify_def spend_nonce_def Let_def split: sum.splits prod.splits)

lemma conclude_frame:
  "snd (conclude_verify pk orc rel ss ans st) =
     st\<lparr>sv_nonces := sv_nonces (snd (conclude_verify pk orc rel ss ans st))\<rparr>"
  by (auto simp: conclude_verify_def spend_nonce_def Let_def split: sum.splits prod.splits)

lemma conclude_audit [simp]: "sv_audit (snd (conclude_verify pk orc rel ss ans st)) = sv_audit st"
  by (subst conclude_frame) simp

lemma begin_frame:
  "begin_verify orc st caller uid method rid = (r, st') \<Longrightarrow> st' = st\<lparr>sv_nonces := sv_nonces st'\<rparr>"
  by (auto simp: begin_verify_def Let_def split: sum.splits prod.splits)

lemma begin_deny_nonces:
  "begin_verify orc st caller uid method rid = (Inl cn, st') \<Longrightarrow> sv_nonces st' = sv_nonces st"
  by (auto simp: begin_verify_def Let_def dest: generate_Inl split: sum.splits prod.splits)

section \<open>The whole handler\<close>

lemma handle_verify_cases:
  assumes "handle_verify_once pk orc st rel caller uid method rid = (resp, st')"
  obtains
    (refused) cn where "begin_verify orc st caller uid method rid = (Inl cn, st)"
      "settle pk orc rid cn st = (resp, st')"
  | (answered) ss st1 cn st2 where
      "begin_verify orc st caller uid method rid = (Inr ss, st1)"
      "conclude_verify pk orc rel ss (fst (session_dispatch pk orc st1 ss)) st1 = (cn, st2)"
      "settle pk orc rid cn st2 = (resp, st')"
proof (cases "begin_verify orc st caller uid method rid")
  case (Pair r st1)
  show ?thesis
  proof (cases r)
    case (Inl cn)
    have "st1 = st"
      using begin_frame [OF Pair] begin_deny_nonces [OF Pair [unfolded Inl]] by simp
    then show ?thesis using assms Pair Inl refused by (simp add: handle_verify_once_def)
  next
    case (Inr ss)
    then show ?thesis
      using assms Pair answered
      by (auto simp: handle_verify_once_def split: prod.splits)
  qed
qed

lemma handle_verify_nonces:
  assumes "nonce_inv (sv_nonces st)"
    and "handle_verify_once pk orc st rel caller uid method rid = (resp, st')"
  shows "live_nonces (sv_nonces st') = live_nonces (sv_nonces st) \<and> nonce_inv (sv_nonces st')"
  using assms(2)
proof (cases rule: handle_verify_cases)
  case (refused cn)
  then have "sv_nonces st' = sv_nonces st" using settle_nonces [of pk orc rid cn st] by simp
  then show ?thesis using assms(1) by simp
next
  case (answered ss st1 cn st2)
  note b = begin_session [OF answered(1)]
  then have g: "generate (or_rng orc) (or_generate_now orc) uid (sv_nonces st) = (Inr (ss_nonce ss), sv_nonces st1)"
    by simp
  from generate_Inr [OF assms(1) g]
  have fresh: "ss_nonce ss \<notin> live_nonces (sv_nonces st)"
    and s1: "sv_nonces st1 = issue (ss_nonce ss) (or_generate_now orc) uid (sv_nonces st)"
    and np: "\<not> nonce_poisoned (sv_nonces st)"
    by (auto simp: live_nonces_def)
  have inv1: "nonce_inv (sv_nonces st1)" using nonce_inv_generate [OF assms(1)] g by (metis snd_conv)
  have n: "sv_nonces st' = snd (consume (or_consume_now orc) (ss_nonce ss) (ss_uid ss) (sv_nonces st1))"
    using settle_nonces [of pk orc rid cn st2] conclude_nonces [of pk orc rel ss _ st1] answered(2,3)
    by (metis snd_conv)
  then have "live_nonces (sv_nonces st') = live_nonces (sv_nonces st1) - {ss_nonce ss}"
    using np s1 by (simp add: consume_live)
  then show ?thesis
    using fresh s1 n inv1 nonce_inv_consume by (auto simp: live_issue)
qed

text \<open>Everything the path from a request to an allow checks.\<close>

definition path_agreed ::
  "Packages \<Rightarrow> Oracle \<Rightarrow> ServerState \<Rightarrow> ReloadableState \<Rightarrow> u32 \<Rightarrow> string \<Rightarrow> string option \<Rightarrow> Response \<Rightarrow>
   ResolvedAdapter \<Rightarrow> bytes \<Rightarrow> NonceState \<Rightarrow> string \<Rightarrow> VerificationResult \<Rightarrow> bool" where
  "path_agreed pk orc st rel uid method rid resp resolved nonce nonces line result \<longleftrightarrow>
    resolve (sv_registry st) method = Inr resolved \<and>
    \<not> adapter_down (sv_registry st) (ra_adapter_name resolved) \<and>
    generate (or_rng orc) (or_generate_now orc) uid (sv_nonces st) = (Inr nonce, nonces) \<and>
    io_peer_uid (or_io orc) = Inr (cl_expected_uid (ra_client resolved)) \<and>
    io_next (or_io orc) = Done (Some (Inr line)) \<and> pk_result_json pk line = Inr result \<and>
    rs_version result = 1 \<and> rs_id result = or_uuid orc \<and> rs_nonce result = nonce \<and>
    or_finish_ms orc \<le> saturating_add_u64 (or_start_ms orc) (ra_timeout_ms resolved) \<and>
    fst (consume (or_consume_now orc) nonce uid nonces) = Inr () \<and>
    (cf_require_attestation (sv_config st) \<longrightarrow>
       verify_attestation (pk_sha256 pk) (pk_hmac pk) (sv_attester st) (ra_adapter_name resolved) result = Inr ()) \<and>
    as_str (rs_method result) = ra_method resolved \<and>
    evaluate (or_policy_ms orc) (rl_policy rel)
      \<lparr>ctx_uid = uid, ctx_method = ra_method resolved,
       ctx_request = \<lparr>vr_version = 1, vr_id = or_uuid orc, vr_uid = uid, vr_nonce = nonce,
         vr_deadline_ms = saturating_add_u64 (or_start_ms orc) (ra_timeout_ms resolved)\<rparr>,
       ctx_result = result, ctx_decision = None\<rparr> = Allow \<and>
    resp = response_allow rid (ra_method resolved)"

lemma handle_verify_allow:
  assumes "handle_verify_once pk orc st rel caller uid method rid = (resp, st')"
    and "decision_of resp = Some ''allow''"
  shows "\<exists>resolved nonce nonces line result.
    path_agreed pk orc st rel uid method rid resp resolved nonce nonces line result"
  using assms(1)
proof (cases rule: handle_verify_cases)
  case (refused cn)
  from refused(2) show ?thesis
  proof (cases rule: settle_cases)
    case (durable json)
    then show ?thesis
      using assms(2) begin_conclusion [OF refused(1)] refused(1)
      by (auto simp: begin_verify_def Let_def split: sum.splits prod.splits)
  next
    case (failed e)
    then show ?thesis using assms(2) by simp
  qed
next
  case (answered ss st1 cn st2)
  note b = begin_session [OF answered(1)]
  from answered(3) have r: "resp = cn_response cn" using assms(2) by (cases rule: settle_cases) auto
  have cn: "cn = fst (conclude_verify pk orc rel ss (fst (session_dispatch pk orc st1 ss)) st1)"
    using answered(2) by simp
  obtain result where res: "fst (session_dispatch pk orc st1 ss) = Inr result"
    and s: "answer_sound pk orc rel ss st1 result"
    and resp: "cn_response cn = response_allow (ss_req_id ss) (ra_method (ss_resolved ss))"
    using conclude_allow [of pk orc rel ss "fst (session_dispatch pk orc st1 ss)" st1] assms(2) r cn by auto
  have st1: "sv_registry st1 = sv_registry st" "sv_config st1 = sv_config st" "sv_attester st1 = sv_attester st"
    using begin_frame [OF answered(1)] by (metis ServerState.select_convs(1,3,7) ServerState.surjective ServerState.update_convs(4))+
  note d = dispatch_Inr [OF res [unfolded session_dispatch_def]]
  note v = verify_client_Inr [OF d [THEN conjunct2, THEN conjunct2]]
  have name: "ra_adapter_name (ss_resolved ss) = cl_name (ra_client (ss_resolved ss))"
    using resolve_Inr b by blast
  show ?thesis
    using b d v s st1 name resp r
    by (intro exI [of _ "ss_resolved ss"] exI [of _ "ss_nonce ss"] exI [of _ "sv_nonces st1"])
       (auto simp: path_agreed_def answer_sound_def session_context_def PROTOCOL_VERSION_def)
qed

section \<open>What is enough for an allow\<close>

definition audit_works :: "Packages \<Rightarrow> Oracle \<Rightarrow> ServerState \<Rightarrow> bool" where
  "audit_works pk orc st \<longleftrightarrow> \<not> al_poisoned (sv_audit st) \<and> or_write_fail orc = None \<and> or_sync_ok orc \<and>
     (\<forall>e. pk_entry_json pk e \<noteq> None)"

lemma settle_works:
  assumes "audit_works pk orc st"
  shows "fst (settle pk orc rid cn st) = cn_response cn"
proof -
  obtain json where "pk_entry_json pk (seal (pk_sha256 pk) (al_prev_hash (sv_audit st)) (cn_entry cn)) = Some json"
    using assms by (auto simp: audit_works_def)
  then show ?thesis
    using assms by (simp add: audit_works_def settle_def write_audit_or_error_def log_def Let_def)
qed

lemma judge_complete:
  assumes "answer_sound pk orc rel ss st result" and "sv_config st' = sv_config st" and "sv_attester st' = sv_attester st"
  shows "cn_response (judge pk orc rel ss result st') = response_allow (ss_req_id ss) (ra_method (ss_resolved ss))"
  using assms by (auto simp: answer_sound_def judge_def Let_def)

lemma conclude_complete:
  assumes "answer_sound pk orc rel ss st result"
  shows "cn_response (fst (conclude_verify pk orc rel ss (Inr result) st)) =
    response_allow (ss_req_id ss) (ra_method (ss_resolved ss))"
proof -
  obtain nonces where "consume (or_consume_now orc) (ss_nonce ss) (ss_uid ss) (sv_nonces st) = (Inr (), nonces)"
    using assms by (metis answer_sound_def prod.collapse)
  then have "fst (conclude_verify pk orc rel ss (Inr result) st) = judge pk orc rel ss result (st\<lparr>sv_nonces := nonces\<rparr>)"
    using assms by (auto simp: answer_sound_def conclude_verify_def spend_nonce_def)
  then show ?thesis using judge_complete [OF assms] by simp
qed

lemma handle_verify_complete:
  assumes "begin_verify orc st caller uid method rid = (Inr ss, st1)"
    and "fst (session_dispatch pk orc st1 ss) = Inr result" and "answer_sound pk orc rel ss st1 result"
    and "audit_works pk orc st"
  shows "fst (handle_verify_once pk orc st rel caller uid method rid) = response_allow rid (ra_method (ss_resolved ss))"
proof -
  obtain cn st2 where c: "conclude_verify pk orc rel ss (Inr result) st1 = (cn, st2)" by fastforce
  have "sv_audit st1 = sv_audit st"
    using begin_frame [OF assms(1)] by (metis ServerState.select_convs(5) ServerState.surjective ServerState.update_convs(4))
  then have "audit_works pk orc st2"
    using assms(4) conclude_audit [of pk orc rel ss "Inr result" st1] c by (simp add: audit_works_def)
  then show ?thesis
    using settle_works [of pk orc st2 rid cn] conclude_complete [OF assms(3)] c assms(1,2) begin_session [OF assms(1)]
    by (simp add: handle_verify_once_def)
qed

section \<open>Properties\<close>

text \<open>C5: The daemon answers \<open>allow\<close> only if everything on the path agreed: the method resolved to an
  adapter that is not down; a fresh nonce was issued to the target uid in this very call; the peer
  of the adapter socket had the configured uid and returned, in the protocol version and under this
  request's id, a result that carries that nonce; the deadline had not passed; the nonce could be
  spent; the HMAC verified wherever attestation is required; the method is the one that was
  resolved; and the policy of the loaded state allows.\<close>

theorem allow_requires_everything:
  assumes "handle_verify_once pk orc st rel caller uid method rid = (resp, st')"
    and "decision_of resp = Some ''allow''"
  shows "\<exists>resolved nonce nonces line result.
    resolve (sv_registry st) method = Inr resolved \<and>
    \<not> adapter_down (sv_registry st) (ra_adapter_name resolved) \<and>
    generate (or_rng orc) (or_generate_now orc) uid (sv_nonces st) = (Inr nonce, nonces) \<and>
    io_peer_uid (or_io orc) = Inr (cl_expected_uid (ra_client resolved)) \<and>
    io_next (or_io orc) = Done (Some (Inr line)) \<and> pk_result_json pk line = Inr result \<and>
    rs_version result = 1 \<and> rs_id result = or_uuid orc \<and> rs_nonce result = nonce \<and>
    or_finish_ms orc \<le> saturating_add_u64 (or_start_ms orc) (ra_timeout_ms resolved) \<and>
    fst (consume (or_consume_now orc) nonce uid nonces) = Inr () \<and>
    (cf_require_attestation (sv_config st) \<longrightarrow>
       verify_attestation (pk_sha256 pk) (pk_hmac pk) (sv_attester st) (ra_adapter_name resolved) result = Inr ()) \<and>
    as_str (rs_method result) = ra_method resolved \<and>
    evaluate (or_policy_ms orc) (rl_policy rel)
      \<lparr>ctx_uid = uid, ctx_method = ra_method resolved,
       ctx_request = \<lparr>vr_version = 1, vr_id = or_uuid orc, vr_uid = uid, vr_nonce = nonce,
         vr_deadline_ms = saturating_add_u64 (or_start_ms orc) (ra_timeout_ms resolved)\<rparr>,
       ctx_result = result, ctx_decision = None\<rparr> = Allow \<and>
    resp = response_allow rid (ra_method resolved)"
  using handle_verify_allow [OF assms] unfolding path_agreed_def .

definition sample_allow_result :: VerificationResult where
  "sample_allow_result = \<lparr>rs_version = 1, rs_id = [1], rs_confidence = f32_one, rs_method = Fido2,
     rs_timestamp_ms = 60000, rs_uid = 1000, rs_nonce = [7], rs_evidence_hash = replicate 32 0\<rparr>"

definition sample_packages :: Packages where
  "sample_packages = \<lparr>pk_sha256 = sample_sha, pk_hmac = (\<lambda>_ _. replicate 32 0),
     pk_entry_json = (\<lambda>_. Some ''{}''), pk_request_json = (\<lambda>_. Inr ''req''),
     pk_result_json = (\<lambda>_. Inr sample_allow_result),
     pk_client_json = (\<lambda>_. Inr \<lparr>rq_version = 1, rq_id = Some ''r1'', rq_method = ''verify_once'',
        rq_params = Some (JObj [(''method'', JStr ''fido2'')])\<rparr>),
     pk_debug_f32 = (\<lambda>_. ''1.0'')\<rparr>"

definition sample_oracle :: Oracle where
  "sample_oracle = \<lparr>or_check_now = 0, or_rng = (\<lambda>_. Some [7]), or_generate_now = 0, or_uuid = [1],
     or_start_ms = 60000, or_queue = QueueAcquired,
     or_io = \<lparr>io_connect = Done (Inr ()), io_peer_uid = Inr 990, io_send = Done (Inr ()),
              io_next = Done (Some (Inr ''res''))\<rparr>,
     or_finish_ms = 60001, or_consume_now = 1, or_policy_ms = 60001, or_audit_ms = 60001,
     or_write_fail = None, or_sync_ok = True, or_send_ok = True\<rparr>"

definition sample_server_config :: Config where
  "sample_server_config = \<lparr>cf_socket_path = [], cf_run_mode = ''prod'', cf_drain_secs = 3,
     cf_client_idle_timeout_secs = 20, cf_allowlist_path = [], cf_adapters_dir = [], cf_policy_path = [],
     cf_audit_log_path = [], cf_adapter_keys_dir = [], cf_max_result_age_secs = 10,
     cf_require_attestation = True\<rparr>"

definition sample_state :: ServerState where
  "sample_state = \<lparr>sv_registry = sample_registry\<lparr>reg_health :=
        monitor_client False True 1 ''demo'' (spawn_health [''demo''] 0)\<rparr>,
     sv_reloadable = \<lparr>rl_allowlist = \<lparr>allowed_uids = {1000}\<rparr>, rl_policy = sample_engine\<rparr>,
     sv_attester = \<lparr>adapter_keys = [(''demo'', as_bytes (replicate 32 CHR ''k''))]\<rparr>,
     sv_nonces = new_nonce_state, sv_audit = sample_logger\<lparr>al_owner := RootOrUid 990\<rparr>,
     sv_limiter = new_limiter, sv_config = sample_server_config, sv_owner = RootOrUid 990,
     sv_metrics = \<lparr>total_requests = 0, request_failures = 0, active_connections = 0, idle_closes = 0\<rparr>\<rparr>"

lemma sample_not_down: "\<not> adapter_down (sv_registry sample_state) ''demo''"
  by (simp add: sample_state_def adapter_down_def monitor_client_def spawn_health_def store_simps
      record_probe_def)

lemma sample_resolve: "resolve (sv_registry sample_state) ''fido2'' =
    Inr \<lparr>ra_adapter_name = ''demo'', ra_method = ''fido2'', ra_timeout_ms = 5000,
          ra_client = client_of_config sample_config\<rparr>"
  by (simp add: sample_state_def resolve_def resolve_client_def sample_registry_def hm_get_def
      client_of_config_def sample_config_def)

lemma sample_generate:
  "generate (or_rng sample_oracle) (or_generate_now sample_oracle) uid new_nonce_state =
     (Inr [7], issue [7] 0 uid new_nonce_state)"
  by (simp add: generate_def generate_first sample_oracle_def new_nonce_state_def
      MAX_PENDING_NONCES_def MAX_PENDING_NONCES_PER_UID_def)

lemma sample_evaluate: "evaluate 60001 sample_engine
    \<lparr>ctx_uid = 1000, ctx_method = ''fido2'', ctx_request = req, ctx_result = sample_allow_result,
     ctx_decision = None\<rparr> = Allow"
  by (subst evaluate_Allow)
     (simp add: sample_engine_def sample_allow_result_def rule_matches_def f32_in_unit_iff f32_lt_def)

definition sample_session :: "u32 \<Rightarrow> string option \<Rightarrow> Session" where
  "sample_session caller rid = \<lparr>ss_caller_uid = caller, ss_uid = 1000, ss_req_id = rid,
     ss_resolved = \<lparr>ra_adapter_name = ''demo'', ra_method = ''fido2'', ra_timeout_ms = 5000,
          ra_client = client_of_config sample_config\<rparr>, ss_nonce = [7],
     ss_request = \<lparr>vr_version = PROTOCOL_VERSION, vr_id = [1], vr_uid = 1000, vr_nonce = [7],
       vr_deadline_ms = 65000\<rparr>\<rparr>"

abbreviation sample_state1 :: ServerState where
  "sample_state1 \<equiv> sample_state\<lparr>sv_nonces := issue [7] 0 1000 new_nonce_state\<rparr>"

lemma sample_begin:
  "begin_verify sample_oracle sample_state caller 1000 ''fido2'' rid = (Inr (sample_session caller rid), sample_state1)"
proof -
  have "sv_nonces sample_state = new_nonce_state" by (simp add: sample_state_def)
  moreover have "or_start_ms sample_oracle = 60000" "or_uuid sample_oracle = [1]"
    by (simp_all add: sample_oracle_def)
  ultimately show ?thesis
    by (simp add: begin_verify_def sample_resolve sample_generate sample_session_def
        saturating_add_u64_def)
qed

lemma sample_dispatch:
  "fst (session_dispatch sample_packages sample_oracle sample_state1 (sample_session caller rid)) = Inr sample_allow_result"
  using sample_not_down
  by (simp add: session_dispatch_def dispatch_resolved_def Let_def sample_session_def client_of_config_def
      sample_config_def sample_oracle_def sample_packages_def verify_client_def sample_allow_result_def
      PROTOCOL_VERSION_def)

lemma sample_conclude:
  "fst (conclude_verify sample_packages sample_oracle (sv_reloadable sample_state) (sample_session caller rid)
     (Inr sample_allow_result) sample_state1) =
   judge sample_packages sample_oracle (sv_reloadable sample_state) (sample_session caller rid) sample_allow_result
     (snd (spend_nonce sample_oracle (sample_session caller rid) sample_state1))"
  "cn_response (judge sample_packages sample_oracle (sv_reloadable sample_state) (sample_session caller rid)
     sample_allow_result (snd (spend_nonce sample_oracle (sample_session caller rid) sample_state1))) =
   response_allow rid ''fido2''"
proof -
  have c: "fst (consume 1 [7] 1000 (issue [7] 0 1000 new_nonce_state)) = Inr ()"
    by (simp add: consume_def issue_def new_nonce_state_def store_simps NONCE_TTL_def)
  then have s: "spend_nonce sample_oracle (sample_session caller rid) sample_state1 =
      (Inr (), snd (spend_nonce sample_oracle (sample_session caller rid) sample_state1))"
    by (simp add: spend_nonce_def sample_oracle_def sample_session_def split_beta)
  show "fst (conclude_verify sample_packages sample_oracle (sv_reloadable sample_state) (sample_session caller rid)
     (Inr sample_allow_result) sample_state1) =
   judge sample_packages sample_oracle (sv_reloadable sample_state) (sample_session caller rid) sample_allow_result
     (snd (spend_nonce sample_oracle (sample_session caller rid) sample_state1))"
    by (subst conclude_verify_def, subst s)
       (simp add: sample_session_def sample_allow_result_def sample_oracle_def)
  have "cf_require_attestation (sv_config (snd (spend_nonce sample_oracle (sample_session caller rid) sample_state1)))"
    "sv_attester (snd (spend_nonce sample_oracle (sample_session caller rid) sample_state1)) = \<lparr>adapter_keys = [(''demo'', as_bytes (replicate 32 CHR ''k''))]\<rparr>"
    by (simp_all add: spend_nonce_def split_beta sample_state_def sample_server_config_def)
  moreover have "verify_attestation sample_sha (\<lambda>_ _. replicate 32 0) \<lparr>adapter_keys = [(''demo'', as_bytes (replicate 32 CHR ''k''))]\<rparr>
      ''demo'' sample_allow_result = Inr ()"
    by (simp add: verify_attestation_def hm_get_def sample_allow_result_def)
  ultimately show "cn_response (judge sample_packages sample_oracle (sv_reloadable sample_state) (sample_session caller rid)
     sample_allow_result (snd (spend_nonce sample_oracle (sample_session caller rid) sample_state1))) =
   response_allow rid ''fido2''"
    by (simp add: judge_def sample_packages_def sample_session_def sample_oracle_def Let_def
        session_context_def sample_evaluate sample_state_def) (simp add: sample_allow_result_def)
qed

lemma sample_allow:
  "\<exists>st'. handle_verify_once sample_packages sample_oracle sample_state (sv_reloadable sample_state)
     caller 1000 ''fido2'' rid = (response_allow rid ''fido2'', st')"
proof -
  obtain cn st2 where c: "conclude_verify sample_packages sample_oracle (sv_reloadable sample_state)
      (sample_session caller rid) (Inr sample_allow_result) sample_state1 = (cn, st2)" by fastforce
  then have r: "cn_response cn = response_allow rid ''fido2''"
    using sample_conclude by (metis fst_conv)
  have "sv_audit st2 = sample_logger\<lparr>al_owner := RootOrUid 990\<rparr>"
    using conclude_audit [of sample_packages sample_oracle "sv_reloadable sample_state" "sample_session caller rid"
        "Inr sample_allow_result" sample_state1] unfolding c by (simp add: sample_state_def)
  then have "fst (settle sample_packages sample_oracle rid cn st2) = cn_response cn"
    by (simp add: settle_def write_audit_or_error_def log_def sample_packages_def sample_oracle_def
        sample_logger_def Let_def)
  then have "fst (handle_verify_once sample_packages sample_oracle sample_state (sv_reloadable sample_state)
     caller 1000 ''fido2'' rid) = cn_response cn"
    by (simp add: handle_verify_once_def sample_begin sample_dispatch c)
  then show ?thesis using r by (metis prod.collapse)
qed

theorem allow_requires_everything_witness:
  "\<exists>resolved result. resolve (sv_registry sample_state) ''fido2'' = Inr resolved \<and>
     verify_attestation (pk_sha256 sample_packages) (pk_hmac sample_packages) (sv_attester sample_state)
       (ra_adapter_name resolved) result = Inr ()"
proof -
  obtain st' where h: "handle_verify_once sample_packages sample_oracle sample_state (sv_reloadable sample_state)
     1000 1000 ''fido2'' (Some ''r1'') = (response_allow (Some ''r1'') ''fido2'', st')"
    using sample_allow [of 1000 "Some ''r1''"] by blast
  have "cf_require_attestation (sv_config sample_state)"
    by (simp add: sample_state_def sample_server_config_def)
  then show ?thesis using allow_requires_everything [OF h] by auto
qed

text \<open>C8: A decision leaves the daemon only after its audit entry, with the same verdict, caller,
  target uid and request id, was sealed onto the chain, written whole and synced; if that fails the
  client gets the error \<open>audit failed\<close> and no decision at all.\<close>

theorem decision_is_audited:
  "case handle_verify_once pk orc st rel caller uid method rid of (resp, st') \<Rightarrow>
     (case decision_of resp of
        None \<Rightarrow> resp = response_error rid ''audit failed''
      | Some verdict \<Rightarrow>
          (\<exists>entry json. let sealed = seal (pk_sha256 pk) (al_prev_hash (sv_audit st)) entry in
             verdict \<in> {''allow'', ''deny''} \<and> ae_decision entry = verdict \<and>
             ae_caller_uid entry = caller \<and> ae_uid entry = uid \<and> ae_request_id entry = rid \<and>
             rsp_id resp = rid \<and> pk_entry_json pk sealed = Some json \<and>
             al_file (sv_audit st') = al_file (sv_audit st) @ json @ [newline] \<and>
             al_prev_hash (sv_audit st') = ae_entry_hash sealed \<and>
             or_write_fail orc = None \<and> or_sync_ok orc))"
proof -
  obtain resp st' where h: "handle_verify_once pk orc st rel caller uid method rid = (resp, st')"
    by fastforce
  have settled: "case decision_of resp of
        None \<Rightarrow> resp = response_error rid ''audit failed''
      | Some verdict \<Rightarrow>
          (\<exists>entry json. let sealed = seal (pk_sha256 pk) (al_prev_hash (sv_audit st)) entry in
             verdict \<in> {''allow'', ''deny''} \<and> ae_decision entry = verdict \<and>
             ae_caller_uid entry = caller \<and> ae_uid entry = uid \<and> ae_request_id entry = rid \<and>
             rsp_id resp = rid \<and> pk_entry_json pk sealed = Some json \<and>
             al_file (sv_audit st') = al_file (sv_audit st) @ json @ [newline] \<and>
             al_prev_hash (sv_audit st') = ae_entry_hash sealed \<and>
             or_write_fail orc = None \<and> or_sync_ok orc)"
    if c: "conclusion_for caller uid rid cn" and a: "sv_audit s = sv_audit st"
      and t: "settle pk orc rid cn s = (resp, st')" for cn s
    using t
  proof (cases rule: settle_cases)
    case (durable json)
    then show ?thesis
      using c a by (auto simp: conclusion_for_def Let_def simp del: ae_seal)
  next
    case (failed e)
    then show ?thesis by simp
  qed
  from h show ?thesis
  proof (cases rule: handle_verify_cases)
    case (refused cn)
    from settled [OF begin_conclusion [OF refused(1)] refl refused(2)] show ?thesis by (simp add: h)
  next
    case (answered ss st1 cn st2)
    have "conclusion_for caller uid rid cn"
      using conclude_conclusion [of ss pk orc rel _ st1] answered(2) begin_session [OF answered(1)]
      by (metis fst_conv)
    moreover have "sv_audit st2 = sv_audit st"
      using conclude_audit [of pk orc rel ss _ st1] answered(2) begin_frame [OF answered(1)]
      by (metis ServerState.select_convs(5) ServerState.surjective ServerState.update_convs(4) snd_conv)
    ultimately show ?thesis using settled [OF _ _ answered(3)] by (simp add: h)
  qed
qed

text \<open>A request leaves no nonce behind: whatever the adapter, the clocks and the disk do, after
  the handler returns the store holds exactly the nonces it held before.\<close>

theorem request_leaves_no_nonce:
  assumes "nonce_inv (sv_nonces st)"
  shows "live_nonces (sv_nonces (snd (handle_verify_once pk orc st rel caller uid method rid))) =
    live_nonces (sv_nonces st)"
  using handle_verify_nonces [OF assms, of pk orc rel caller uid "method" rid] by (metis prod.collapse)

theorem request_leaves_no_nonce_witness:
  "live_nonces (sv_nonces (snd (handle_verify_once sample_packages sample_oracle sample_state
     (sv_reloadable sample_state) 1000 1000 ''fido2'' None))) = {}"
proof -
  have "nonce_inv (sv_nonces sample_state)" by (simp add: sample_state_def nonce_inv_new)
  from request_leaves_no_nonce [OF this] show ?thesis
    by (simp add: sample_state_def live_nonces_def new_nonce_state_def)
qed

text \<open>C22: The uid a request is about is the caller's own unless the caller is root, and then it is
  the number root gave, which must be an unsigned 32-bit integer and is never truncated.\<close>

theorem request_uid_spec:
  "request_uid caller params = Inr uid \<longleftrightarrow>
    (if caller \<noteq> 0 then uid = caller
     else \<exists>p n. params = Some p \<and> json_get p ''uid'' = Some (JPos n) \<and> unat n = unat uid)"
proof (cases "caller = 0")
  case True
  have small: "unat (ucast n :: u32) = unat n" if "\<not> 4294967295 < (n :: u64)" for n
    using that by (simp add: word_less_nat_alt unsigned_ucast_eq take_bit_nat_eq_self)
  have fits: "(if 4294967295 < n then Inl e else Inr (ucast n)) = Inr uid \<longleftrightarrow> unat (n :: u64) = unat uid"
    for n and e :: string
    using small [of n] unat_u32_max [of uid] by (auto simp: word_less_nat_alt word_unat_eq_iff)
  show ?thesis
  proof (cases "Option.bind params (\<lambda>p. json_get p ''uid'')")
    case None
    then show ?thesis using True by (auto simp: request_uid_def)
  next
    case (Some v)
    then obtain p where p: "params = Some p" "json_get p ''uid'' = Some v" by (cases params) auto
    show ?thesis
      using True p fits by (cases "json_as_u64 v") (auto simp: request_uid_def)
  qed
qed (auto simp: request_uid_def)

lemma reply_out: "r \<in> set (fst (snd (reply orc after response st))) \<Longrightarrow> r = response"
  by (simp add: reply_def split: if_splits)

lemma reply_state [simp]: "snd (snd (reply orc after response st)) = st"
  by (simp add: reply_def)

lemma decision_of_other [simp]:
  "decision_of (response_ok i (JObj [(''ok'', a), (''version'', b)])) = None"
  "decision_of (response_ok i (JObj [(''status'', a), (''version'', b), (''methods'', c)])) = None"
  "decision_of (response_ok i (JArr xs)) = None"
  by (simp_all add: decision_of_def response_ok_def json_index_def)

text \<open>A line that is answered at once is answered without a decision; a line that asks for a
  verification passed every check.\<close>

lemma serve_request_cases:
  assumes "serve_request caller req st = (sc, st')"
  obtains
    (answer) after resp where "sc = Answer after resp" "decision_of resp = None" "st' \<in> {st, count_failure st}"
  | (verify) uid m where "sc = Verify uid m (rq_id req)" "st' = st" "rq_version req = 1"
      "rq_method req = ''verify_once''" "request_uid caller (rq_params req) = Inr uid"
      "request_method (rq_params req) = Inr m"
  using assms
  by (auto simp: serve_request_def verify_once_request_def PROTOCOL_VERSION_def split: if_splits sum.splits)

lemma screen_line_cases:
  assumes "screen_line pk now self caller line st = (sc, st')"
  obtains
    (silent) "sc = SilentClose" "\<not> is_allowed self caller (rl_allowlist (sv_reloadable st))" "st' = count_failure st"
  | (answer) after resp l where "sc = Answer after resp" "decision_of resp = None"
      "l = snd (check now caller 100 (sv_limiter st))"
      "st' \<in> {st\<lparr>sv_limiter := l\<rparr>, count_failure (st\<lparr>sv_limiter := l\<rparr>)}"
      "is_allowed self caller (rl_allowlist (sv_reloadable st))"
  | (verify) req uid m where "sc = Verify uid m (rq_id req)"
      "is_allowed self caller (rl_allowlist (sv_reloadable st))"
      "fst (check now caller 100 (sv_limiter st))"
      "pk_client_json pk line = Inr req" "rq_version req = 1" "rq_method req = ''verify_once''"
      "request_uid caller (rq_params req) = Inr uid" "request_method (rq_params req) = Inr m"
      "st' = st\<lparr>sv_limiter := snd (check now caller 100 (sv_limiter st))\<rparr>"
proof (cases "is_allowed self caller (rl_allowlist (sv_reloadable st))")
  case False
  then show ?thesis using assms silent by (simp add: screen_line_def)
next
  case True
  obtain ok l where c: "check now caller 100 (sv_limiter st) = (ok, l)" by fastforce
  consider (no) "\<not> ok" | (bad) e where "ok" "pk_client_json pk line = Inl e"
    | (good) req where "ok" "pk_client_json pk line = Inr req"
    by (cases "pk_client_json pk line") auto
  then show ?thesis
  proof cases
    case no
    then show ?thesis
      using assms True c answer [of _ _ l] by (auto simp: screen_line_def RATE_LIMIT_PER_UID_def)
  next
    case bad
    then show ?thesis
      using assms True c answer [of _ _ l] by (auto simp: screen_line_def RATE_LIMIT_PER_UID_def)
  next
    case good
    then have "serve_request caller req (st\<lparr>sv_limiter := l\<rparr>) = (sc, st')"
      using assms True c by (simp add: screen_line_def RATE_LIMIT_PER_UID_def)
    then show ?thesis
      using True c good answer [of _ _ l] verify by (cases rule: serve_request_cases) auto
  qed
qed

lemma handle_line_decision:
  assumes "handle_line pk orc self caller line st = (ctl, out, st')"
    and "r \<in> set out" and "decision_of r \<noteq> None"
  shows "is_allowed self caller (rl_allowlist (sv_reloadable st)) \<and>
    fst (check (or_check_now orc) caller 100 (sv_limiter st)) \<and>
    (\<exists>req uid method. pk_client_json pk line = Inr req \<and> rq_version req = 1 \<and>
       rq_method req = ''verify_once'' \<and> request_uid caller (rq_params req) = Inr uid \<and>
       request_method (rq_params req) = Inr method \<and>
       (r, st') = handle_verify_once pk orc
         (st\<lparr>sv_limiter := snd (check (or_check_now orc) caller 100 (sv_limiter st))\<rparr>)
         (sv_reloadable st) caller uid method (rq_id req))"
proof -
  obtain sc st_a where sc: "screen_line pk (or_check_now orc) self caller line st = (sc, st_a)" by fastforce
  then show ?thesis
  proof (cases rule: screen_line_cases)
    case silent
    then show ?thesis using assms(1,2) sc by (auto simp: handle_line_def)
  next
    case (answer after resp l)
    then have "r = resp" using assms(1,2) sc reply_out [of r orc after resp st_a] by (simp add: handle_line_def)
    then show ?thesis using answer(2) assms(3) by simp
  next
    case (verify req uid m)
    let ?h = "handle_verify_once pk orc st_a (sv_reloadable st) caller uid m (rq_id req)"
    have l: "reply orc Continue (fst ?h) (snd ?h) = (ctl, out, st')"
      using assms(1) sc verify(1) by (simp add: handle_line_def split_beta Let_def)
    then have "(r, st') = ?h"
      using assms(2) by (auto simp: reply_def prod_eq_iff split: if_splits)
    then show ?thesis using verify by auto
  qed
qed

text \<open>C19: Every decision sent to a client answers a well-formed \<open>verify_once\<close> request of the
  protocol's version, from a caller the allowlist in force admits and whose rate budget had room,
  and is the result of the handler run with that same loaded state: the allowlist check and the
  policy never come from different reloads.\<close>

theorem decision_needs_admission:
  assumes "handle_line pk orc self caller line st = (ctl, out, st')"
    and "r \<in> set out" and "decision_of r \<noteq> None"
  shows "is_allowed self caller (rl_allowlist (sv_reloadable st)) \<and>
    fst (check (or_check_now orc) caller 100 (sv_limiter st)) \<and>
    (\<exists>req uid method. pk_client_json pk line = Inr req \<and> rq_version req = 1 \<and>
       rq_method req = ''verify_once'' \<and> request_uid caller (rq_params req) = Inr uid \<and>
       request_method (rq_params req) = Inr method \<and>
       (r, st') = handle_verify_once pk orc
         (st\<lparr>sv_limiter := snd (check (or_check_now orc) caller 100 (sv_limiter st))\<rparr>)
         (sv_reloadable st) caller uid method (rq_id req))"
  by (rule handle_line_decision [OF assms])

text \<open>The response does not depend on the rate limiter or the counters.\<close>

lemma handle_verify_other:
  "fst (handle_verify_once pk orc (st\<lparr>sv_limiter := l, sv_metrics := c\<rparr>) rel caller uid method rid) =
     fst (handle_verify_once pk orc st rel caller uid method rid)"
proof -
  let ?f = "\<lambda>s. s\<lparr>sv_limiter := l, sv_metrics := c\<rparr> :: ServerState"
  have b: "begin_verify orc (?f st) caller uid method rid =
      map_prod id ?f (begin_verify orc st caller uid method rid)"
    by (auto simp: begin_verify_def Let_def split: sum.splits prod.splits)
  have d: "session_dispatch pk orc (?f s) ss = session_dispatch pk orc s ss" for s ss
    by (simp add: session_dispatch_def)
  have p: "spend_nonce orc ss (?f s) = map_prod id ?f (spend_nonce orc ss s)"
    for s ss by (simp add: spend_nonce_def split_beta)
  have j: "judge pk orc rel ss res (?f s) = judge pk orc rel ss res s" for s ss res
    by (simp add: judge_def)
  have cv: "conclude_verify pk orc rel ss ans (?f s) =
      map_prod id ?f (conclude_verify pk orc rel ss ans s)" for s ss ans
    by (auto simp: conclude_verify_def p j Let_def split: sum.splits prod.splits)
  have w: "fst (settle pk orc rid cn (?f s)) = fst (settle pk orc rid cn s)" for cn s
    by (auto simp: settle_def write_audit_or_error_def count_failure_def Let_def split: sum.splits prod.splits)
  show ?thesis
    by (auto simp: handle_verify_once_def b d cv w split: sum.splits prod.splits)
qed

lemma handle_verify_limiter:
  "fst (handle_verify_once pk orc (st\<lparr>sv_limiter := l\<rparr>) rel caller uid method rid) =
     fst (handle_verify_once pk orc st rel caller uid method rid)"
  using handle_verify_other [where st = st and l = l and c = "sv_metrics st"] by simp

lemma handle_verify_metrics:
  "fst (handle_verify_once pk orc (st\<lparr>sv_metrics := c\<rparr>) rel caller uid method rid) =
     fst (handle_verify_once pk orc st rel caller uid method rid)"
  using handle_verify_other [where st = st and l = "sv_limiter st" and c = c] by simp

lemma handle_verify_client_json:
  "handle_verify_once (pk\<lparr>pk_client_json := f\<rparr>) orc st rel caller uid method rid =
     handle_verify_once pk orc st rel caller uid method rid"
proof -
  have p: "pk_sha256 (pk\<lparr>pk_client_json := f\<rparr>) = pk_sha256 pk" "pk_hmac (pk\<lparr>pk_client_json := f\<rparr>) = pk_hmac pk"
    "pk_debug_f32 (pk\<lparr>pk_client_json := f\<rparr>) = pk_debug_f32 pk" by simp_all
  have j: "judge (pk\<lparr>pk_client_json := f\<rparr>) orc rel ss result s = judge pk orc rel ss result s"
    for ss result s unfolding judge_def p ..
  have c: "conclude_verify (pk\<lparr>pk_client_json := f\<rparr>) orc rel ss ans s = conclude_verify pk orc rel ss ans s"
    for ss ans s unfolding conclude_verify_def j ..
  have d: "session_dispatch (pk\<lparr>pk_client_json := f\<rparr>) orc s ss = session_dispatch pk orc s ss" for s ss
    by (simp add: session_dispatch_def)
  have w: "settle (pk\<lparr>pk_client_json := f\<rparr>) orc rid cn s = settle pk orc rid cn s" for cn s
    by (simp add: settle_def write_audit_or_error_def)
  show ?thesis unfolding handle_verify_once_def c d w ..
qed

definition sample_request :: Request where
  "sample_request = \<lparr>rq_version = 1, rq_id = Some ''r1'', rq_method = ''verify_once'',
     rq_params = Some (JObj [(''method'', JStr ''fido2'')])\<rparr>"

lemma sample_admission:
  "is_allowed 0 1000 (rl_allowlist (sv_reloadable sample_state))"
  "fst (check 0 1000 RATE_LIMIT_PER_UID new_limiter)"
  "request_uid 1000 (rq_params sample_request) = Inr 1000"
  "request_method (rq_params sample_request) = Inr ''fido2''"
proof -
  have v: "validate_method_name ''fido2'' True = Inr ()"
    by (simp add: name_ok_def MAX_NAME_LEN_def name_char_def is_ascii_alphanumeric_def is_ascii_digit_def)
  show "request_method (rq_params sample_request) = Inr ''fido2''"
    by (simp add: request_method_def v map_err_def res_bind_def sample_request_def)
  show "fst (check 0 1000 RATE_LIMIT_PER_UID new_limiter)"
    by (simp add: check_def new_limiter_def with_max_tracked_uids_def MAX_TRACKED_UIDS_def
        bump_def saturating_add_u32_def RATE_LIMIT_PER_UID_def store_simps)
qed (simp_all add: is_allowed_def sample_state_def request_uid_def)

lemma sample_line:
  "\<exists>st'. handle_line sample_packages sample_oracle 0 1000 ''x'' (sample_state\<lparr>sv_metrics := c\<rparr>) =
     (Continue, [response_allow (Some ''r1'') ''fido2''], st')"
proof -
  let ?st1 = "sample_state\<lparr>sv_metrics := c, sv_limiter := snd (check 0 1000 RATE_LIMIT_PER_UID new_limiter)\<rparr>"
  let ?h = "handle_verify_once sample_packages sample_oracle ?st1 (sv_reloadable sample_state) 1000 1000
      ''fido2'' (Some ''r1'')"
  have r: "fst ?h = response_allow (Some ''r1'') ''fido2''"
    using sample_allow [of 1000 "Some ''r1''"] by (auto simp: handle_verify_limiter handle_verify_metrics)
  have "pk_client_json sample_packages ''x'' = Inr sample_request" "or_check_now sample_oracle = 0"
    "or_send_ok sample_oracle" "sv_limiter sample_state = new_limiter"
    "rq_version sample_request = 1" "rq_method sample_request = ''verify_once''" "rq_id sample_request = Some ''r1''"
    by (simp_all add: sample_packages_def sample_oracle_def sample_state_def sample_request_def)
  then have "handle_line sample_packages sample_oracle 0 1000 ''x'' (sample_state\<lparr>sv_metrics := c\<rparr>) =
      (Continue, [fst ?h], snd ?h)"
    using sample_admission
    by (simp add: handle_line_def screen_line_def serve_request_def verify_once_request_def reply_def split_beta
        PROTOCOL_VERSION_def Let_def)
  then show ?thesis using r by simp
qed

theorem decision_needs_admission_witness:
  "\<exists>ctl r st'. handle_line sample_packages sample_oracle 0 1000 ''x'' sample_state = (ctl, [r], st') \<and>
      decision_of r = Some ''allow'' \<and>
      fst (check (or_check_now sample_oracle) 1000 100 (sv_limiter sample_state))"
proof -
  obtain st' where h: "handle_line sample_packages sample_oracle 0 1000 ''x'' sample_state =
      (Continue, [response_allow (Some ''r1'') ''fido2''], st')"
    using sample_line [of "sv_metrics sample_state"] by auto
  from decision_needs_admission [OF h, of "response_allow (Some ''r1'') ''fido2''"] h show ?thesis by auto
qed

end
