(* ===== verification/Privilege.thy ===== *)
theory Privilege
  imports Config
begin

text \<open>
  Dropping root (\<open>security/privilege.rs\<close>) and the system-call filter (\<open>security/seccomp.rs\<close>).
  The kernel is the argument \<open>sys\<close>, a function from a call and a process state to success and
  the next state; \<open>euid\<close> reads the effective uid of a state and \<open>users\<close> is the password
  database. What the theorem relies on of the kernel is \<open>kernel_laws\<close>, the documented effect of
  each call on the credentials. The steps of the seccompiler crate are answered by the same
  argument; \<open>filter_action\<close> is what a filter with empty rule vectors does with a call.

  A state is that of the whole daemon. The C library applies \<open>setgroups\<close>, \<open>setgid\<close> and \<open>setuid\<close> to every
  thread, and leaving uid 0 clears the permitted and effective capabilities of each; \<open>caps::clear\<close> and
  \<open>prctl\<close> act on the calling thread, and the filter is installed with TSYNC, which gives it and
  \<open>NO_NEW_PRIVS\<close> to the other threads too. The inheritable set of another thread is not tracked.
\<close>

section \<open>Calls that may fail\<close>

type_synonym ('p, 'e, 'a) action = "'p \<Rightarrow> ('e + 'a) \<times> 'p"

definition act_return :: "'a \<Rightarrow> ('p, 'e, 'a) action" where
  "act_return x p = (Inr x, p)"

definition act_fail :: "'e \<Rightarrow> ('p, 'e, 'a) action" where
  "act_fail e p = (Inl e, p)"

definition act_then :: "('p, 'e, 'a) action \<Rightarrow> ('a \<Rightarrow> ('p, 'e, 'b) action) \<Rightarrow> ('p, 'e, 'b) action" where
  "act_then m f p = (case m p of (Inl e, q) \<Rightarrow> (Inl e, q) | (Inr x, q) \<Rightarrow> f x q)"

lemma act_simps [simp]:
  "act_return x p = (Inr x, p)"
  "act_fail e p = (Inl e, p)"
  by (simp_all add: act_return_def act_fail_def)

lemma act_then_Inr:
  "act_then m f p = (Inr y, r) \<longleftrightarrow> (\<exists>x q. m p = (Inr x, q) \<and> f x q = (Inr y, r))"
  by (auto simp: act_then_def split: prod.splits sum.splits)

section \<open>The filter\<close>

text \<open>The allowed calls, by name; every other call gets \<open>EPERM\<close>.\<close>

definition seccomp_allowed :: "string list" where
  "seccomp_allowed =
     [''read'', ''write'', ''readv'', ''writev'', ''close'', ''fcntl'', ''fchmod'', ''openat'', ''fstat'',
      ''newfstatat'', ''statx'',
      ''socket'', ''connect'', ''accept4'', ''getsockopt'', ''recvfrom'', ''recvmsg'', ''sendmsg'', ''sendto'',
      ''socketpair'',
      ''epoll_wait'', ''epoll_ctl'', ''epoll_create1'', ''eventfd2'', ''pipe2'',
      ''futex'', ''clone'', ''clone3'', ''rseq'', ''sched_yield'', ''gettid'', ''getuid'', ''geteuid'',
      ''prctl'',
      ''rt_sigaction'', ''rt_sigprocmask'', ''sigaltstack'',
      ''clock_gettime'', ''nanosleep'',
      ''mmap'', ''munmap'', ''mprotect'', ''brk'', ''madvise'',
      ''getrandom'',
      ''fdatasync'',
      ''rt_sigreturn'', ''exit'', ''exit_group'']"

datatype SeccompAction = SeccompAllow | SeccompErrno nat

text \<open>What is given to \<open>SeccompFilter::new\<close>: the calls with an empty vector of rules, which match whatever
  their arguments are, the action for every other call and the action for these.\<close>

record SeccompFilter =
  sf_calls :: "string list"
  sf_mismatch_action :: SeccompAction
  sf_match_action :: SeccompAction

definition EPERM :: nat where
  "EPERM = 1"

definition seccomp_filter :: SeccompFilter where
  "seccomp_filter = \<lparr>sf_calls = seccomp_allowed, sf_mismatch_action = SeccompErrno EPERM,
     sf_match_action = SeccompAllow\<rparr>"

definition filter_action :: "SeccompFilter \<Rightarrow> string \<Rightarrow> SeccompAction" where
  "filter_action f call = (if call \<in> set (sf_calls f) then sf_match_action f else sf_mismatch_action f)"

section \<open>Dropping privileges\<close>

text \<open>The last four are the steps the seccompiler crate takes for a filter.\<close>

datatype CapSet = Permitted | Effective | Inheritable

datatype Syscall =
    Setgroups "u32 list"
  | Setgid u32
  | Setuid u32
  | ClearCaps CapSet
  | NoNewPrivs
  | TargetArch
  | NewFilter SeccompFilter
  | CompileFilter SeccompFilter
  | InstallFilter SeccompFilter

record User =
  us_uid :: u32
  us_gid :: u32

datatype DropError =
    ServiceUserNotFound string
  | SyscallFailed Syscall
  | StillRoot

definition service_user_name :: "(string \<Rightarrow> EnvVar) \<Rightarrow> string" where
  "service_user_name env = env_or env ''OLA_USER'' ''ola''"

definition issue_call :: "(Syscall \<Rightarrow> 'p \<Rightarrow> bool \<times> 'p) \<Rightarrow> Syscall \<Rightarrow> ('p, DropError, unit) action" where
  "issue_call sys c p = (case sys c p of (ok, q) \<Rightarrow> (if ok then Inr () else Inl (SyscallFailed c), q))"

definition refuse_root :: "(Syscall \<Rightarrow> 'p \<Rightarrow> bool \<times> 'p) \<Rightarrow> ('p, DropError, unit) action" where
  "refuse_root sys p =
     (case sys (Setuid 0) p of (ok, q) \<Rightarrow> (if ok then Inl StillRoot else Inr (), q))"

definition drop_identity ::
  "(Syscall \<Rightarrow> 'p \<Rightarrow> bool \<times> 'p) \<Rightarrow> User \<Rightarrow> ('p, DropError, unit) action" where
  "drop_identity sys u =
     act_then (issue_call sys (Setgroups [])) (\<lambda>_.
     act_then (issue_call sys (Setgid (us_gid u))) (\<lambda>_.
     act_then (issue_call sys (Setuid (us_uid u))) (\<lambda>_.
     act_then (refuse_root sys) (\<lambda>_.
     act_then (issue_call sys (ClearCaps Permitted)) (\<lambda>_.
     act_then (issue_call sys (ClearCaps Effective)) (\<lambda>_.
       issue_call sys (ClearCaps Inheritable)))))))"

definition apply_seccomp :: "(Syscall \<Rightarrow> 'p \<Rightarrow> bool \<times> 'p) \<Rightarrow> ('p, DropError, unit) action" where
  "apply_seccomp sys =
     act_then (issue_call sys TargetArch) (\<lambda>_.
     act_then (issue_call sys (NewFilter seccomp_filter)) (\<lambda>_.
     act_then (issue_call sys (CompileFilter seccomp_filter)) (\<lambda>_.
       issue_call sys (InstallFilter seccomp_filter))))"

definition drop_privileges_completely ::
  "(Syscall \<Rightarrow> 'p \<Rightarrow> bool \<times> 'p) \<Rightarrow> ('p \<Rightarrow> u32) \<Rightarrow> (string \<Rightarrow> User option) \<Rightarrow> (string \<Rightarrow> EnvVar) \<Rightarrow>
   ('p, DropError, unit) action" where
  "drop_privileges_completely sys euid users env p =
     act_then
       (if euid p = 0
        then (case users (service_user_name env) of
                None \<Rightarrow> act_fail (ServiceUserNotFound (service_user_name env))
              | Some u \<Rightarrow> drop_identity sys u)
        else act_return ())
       (\<lambda>_. act_then (issue_call sys NoNewPrivs) (\<lambda>_. apply_seccomp sys)) p"

section \<open>What is left of root\<close>

record Process =
  pc_euid :: u32
  pc_gid :: u32
  pc_groups :: "u32 list"
  pc_caps :: "CapSet \<Rightarrow> nat set"
  pc_no_new_privs :: bool
  pc_seccomp :: "SeccompFilter option"

definition kernel_laws :: "(Syscall \<Rightarrow> Process \<Rightarrow> bool \<times> Process) \<Rightarrow> bool" where
  "kernel_laws sys \<longleftrightarrow>
     (\<forall>c p q. sys c p = (False, q) \<longrightarrow> q = p) \<and>
     (\<forall>gs p q. sys (Setgroups gs) p = (True, q) \<longrightarrow> q = p\<lparr>pc_groups := gs\<rparr>) \<and>
     (\<forall>g p q. sys (Setgid g) p = (True, q) \<longrightarrow> q = p\<lparr>pc_gid := g\<rparr>) \<and>
     (\<forall>u p q. sys (Setuid u) p = (True, q) \<longrightarrow>
        q = p\<lparr>pc_euid := u, pc_caps := pc_caps q\<rparr> \<and> fst (sys (Setuid u) q)) \<and>
     (\<forall>s p q. sys (ClearCaps s) p = (True, q) \<longrightarrow> q = p\<lparr>pc_caps := (pc_caps p)(s := {})\<rparr>) \<and>
     (\<forall>p q. sys NoNewPrivs p = (True, q) \<longrightarrow> q = p\<lparr>pc_no_new_privs := True\<rparr>) \<and>
     (\<forall>p q. sys TargetArch p = (True, q) \<longrightarrow> q = p) \<and>
     (\<forall>f p q. sys (NewFilter f) p = (True, q) \<longrightarrow> q = p) \<and>
     (\<forall>f p q. sys (CompileFilter f) p = (True, q) \<longrightarrow> q = p) \<and>
     (\<forall>f p q. sys (InstallFilter f) p = (True, q) \<longrightarrow> q = p\<lparr>pc_seccomp := Some f\<rparr>)"

lemma issue_call_Inr: "issue_call sys c p = (Inr x, q) \<longleftrightarrow> sys c p = (True, q)"
  by (auto simp: issue_call_def split: prod.splits if_splits)

lemma refuse_root_Inr: "refuse_root sys p = (Inr x, q) \<longleftrightarrow> sys (Setuid 0) p = (False, q)"
  by (auto simp: refuse_root_def split: prod.splits if_splits)

lemmas drop_Inr = act_then_Inr issue_call_Inr refuse_root_Inr

lemma kernel_lawD:
  assumes "kernel_laws sys"
  shows "sys c p = (False, q) \<Longrightarrow> q = p"
    and "sys (Setgroups gs) p = (True, q) \<Longrightarrow> q = p\<lparr>pc_groups := gs\<rparr>"
    and "sys (Setgid g) p = (True, q) \<Longrightarrow> q = p\<lparr>pc_gid := g\<rparr>"
    and "sys (Setuid u) p = (True, q) \<Longrightarrow> q = p\<lparr>pc_euid := u, pc_caps := pc_caps q\<rparr>"
    and "sys (Setuid u) p = (True, q) \<Longrightarrow> fst (sys (Setuid u) q)"
    and "sys (ClearCaps s) p = (True, q) \<Longrightarrow> q = p\<lparr>pc_caps := (pc_caps p)(s := {})\<rparr>"
    and "sys NoNewPrivs p = (True, q) \<Longrightarrow> q = p\<lparr>pc_no_new_privs := True\<rparr>"
    and "sys TargetArch p = (True, q) \<Longrightarrow> q = p"
    and "sys (NewFilter f) p = (True, q) \<Longrightarrow> q = p"
    and "sys (CompileFilter f) p = (True, q) \<Longrightarrow> q = p"
    and "sys (InstallFilter f) p = (True, q) \<Longrightarrow> q = p\<lparr>pc_seccomp := Some f\<rparr>"
  using assms unfolding kernel_laws_def by metis+

lemma apply_seccomp_Process:
  assumes k: "kernel_laws sys" and a: "apply_seccomp sys p = (Inr (), q)"
  shows "q = p\<lparr>pc_seccomp := Some seccomp_filter\<rparr>"
  using a kernel_lawD(8-11) [OF k] unfolding apply_seccomp_def drop_Inr by metis

lemma drop_identity_Process:
  assumes k: "kernel_laws sys" and d: "drop_identity sys u p = (Inr (), q)"
  shows "us_uid u \<noteq> 0 \<and> pc_euid q = us_uid u \<and> pc_gid q = us_gid u \<and> pc_groups q = [] \<and>
    (\<forall>s. pc_caps q s = {})"
proof -
  obtain p_a p_b p_c p_d p_e p_f where
    s: "sys (Setgroups []) p = (True, p_a)" "sys (Setgid (us_gid u)) p_a = (True, p_b)"
       "sys (Setuid (us_uid u)) p_b = (True, p_c)" "sys (Setuid 0) p_c = (False, p_d)"
       "sys (ClearCaps Permitted) p_d = (True, p_e)" "sys (ClearCaps Effective) p_e = (True, p_f)"
       "sys (ClearCaps Inheritable) p_f = (True, q)"
    using d unfolding drop_identity_def drop_Inr by blast
  have nz: "us_uid u \<noteq> 0" using kernel_lawD(5) [OF k s(3)] s(4) by auto
  have c: "p_c = p\<lparr>pc_groups := [], pc_gid := us_gid u, pc_euid := us_uid u, pc_caps := pc_caps p_c\<rparr>"
    using kernel_lawD(4) [OF k s(3)] kernel_lawD(3) [OF k s(2)] kernel_lawD(2) [OF k s(1)] by simp
  have q: "q = p_c\<lparr>pc_caps := ((pc_caps p_c)(Permitted := {}, Effective := {}, Inheritable := {}))\<rparr>"
    using kernel_lawD(6) [OF k s(7)] kernel_lawD(6) [OF k s(6)] kernel_lawD(6) [OF k s(5)]
      kernel_lawD(1) [OF k s(4)] by simp
  have caps: "pc_caps q t = {}" for t by (cases t) (simp_all add: q)
  have "pc_euid p_c = us_uid u" "pc_gid p_c = us_gid u" "pc_groups p_c = []"
    by (subst c, simp)+
  then show ?thesis using nz caps by (simp add: q)
qed

text \<open>When the daemon starts as root and dropping privileges succeeds, it runs as the service
  user, which is not root, with that user's primary group, no supplementary groups, no capability
  in any set, \<open>NO_NEW_PRIVS\<close> and the filter installed; a service user with uid 0 is refused.\<close>

theorem root_is_dropped:
  assumes "kernel_laws sys" and "pc_euid p = 0"
    and "drop_privileges_completely sys pc_euid users env p = (Inr (), q)"
  shows "\<exists>u. users (service_user_name env) = Some u \<and> us_uid u \<noteq> 0 \<and> pc_euid q = us_uid u \<and>
    pc_gid q = us_gid u \<and> pc_groups q = [] \<and> (\<forall>s. pc_caps q s = {}) \<and>
    pc_no_new_privs q \<and> pc_seccomp q = Some seccomp_filter"
proof -
  note k = assms(1)
  from assms obtain u p_a p_b where u: "users (service_user_name env) = Some u"
    and d: "drop_identity sys u p = (Inr (), p_a)" and n: "sys NoNewPrivs p_a = (True, p_b)"
    and f: "apply_seccomp sys p_b = (Inr (), q)"
    by (auto simp: drop_privileges_completely_def drop_Inr split: option.splits)
  have "q = p_a\<lparr>pc_no_new_privs := True, pc_seccomp := Some seccomp_filter\<rparr>"
    using kernel_lawD(7) [OF k n] apply_seccomp_Process [OF k f] by simp
  then show ?thesis using drop_identity_Process [OF k d] u by simp
qed

lemma drop_filtered:
  assumes "kernel_laws sys" and "drop_privileges_completely sys pc_euid users env p = (Inr (), q)"
  shows "pc_no_new_privs q \<and> pc_seccomp q = Some seccomp_filter"
proof -
  from assms(2) obtain p_a p_b where n: "sys NoNewPrivs p_a = (True, p_b)"
    and f: "apply_seccomp sys p_b = (Inr (), q)"
    by (auto simp: drop_privileges_completely_def drop_Inr)
  show ?thesis using kernel_lawD(7) [OF assms(1) n] apply_seccomp_Process [OF assms(1) f] by simp
qed

text \<open>A kernel with the documented behaviour, and a root process on it.\<close>

fun sample_kernel :: "Syscall \<Rightarrow> Process \<Rightarrow> bool \<times> Process" where
  "sample_kernel (Setgroups gs) p = (if pc_euid p = 0 then (True, p\<lparr>pc_groups := gs\<rparr>) else (False, p))"
| "sample_kernel (Setgid g) p = (if pc_euid p = 0 then (True, p\<lparr>pc_gid := g\<rparr>) else (False, p))"
| "sample_kernel (Setuid u) p =
     (if pc_euid p = 0 \<or> u = pc_euid p
      then (True, p\<lparr>pc_euid := u, pc_caps := (if u = 0 then pc_caps p else (\<lambda>_. {}))\<rparr>) else (False, p))"
| "sample_kernel (ClearCaps s) p = (True, p\<lparr>pc_caps := (pc_caps p)(s := {})\<rparr>)"
| "sample_kernel NoNewPrivs p = (True, p\<lparr>pc_no_new_privs := True\<rparr>)"
| "sample_kernel (InstallFilter f) p =
     (if pc_no_new_privs p then (True, p\<lparr>pc_seccomp := Some f\<rparr>) else (False, p))"
| "sample_kernel _ p = (True, p)"

lemma sample_kernel_laws: "kernel_laws sample_kernel"
proof -
  have "sample_kernel c p = (False, q) \<longrightarrow> q = p" for c p q
    by (cases c) auto
  then show ?thesis unfolding kernel_laws_def by (auto split: if_splits)
qed

definition sample_root :: Process where
  "sample_root = \<lparr>pc_euid = 0, pc_gid = 0, pc_groups = [0, 27], pc_caps = (\<lambda>_. {0, 7}),
     pc_no_new_privs = False, pc_seccomp = None\<rparr>"

theorem root_is_dropped_witness:
  "\<exists>q. drop_privileges_completely sample_kernel pc_euid (\<lambda>_. Some \<lparr>us_uid = 990, us_gid = 991\<rparr>)
     (\<lambda>_. NotPresent) sample_root = (Inr (), q) \<and> pc_groups q = [] \<and> pc_euid q \<noteq> 0"
proof -
  let ?d = "drop_privileges_completely sample_kernel pc_euid (\<lambda>_. Some \<lparr>us_uid = 990, us_gid = 991\<rparr>)
     (\<lambda>_. NotPresent) sample_root"
  have r: "?d = (Inr (), snd ?d)"
    by (simp add: drop_privileges_completely_def apply_seccomp_def drop_identity_def act_then_def issue_call_def
        refuse_root_def sample_root_def)
  have "pc_euid sample_root = 0" by (simp add: sample_root_def)
  from root_is_dropped [OF sample_kernel_laws this r] r show ?thesis by auto
qed

text \<open>Once the filter is installed no call can change the process's identity or capabilities,
  execute a program, trace another process, load code into the kernel or remove, rename or relabel
  a file: each of them fails with \<open>EPERM\<close> and none kills the process.\<close>

theorem filter_blocks:
  "\<forall>call \<in> {''execve'', ''execveat'', ''setuid'', ''setgid'', ''setgroups'', ''setresuid'', ''setresgid'',
      ''setreuid'', ''setfsuid'', ''capset'', ''ptrace'', ''process_vm_writev'', ''init_module'', ''finit_module'',
      ''bpf'', ''kexec_load'', ''mount'', ''umount2'', ''pivot_root'', ''chroot'', ''unlink'', ''unlinkat'',
      ''rename'', ''renameat2'', ''chown'', ''fchown'', ''fchownat'', ''kill'', ''tgkill'', ''listen'', ''bind''}.
     filter_action seccomp_filter call = SeccompErrno EPERM"
  by (simp add: filter_action_def seccomp_filter_def seccomp_allowed_def)

theorem filter_blocks_witness: "filter_action seccomp_filter ''execve'' = SeccompErrno EPERM"
  using filter_blocks by blast

end
