(* ===== verification/Socket_Setup.thy ===== *)
theory Socket_Setup
  imports Privilege
begin

text \<open>
  Preparing the listening socket, \<open>infrastructure/ipc/socket_setup.rs\<close>, and the address of the
  systemd notification socket, \<open>infrastructure/ipc/systemd.rs\<close>. What the file system and the
  socket calls answer is the record \<open>SetupAnswers\<close>; the calls that change something are recorded,
  in order, in the trace of the state, the privilege drop at the end among them. The state also carries
  the process that drops its privileges.
\<close>

section \<open>State and answers\<close>

datatype PathKind = SymlinkPath | DirectoryPath | SocketPath | OtherPath

datatype PathStat = PathMissing | PathStatError | PathIs PathKind

datatype ConnectResult = Connected | ConnectRefused | ConnectDenied | ConnectOther

datatype SetupEvent =
    RemoveSocket
  | CreateParent
  | ParentMode nat
  | ParentOwner u32 u32
  | BindSocket
  | SocketMode nat
  | SocketOwner u32 u32
  | DropPrivileges

datatype SetupError =
    SetNonblocking | FromStd | CreateParentFailed | ParentStat | ParentSymlink | ParentNotDirectory
  | SetupUserNotFound string | ParentOpen | ParentChmod | ParentChown
  | StaleStat | StaleSymlink | StaleNotSocket | SocketInUse | StaleNotAccessible | RemoveFailed
  | BindFailed | SocketChmod | SocketChown | DropFailed DropError

text \<open>
  \<open>an_activated\<close>: the listener systemd passed, if any, with whether \<open>set_nonblocking\<close> and
  \<open>from_std\<close> succeed.
\<close>

record SetupAnswers =
  an_activated :: "(bool \<times> bool) option"
  an_has_parent :: bool
  an_parent_exists :: bool
  an_create_parent_ok :: bool
  an_parent_stat :: PathStat
  an_parent_open_ok :: bool
  an_parent_chmod_ok :: bool
  an_parent_chown_ok :: bool
  an_stale_stat :: PathStat
  an_connect :: ConnectResult
  an_remove_ok :: bool
  an_bind_ok :: bool
  an_chmod_ok :: bool
  an_chown_ok :: bool

record 'p Setup =
  se_trace :: "SetupEvent list"
  se_process :: 'p

definition emit :: "SetupEvent \<Rightarrow> bool \<Rightarrow> SetupError \<Rightarrow> ('p Setup, SetupError, unit) action" where
  "emit ev ok e s = (if ok then (Inr (), s\<lparr>se_trace := se_trace s @ [ev]\<rparr>) else (Inl e, s))"

definition set_socket_mode :: "SetupAnswers \<Rightarrow> ('p Setup, SetupError, unit) action" where
  "set_socket_mode an = emit (SocketMode 432) (an_chmod_ok an) SocketChmod"

definition set_socket_owner :: "SetupAnswers \<Rightarrow> u32 \<Rightarrow> u32 \<Rightarrow> ('p Setup, SetupError, unit) action" where
  "set_socket_owner an uid gid = emit (SocketOwner uid gid) (an_chown_ok an) SocketChown"

definition set_socket_parent_owner :: "SetupAnswers \<Rightarrow> u32 \<Rightarrow> ('p Setup, SetupError, unit) action" where
  "set_socket_parent_owner an gid =
     (if \<not> an_parent_open_ok an then act_fail ParentOpen
      else
        act_then (emit (ParentMode 488) (an_parent_chmod_ok an) ParentChmod) (\<lambda>_.
          emit (ParentOwner 0 gid) (an_parent_chown_ok an) ParentChown))"

definition find_user ::
  "(string \<Rightarrow> User option) \<Rightarrow> (string \<Rightarrow> EnvVar) \<Rightarrow> ('p Setup, SetupError, User) action" where
  "find_user users env =
     (case users (service_user_name env) of
        None \<Rightarrow> act_fail (SetupUserNotFound (service_user_name env))
      | Some u \<Rightarrow> act_return u)"

definition prepare_socket_parent ::
  "SetupAnswers \<Rightarrow> ('p \<Rightarrow> u32) \<Rightarrow> (string \<Rightarrow> User option) \<Rightarrow> (string \<Rightarrow> EnvVar) \<Rightarrow> Config \<Rightarrow>
   ('p Setup, SetupError, unit) action" where
  "prepare_socket_parent an euid users env config s =
     act_then
       (if an_parent_exists an then act_return ()
        else emit CreateParent (an_create_parent_ok an) CreateParentFailed)
       (\<lambda>_.
          if \<not> (is_prod_mode config \<or> euid (se_process s) = 0) then act_return ()
          else case an_parent_stat an of
                 PathMissing \<Rightarrow> act_fail ParentStat
               | PathStatError \<Rightarrow> act_fail ParentStat
               | PathIs k \<Rightarrow>
                   if k = SymlinkPath then act_fail ParentSymlink
                   else if k \<noteq> DirectoryPath then act_fail ParentNotDirectory
                   else if euid (se_process s) = 0
                   then act_then (find_user users env) (\<lambda>u. set_socket_parent_owner an (us_gid u))
                   else emit (ParentMode 488) (an_parent_chmod_ok an) ParentChmod) s"

definition remove_stale_socket_with :: "SetupAnswers \<Rightarrow> ('p Setup, SetupError, unit) action" where
  "remove_stale_socket_with an =
     (case an_stale_stat an of
        PathMissing \<Rightarrow> act_return ()
      | PathStatError \<Rightarrow> act_fail StaleStat
      | PathIs k \<Rightarrow>
          if k = SymlinkPath then act_fail StaleSymlink
          else if k \<noteq> SocketPath then act_fail StaleNotSocket
          else (case an_connect an of
                 Connected \<Rightarrow> act_fail SocketInUse
               | ConnectRefused \<Rightarrow> emit RemoveSocket (an_remove_ok an) RemoveFailed
               | ConnectDenied \<Rightarrow> act_fail StaleNotAccessible
               | ConnectOther \<Rightarrow> emit RemoveSocket (an_remove_ok an) RemoveFailed))"

definition bind_listener ::
  "SetupAnswers \<Rightarrow> ('p \<Rightarrow> u32) \<Rightarrow> (string \<Rightarrow> User option) \<Rightarrow> (string \<Rightarrow> EnvVar) \<Rightarrow> Config \<Rightarrow>
   ('p Setup, SetupError, unit) action" where
  "bind_listener an euid users env config s =
     act_then
       (if an_has_parent an then prepare_socket_parent an euid users env config else act_return ()) (\<lambda>_.
     act_then (remove_stale_socket_with an) (\<lambda>_.
     act_then (emit BindSocket (an_bind_ok an) BindFailed) (\<lambda>_.
     act_then (set_socket_mode an) (\<lambda>_.
       if euid (se_process s) = 0
       then act_then (find_user users env) (\<lambda>u. set_socket_owner an (us_uid u) (us_gid u))
       else act_return ())))) s"

definition drop_in_setup ::
  "(Syscall \<Rightarrow> 'p \<Rightarrow> bool \<times> 'p) \<Rightarrow> ('p \<Rightarrow> u32) \<Rightarrow> (string \<Rightarrow> User option) \<Rightarrow> (string \<Rightarrow> EnvVar) \<Rightarrow>
   ('p Setup, SetupError, unit) action" where
  "drop_in_setup sys euid users env s =
     (case drop_privileges_completely sys euid users env (se_process s) of
        (r, p) \<Rightarrow> (map_err DropFailed r, s\<lparr>se_trace := se_trace s @ [DropPrivileges], se_process := p\<rparr>))"

definition setup_listener ::
  "(Syscall \<Rightarrow> 'p \<Rightarrow> bool \<times> 'p) \<Rightarrow> SetupAnswers \<Rightarrow> ('p \<Rightarrow> u32) \<Rightarrow> (string \<Rightarrow> User option) \<Rightarrow>
   (string \<Rightarrow> EnvVar) \<Rightarrow> Config \<Rightarrow> ('p Setup, SetupError, unit) action" where
  "setup_listener sys an euid users env config =
     act_then
       (case an_activated an of
          Some (nonblocking_ok, from_std_ok) \<Rightarrow>
            if \<not> nonblocking_ok then act_fail SetNonblocking
            else if \<not> from_std_ok then act_fail FromStd
            else act_return ()
        | None \<Rightarrow> bind_listener an euid users env config)
       (\<lambda>_. drop_in_setup sys euid users env)"

section \<open>Lemmas\<close>

lemma emit_Inr: "emit ev ok e s = (Inr x, t) \<longleftrightarrow> ok \<and> t = s\<lparr>se_trace := se_trace s @ [ev]\<rparr>"
  by (auto simp: emit_def)

lemma find_user_Inr: "find_user users env s = (Inr u, t) \<longleftrightarrow> users (service_user_name env) = Some u \<and> t = s"
  by (auto simp: find_user_def split: option.splits)

lemma drop_in_setup_Inr:
  "drop_in_setup sys euid users env s = (Inr x, t) \<longleftrightarrow>
     (\<exists>p. drop_privileges_completely sys euid users env (se_process s) = (Inr x, p) \<and>
          t = s\<lparr>se_trace := se_trace s @ [DropPrivileges], se_process := p\<rparr>)"
  by (auto simp: drop_in_setup_def map_err_def split: prod.splits sum.splits)

lemmas setup_Inr = act_then_Inr emit_Inr find_user_Inr drop_in_setup_Inr

lemma prepare_socket_parent_frame:
  assumes "prepare_socket_parent an euid users env config s = (r, t)"
  shows "se_process t = se_process s \<and>
    (\<exists>evs. se_trace t = se_trace s @ evs \<and> set evs \<inter> {RemoveSocket, BindSocket, DropPrivileges} = {})"
  using assms
  by (auto simp: prepare_socket_parent_def act_then_def emit_def find_user_def set_socket_parent_owner_def
      split: if_splits PathStat.splits option.splits)

lemma remove_stale_frame:
  "se_process (snd (remove_stale_socket_with an s)) = se_process s"
  "se_trace (snd (remove_stale_socket_with an s)) = se_trace s \<or>
   se_trace (snd (remove_stale_socket_with an s)) = se_trace s @ [RemoveSocket]"
  by (auto simp: remove_stale_socket_with_def emit_def split: PathStat.splits ConnectResult.splits)

text \<open>A stale socket is unlinked only if the path is a socket and not a symlink, and connecting to
  it failed for a reason other than missing permission: a socket somebody listens on, a symlink and
  an ordinary file are never removed, and setup fails instead.\<close>

theorem stale_socket_removed_iff:
  "(RemoveSocket \<in> set (se_trace (snd (remove_stale_socket_with an \<lparr>se_trace = [], se_process = p\<rparr>))) \<longleftrightarrow>
     an_stale_stat an = PathIs SocketPath \<and> an_connect an \<in> {ConnectRefused, ConnectOther} \<and> an_remove_ok an) \<and>
   (fst (remove_stale_socket_with an s) = Inr () \<longleftrightarrow>
     an_stale_stat an = PathMissing \<or>
     (an_stale_stat an = PathIs SocketPath \<and> an_connect an \<in> {ConnectRefused, ConnectOther} \<and> an_remove_ok an))"
  by (auto simp: remove_stale_socket_with_def emit_def split: PathStat.splits ConnectResult.splits)

lemma bind_listener_Inr:
  assumes "bind_listener an euid users env config s = (Inr x, t)"
  shows "se_process t = se_process s \<and>
    (\<exists>evs. RemoveSocket \<notin> set evs \<and> BindSocket \<notin> set evs \<and> DropPrivileges \<notin> set evs \<and>
      se_trace t = se_trace s @ evs @
        (if an_stale_stat an = PathMissing then [] else [RemoveSocket]) @ [BindSocket, SocketMode 432] @
        (if euid (se_process s) = 0
         then (case users (service_user_name env) of Some u \<Rightarrow> [SocketOwner (us_uid u) (us_gid u)] | None \<Rightarrow> [])
         else []))"
proof -
  obtain y s_a where a: "(if an_has_parent an then prepare_socket_parent an euid users env config
      else act_return ()) s = (Inr y, s_a)"
    and rest: "act_then (remove_stale_socket_with an) (\<lambda>_.
     act_then (emit BindSocket (an_bind_ok an) BindFailed) (\<lambda>_.
     act_then (set_socket_mode an) (\<lambda>_.
       if euid (se_process s) = 0
       then act_then (find_user users env) (\<lambda>u. set_socket_owner an (us_uid u) (us_gid u))
       else act_return ()))) s_a = (Inr x, t)"
    using assms unfolding bind_listener_def act_then_Inr [of "if an_has_parent an then _ else _"] by blast
  have p: "se_process s_a = se_process s \<and> (\<exists>evs. se_trace s_a = se_trace s @ evs \<and>
      set evs \<inter> {RemoveSocket, BindSocket, DropPrivileges} = {})"
    using a prepare_socket_parent_frame [of an euid users env config s "Inr y" s_a]
    by (cases "an_has_parent an") auto
  obtain z s_b where b: "remove_stale_socket_with an s_a = (Inr z, s_b)"
    and tail: "se_process t = se_process s_b" "se_trace t = se_trace s_b @ [BindSocket, SocketMode 432] @
        (if euid (se_process s) = 0
         then (case users (service_user_name env) of Some u \<Rightarrow> [SocketOwner (us_uid u) (us_gid u)] | None \<Rightarrow> [])
         else [])"
    using rest
    by (auto simp: setup_Inr set_socket_mode_def set_socket_owner_def split: if_splits)
  have "se_process s_b = se_process s_a"
    "se_trace s_b = se_trace s_a @ (if an_stale_stat an = PathMissing then [] else [RemoveSocket])"
    using b by (auto simp: remove_stale_socket_with_def emit_Inr
        split: PathStat.splits ConnectResult.splits if_splits)
  then show ?thesis using p tail by auto
qed

text \<open>C25: A listener is handed out only after privileges were dropped, whether systemd passed the
  socket or the daemon bound it, and the drop is the last thing the setup does. When the daemon bound
  the socket, it did so once, after a stale one was removed; \<open>fchmod\<close> to 0660 and, if the daemon is
  root, \<open>fchown\<close> to the service user were called on its descriptor next, all before privileges are
  dropped: nothing but the drop comes after them, and no drop comes before.\<close>

theorem listener_after_drop:
  assumes "setup_listener sys an euid users env config \<lparr>se_trace = [], se_process = p\<rparr> = (Inr (), t)"
  shows "drop_privileges_completely sys euid users env p = (Inr (), se_process t) \<and>
    (if an_activated an \<noteq> None then se_trace t = [DropPrivileges]
     else (\<exists>before. se_trace t = before @ [BindSocket, SocketMode 432] @
             (if euid p = 0
              then (case users (service_user_name env) of
                      Some u \<Rightarrow> [SocketOwner (us_uid u) (us_gid u)] | None \<Rightarrow> [])
              else []) @ [DropPrivileges] \<and>
           BindSocket \<notin> set before \<and> DropPrivileges \<notin> set before \<and>
           (RemoveSocket \<in> set before \<longleftrightarrow> an_stale_stat an \<noteq> PathMissing)))"
proof (cases "an_activated an")
  case None
  with assms obtain t0 where b: "bind_listener an euid users env config \<lparr>se_trace = [], se_process = p\<rparr> = (Inr (), t0)"
    and d: "drop_in_setup sys euid users env t0 = (Inr (), t)"
    by (auto simp: setup_listener_def act_then_Inr)
  from bind_listener_Inr [OF b] obtain evs where e: "RemoveSocket \<notin> set evs" "BindSocket \<notin> set evs"
      "DropPrivileges \<notin> set evs"
    and p: "se_process t0 = p"
    and tr: "se_trace t0 = (evs @ (if an_stale_stat an = PathMissing then [] else [RemoveSocket])) @
        [BindSocket, SocketMode 432] @
        (if euid p = 0
         then (case users (service_user_name env) of Some u \<Rightarrow> [SocketOwner (us_uid u) (us_gid u)] | None \<Rightarrow> [])
         else [])"
    by auto
  let ?before = "evs @ (if an_stale_stat an = PathMissing then [] else [RemoveSocket])"
  have "drop_privileges_completely sys euid users env p = (Inr (), se_process t)"
    "se_trace t = se_trace t0 @ [DropPrivileges]"
    using d p by (auto simp: drop_in_setup_Inr)
  moreover have "BindSocket \<notin> set ?before" "DropPrivileges \<notin> set ?before"
    "RemoveSocket \<in> set ?before \<longleftrightarrow> an_stale_stat an \<noteq> PathMissing"
    using e by auto
  ultimately show ?thesis using None tr by (auto intro: exI [of _ ?before])
next
  case (Some a)
  then show ?thesis
    using assms by (cases a) (auto simp: setup_listener_def setup_Inr split: if_splits)
qed

definition sample_answers :: SetupAnswers where
  "sample_answers = \<lparr>an_activated = None, an_has_parent = True, an_parent_exists = True,
     an_create_parent_ok = True, an_parent_stat = PathIs DirectoryPath, an_parent_open_ok = True,
     an_parent_chmod_ok = True, an_parent_chown_ok = True, an_stale_stat = PathIs SocketPath,
     an_connect = ConnectRefused, an_remove_ok = True, an_bind_ok = True, an_chmod_ok = True,
     an_chown_ok = True\<rparr>"

theorem listener_after_drop_witness:
  "\<exists>t config. setup_listener sample_kernel sample_answers pc_euid (\<lambda>_. Some \<lparr>us_uid = 990, us_gid = 991\<rparr>)
     (\<lambda>_. NotPresent) config \<lparr>se_trace = [], se_process = sample_root\<rparr> = (Inr (), t) \<and>
   (\<exists>before. se_trace t = before @ [BindSocket, SocketMode 432, SocketOwner 990 991, DropPrivileges])"
proof -
  fix config :: Config
  let ?t = "setup_listener sample_kernel sample_answers pc_euid (\<lambda>_. Some \<lparr>us_uid = 990, us_gid = 991\<rparr>)
     (\<lambda>_. NotPresent) config \<lparr>se_trace = [], se_process = sample_root\<rparr>"
  have r: "?t = (Inr (), snd ?t)"
    by (simp add: setup_listener_def bind_listener_def prepare_socket_parent_def sample_answers_def
        act_then_def emit_def find_user_def set_socket_parent_owner_def remove_stale_socket_with_def
        set_socket_mode_def set_socket_owner_def drop_in_setup_def map_err_def sample_root_def
        drop_privileges_completely_def apply_seccomp_def drop_identity_def issue_call_def refuse_root_def)
  have "pc_euid sample_root = 0" "an_activated sample_answers = None"
    by (simp_all add: sample_root_def sample_answers_def)
  then show ?thesis using listener_after_drop [OF r] r by auto
qed

end
