(* ===== verification/Server_Setup.thy ===== *)
theory Server_Setup
  imports Server_Properties Socket_Setup
begin

text \<open>
  Starting and reloading the daemon: \<open>ReloadableState::load\<close> and \<open>reload\<close>, the checks and the
  construction of the server state in \<open>run_server\<close>, and \<open>reload_state\<close>, which a hang-up signal
  triggers (\<open>infrastructure/ipc/unix_socket.rs\<close>). What the disk holds when the files are read is
  the record \<open>Disk\<close>; the parsers of TOML and of audit entries are the record \<open>Parsers\<close>.
\<close>

section \<open>State and errors\<close>

record Disk =
  dk_allowlist :: "IoErrorKind + OpenFile"
  dk_policy :: "IoErrorKind + OpenFile"
  dk_adapters :: dir_listing
  dk_keys :: dir_listing
  dk_audit_mkdir :: bool
  dk_audit :: append_opens

record Parsers =
  ps_policy_toml :: "string \<Rightarrow> string + RawRule list"
  ps_adapter_toml :: "string \<Rightarrow> string + AdapterConfig"
  ps_entry_json :: "string \<Rightarrow> AuditEntry option"

datatype StartError =
    AttestationDisabled
  | OwnerUserMissing string
  | RegistryFailed RegistryError
  | AllowlistFailed AllowlistError
  | PolicyFailed PolicyError
  | KeysFailed KeyDirError
  | AuditFailed AuditError
  | ListenerFailed SetupError

section \<open>Loading\<close>

definition load_state ::
  "Parsers \<Rightarrow> u32 \<Rightarrow> Disk \<Rightarrow> Config \<Rightarrow> OwnerPolicy \<Rightarrow> StartError + ReloadableState" where
  "load_state ps cur dk config owner =
     res_bind
       (if is_prod_mode config
        then (case load_from_file_with_options cur (dk_allowlist dk) True owner new_allowlist of
                (Inl e, _) \<Rightarrow> Inl (AllowlistFailed e)
              | (Inr _, allowlist) \<Rightarrow> Inr allowlist)
        else Inr (snd (load_from_file_with_options cur (dk_allowlist dk) False owner new_allowlist)))
       (\<lambda>allowlist.
          res_bind (map_err PolicyFailed (from_config_with_owner (ps_policy_toml ps) cur (dk_policy dk)
              (cf_max_result_age_secs config) owner)) (\<lambda>engine.
            Inr \<lparr>rl_allowlist = allowlist, rl_policy = engine\<rparr>))"

definition reload ::
  "Parsers \<Rightarrow> u32 \<Rightarrow> Disk \<Rightarrow> Config \<Rightarrow> OwnerPolicy \<Rightarrow> StartError + ReloadableState" where
  "reload ps cur dk config owner =
     (case load_from_file_with_options cur (dk_allowlist dk) (is_prod_mode config) owner new_allowlist of
        (Inl e, _) \<Rightarrow> Inl (AllowlistFailed e)
      | (Inr _, allowlist) \<Rightarrow>
          res_bind (map_err PolicyFailed (from_config_with_owner (ps_policy_toml ps) cur (dk_policy dk)
              (cf_max_result_age_secs config) owner)) (\<lambda>engine.
            Inr \<lparr>rl_allowlist = allowlist, rl_policy = engine\<rparr>))"

definition validate_attestation_mode :: "Config \<Rightarrow> StartError + unit" where
  "validate_attestation_mode config =
     (if is_prod_mode config \<and> \<not> cf_require_attestation config then Inl AttestationDisabled else Inr ())"

definition secure_owner_policy ::
  "bool \<Rightarrow> (string \<Rightarrow> User option) \<Rightarrow> (string \<Rightarrow> EnvVar) \<Rightarrow> Config \<Rightarrow> StartError + OwnerPolicy" where
  "secure_owner_policy is_root users env config =
     (if is_root \<or> is_prod_mode config
      then (case users (service_user_name env) of
              None \<Rightarrow>
                if is_prod_mode config \<or> is_root then Inl (OwnerUserMissing (service_user_name env))
                else Inr RootOrCurrent
            | Some u \<Rightarrow> Inr (RootOrUid (us_uid u)))
      else Inr RootOrCurrent)"

section \<open>Starting\<close>

definition initial_state ::
  "Parsers \<Rightarrow> (bytes \<Rightarrow> bytes) \<Rightarrow> u32 \<Rightarrow> bool \<Rightarrow> instant \<Rightarrow> Disk \<Rightarrow> (string \<Rightarrow> User option) \<Rightarrow>
   (string \<Rightarrow> EnvVar) \<Rightarrow> Config \<Rightarrow> StartError + ServerState" where
  "initial_state ps sha256 cur is_root now dk users env config =
     res_bind (validate_attestation_mode config) (\<lambda>_.
     res_bind (secure_owner_policy is_root users env config) (\<lambda>owner.
     res_bind (map_err RegistryFailed (load_registry (ps_adapter_toml ps) cur now (dk_adapters dk)
         (is_prod_mode config) owner)) (\<lambda>registry.
     res_bind (load_state ps cur dk config owner) (\<lambda>reloadable.
     res_bind (map_err KeysFailed (load_from_dir_with_owner cur (dk_keys dk) owner)) (\<lambda>attester.
     res_bind (if cf_require_attestation config
               then map_err KeysFailed (require_keys_for_adapters attester (reg_adapter_names registry))
               else Inr ()) (\<lambda>_.
     res_bind (map_err AuditFailed (open_logger (ps_entry_json ps) sha256 (dk_audit_mkdir dk) cur
         (dk_audit dk) owner)) (\<lambda>logger.
       Inr \<lparr>sv_registry = registry, sv_reloadable = reloadable, sv_attester = attester,
            sv_nonces = new_nonce_state, sv_audit = logger, sv_limiter = new_limiter,
            sv_config = config, sv_owner = owner,
            sv_metrics = \<lparr>total_requests = 0, request_failures = 0, active_connections = 0,
                         idle_closes = 0\<rparr>\<rparr>)))))))"

text \<open>The state first, then the listener, which drops privileges; the loop starts after both.\<close>

definition run_server_startup ::
  "Parsers \<Rightarrow> (bytes \<Rightarrow> bytes) \<Rightarrow> u32 \<Rightarrow> instant \<Rightarrow> Disk \<Rightarrow> (Syscall \<Rightarrow> 'p \<Rightarrow> bool \<times> 'p) \<Rightarrow> SetupAnswers \<Rightarrow>
   ('p \<Rightarrow> u32) \<Rightarrow> (string \<Rightarrow> User option) \<Rightarrow> (string \<Rightarrow> EnvVar) \<Rightarrow> Config \<Rightarrow>
   ('p Setup, StartError, ServerState) action" where
  "run_server_startup ps sha256 cur now dk sys an euid users env config s =
     (case initial_state ps sha256 cur (euid (se_process s) = 0) now dk users env config of
        Inl e \<Rightarrow> (Inl e, s)
      | Inr st \<Rightarrow>
         (case setup_listener sys an euid users env config s of
            (Inl e, t) \<Rightarrow> (Inl (ListenerFailed e), t)
          | (Inr _, t) \<Rightarrow> (Inr st, t)))"

section \<open>Reloading\<close>

definition swap_reloadable :: "Parsers \<Rightarrow> u32 \<Rightarrow> Disk \<Rightarrow> ServerState \<Rightarrow> ServerState" where
  "swap_reloadable ps cur dk st =
     (case reload ps cur dk (sv_config st) (sv_owner st) of
        Inr new_state \<Rightarrow> st\<lparr>sv_reloadable := new_state\<rparr>
      | Inl _ \<Rightarrow> st)"

definition reopen_log :: "u32 \<Rightarrow> append_opens \<Rightarrow> ServerState \<Rightarrow> ServerState" where
  "reopen_log cur opens st =
     (case reopen cur opens (sv_audit st) of
        (Inl _, logger) \<Rightarrow> count_failure (st\<lparr>sv_audit := logger\<rparr>)
      | (Inr _, logger) \<Rightarrow> st\<lparr>sv_audit := logger\<rparr>)"

definition reload_state :: "Parsers \<Rightarrow> u32 \<Rightarrow> Disk \<Rightarrow> ServerState \<Rightarrow> ServerState" where
  "reload_state ps cur dk st = reopen_log cur (dk_audit dk) (swap_reloadable ps cur dk st)"

lemmas reload_state_defs = reload_state_def swap_reloadable_def reopen_log_def

section \<open>Lemmas\<close>

lemma initial_state_Inr:
  assumes "initial_state ps sha256 cur is_root now dk users env config = Inr st"
  shows "validate_attestation_mode config = Inr () \<and>
    secure_owner_policy is_root users env config = Inr (sv_owner st) \<and>
    load_registry (ps_adapter_toml ps) cur now (dk_adapters dk) (is_prod_mode config) (sv_owner st) =
      Inr (sv_registry st) \<and>
    load_state ps cur dk config (sv_owner st) = Inr (sv_reloadable st) \<and>
    load_from_dir_with_owner cur (dk_keys dk) (sv_owner st) = Inr (sv_attester st) \<and>
    (cf_require_attestation config \<longrightarrow>
       require_keys_for_adapters (sv_attester st) (reg_adapter_names (sv_registry st)) = Inr ()) \<and>
    open_logger (ps_entry_json ps) sha256 (dk_audit_mkdir dk) cur (dk_audit dk) (sv_owner st) = Inr (sv_audit st) \<and>
    sv_nonces st = new_nonce_state \<and> sv_limiter st = new_limiter \<and> sv_config st = config"
  using assms by (auto simp: initial_state_def res_bind_Inr_iff split: if_splits)

lemma load_state_prod:
  assumes "load_state ps cur dk config owner = Inr rel" and "is_prod_mode config"
  shows "\<exists>content. read_secure_to_string cur (dk_allowlist dk) (allowlist_spec owner) = Inr content \<and>
      (\<forall>l\<in>set (lines content). line_ok l) \<and> allowed_uids (rl_allowlist rel) = listed (lines content)"
    and "from_config_with_owner (ps_policy_toml ps) cur (dk_policy dk) (cf_max_result_age_secs config) owner =
      Inr (rl_policy rel)"
proof -
  obtain al where al: "load_from_file_with_options cur (dk_allowlist dk) True owner new_allowlist = (Inr (), al)"
    and rel: "rl_allowlist rel = al" "from_config_with_owner (ps_policy_toml ps) cur (dk_policy dk)
      (cf_max_result_age_secs config) owner = Inr (rl_policy rel)"
    using assms by (auto simp: load_state_def res_bind_Inr_iff split: prod.splits sum.splits)
  show "\<exists>content. read_secure_to_string cur (dk_allowlist dk) (allowlist_spec owner) = Inr content \<and>
      (\<forall>l\<in>set (lines content). line_ok l) \<and> allowed_uids (rl_allowlist rel) = listed (lines content)"
    using load_allowlist_Inr [OF al] rel(1) by auto
  show "from_config_with_owner (ps_policy_toml ps) cur (dk_policy dk) (cf_max_result_age_secs config) owner =
      Inr (rl_policy rel)" by (rule rel(2))
qed

lemma initial_state_keys:
  assumes "initial_state ps sha256 cur is_root now dk users env config = Inr st"
    and "cf_require_attestation config" and "resolve (sv_registry st) m = Inr r"
  shows "hm_get (adapter_keys (sv_attester st)) (ra_adapter_name r) \<noteq> None"
proof -
  note i = initial_state_Inr [OF assms(1)]
  have "registry_wf (sv_registry st)" using load_registry_wf i by blast
  then have "ra_adapter_name r \<in> set (reg_adapter_names (sv_registry st))"
    using resolve_Inr [OF assms(3)] by (auto simp: registry_wf_def)
  then show ?thesis using i assms(2) by (auto simp: require_keys_iff)
qed

lemma prod_owner:
  assumes "initial_state ps sha256 cur is_root now dk users env config = Inr st" and "is_prod_mode config"
  shows "\<exists>u. users (service_user_name env) = Some u \<and> sv_owner st = RootOrUid (us_uid u)"
  using initial_state_Inr [OF assms(1)] assms(2)
  by (auto simp: secure_owner_policy_def split: if_splits option.splits)

section \<open>Properties\<close>

text \<open>C17: In production the daemon starts only if it can enforce everything it promises: attestation
  is required, whatever adapter a request can resolve to has a key, every line of the allowlist
  file was understood and nobody else is on the list, and the policy's rules are well-formed. The
  allowlist, the policy, the configurations of the adapters, the keys and the audit log were all
  opened under the owner policy of the service user.\<close>

theorem prod_startup_guards:
  assumes "initial_state ps sha256 cur is_root now dk users env config = Inr st"
    and "is_prod_mode config"
  shows "cf_require_attestation (sv_config st) \<and>
    (\<exists>u. users (service_user_name env) = Some u \<and> sv_owner st = RootOrUid (us_uid u)) \<and>
    (\<forall>m r. resolve (sv_registry st) m = Inr r \<longrightarrow>
       hm_get (adapter_keys (sv_attester st)) (ra_adapter_name r) \<noteq> None) \<and>
    (\<exists>content. read_secure_to_string cur (dk_allowlist dk) (allowlist_spec (sv_owner st)) = Inr content \<and>
       (\<forall>l\<in>set (lines content). line_ok l) \<and>
       allowed_uids (rl_allowlist (sv_reloadable st)) = listed (lines content)) \<and>
    rules_wf (pe_rules (rl_policy (sv_reloadable st))) \<and>
    from_config_with_owner (ps_policy_toml ps) cur (dk_policy dk) (cf_max_result_age_secs config) (sv_owner st) =
      Inr (rl_policy (sv_reloadable st)) \<and>
    load_registry (ps_adapter_toml ps) cur now (dk_adapters dk) True (sv_owner st) = Inr (sv_registry st) \<and>
    load_from_dir_with_owner cur (dk_keys dk) (sv_owner st) = Inr (sv_attester st) \<and>
    open_logger (ps_entry_json ps) sha256 (dk_audit_mkdir dk) cur (dk_audit dk) (sv_owner st) = Inr (sv_audit st)"
proof -
  note i = initial_state_Inr [OF assms(1)]
  have att: "cf_require_attestation config"
    using i assms(2) by (auto simp: validate_attestation_mode_def split: if_splits)
  have rel: "load_state ps cur dk config (sv_owner st) = Inr (sv_reloadable st)" using i by blast
  from load_state_prod [OF rel assms(2)] from_config_wf
  show ?thesis using att prod_owner [OF assms] i assms(2) initial_state_keys [OF assms(1) att] by simp
qed

text \<open>C18: In production everything the daemon trusts comes from regular files that belong to root or the
  service user and that no group and nobody else can write: the allowlist, the policy, the key of
  every adapter, which has 32 bytes, and the configuration behind every route.\<close>

theorem trust_rests_on_protected_files:
  assumes "initial_state ps sha256 cur is_root now dk users env config = Inr st"
    and "is_prod_mode config"
  shows "(\<exists>u. users (service_user_name env) = Some u \<and> sv_owner st = RootOrUid (us_uid u)) \<and>
    trusted_file cur (sv_owner st) (dk_allowlist dk) \<and> trusted_file cur (sv_owner st) (dk_policy dk) \<and>
    (\<forall>name key. hm_get (adapter_keys (sv_attester st)) name = Some key \<longrightarrow> length key = 32 \<and>
       (\<exists>entries e. dk_keys dk = Some (Inr entries) \<and> Inr e \<in> set entries \<and> de_name e = name @ ''.key'' \<and>
          trusted_file cur (sv_owner st) (de_opened e))) \<and>
    (\<forall>m c. hm_get (reg_clients (sv_registry st)) m = Some c \<longrightarrow>
       (\<exists>entries e cfg. dk_adapters dk = Some (Inr entries) \<and> Inr e \<in> set entries \<and>
          read_adapter_config (ps_adapter_toml ps) cur (sv_owner st) e = Inr cfg \<and>
          m \<in> set (ac_methods cfg) \<and> c = client_of_config cfg \<and>
          trusted_file cur (sv_owner st) (de_opened e)))"
proof -
  note i = initial_state_Inr [OF assms(1)]
  have rel: "load_state ps cur dk config (sv_owner st) = Inr (sv_reloadable st)" using i by blast
  note l = load_state_prod [OF rel assms(2)]
  have "trusted_file cur (sv_owner st) (dk_allowlist dk)"
    using l(1) allowlist_read_trusted by blast
  moreover have "trusted_file cur (sv_owner st) (dk_policy dk)"
    using l(2) policy_file.loads_trusted by (fastforce simp: from_config_with_owner_def res_bind_Inr_iff)
  moreover have "length key = 32 \<and> (\<exists>entries e. dk_keys dk = Some (Inr entries) \<and> Inr e \<in> set entries \<and>
      de_name e = name @ ''.key'' \<and> trusted_file cur (sv_owner st) (de_opened e))"
    if "hm_get (adapter_keys (sv_attester st)) name = Some key" for name key
    using i loaded_key_origin [of cur "dk_keys dk" "sv_owner st" "sv_attester st" name key] that by blast
  moreover have "\<exists>entries e cfg. dk_adapters dk = Some (Inr entries) \<and> Inr e \<in> set entries \<and>
      read_adapter_config (ps_adapter_toml ps) cur (sv_owner st) e = Inr cfg \<and>
      m \<in> set (ac_methods cfg) \<and> c = client_of_config cfg \<and> trusted_file cur (sv_owner st) (de_opened e)"
    if "hm_get (reg_clients (sv_registry st)) m = Some c" for m c
    using i registry_client_origin [OF _ that] by blast
  ultimately show ?thesis using prod_owner [OF assms] by blast
qed

text \<open>C26: A reload is all or nothing: afterwards the allowlist and the policy are both the old ones or
  both what the files hold now, and a bad file changes neither; the registry, the keys, the nonces,
  the rate limits and the configuration are untouched, and the audit chain goes on from the same
  hash whether or not the log file could be reopened.\<close>

theorem reload_all_or_nothing:
  assumes "reload_state ps cur dk st = st'"
  shows "(sv_reloadable st' = sv_reloadable st \<or>
     (\<exists>content engine. read_secure_to_string cur (dk_allowlist dk) (allowlist_spec (sv_owner st)) = Inr content \<and>
        (is_prod_mode (sv_config st) \<longrightarrow> (\<forall>l\<in>set (lines content). line_ok l)) \<and>
        from_config_with_owner (ps_policy_toml ps) cur (dk_policy dk)
          (cf_max_result_age_secs (sv_config st)) (sv_owner st) = Inr engine \<and>
        sv_reloadable st' =
          \<lparr>rl_allowlist = \<lparr>allowed_uids = listed (lines content)\<rparr>, rl_policy = engine\<rparr>)) \<and>
    al_prev_hash (sv_audit st') = al_prev_hash (sv_audit st) \<and>
    sv_registry st' = sv_registry st \<and> sv_attester st' = sv_attester st \<and> sv_nonces st' = sv_nonces st \<and>
    sv_limiter st' = sv_limiter st \<and> sv_config st' = sv_config st \<and> sv_owner st' = sv_owner st"
proof -
  have frame: "sv_reloadable st' = (case reload ps cur dk (sv_config st) (sv_owner st) of
        Inr r \<Rightarrow> r | Inl _ \<Rightarrow> sv_reloadable st)"
    "al_prev_hash (sv_audit st') = al_prev_hash (sv_audit st)"
    "sv_registry st' = sv_registry st" "sv_attester st' = sv_attester st" "sv_nonces st' = sv_nonces st"
    "sv_limiter st' = sv_limiter st" "sv_config st' = sv_config st" "sv_owner st' = sv_owner st"
    using assms
    by (auto simp: reload_state_defs Let_def count_failure_def reopen_def split: sum.splits if_splits)
  have "\<exists>content engine. read_secure_to_string cur (dk_allowlist dk) (allowlist_spec (sv_owner st)) = Inr content \<and>
        (is_prod_mode (sv_config st) \<longrightarrow> (\<forall>l\<in>set (lines content). line_ok l)) \<and>
        from_config_with_owner (ps_policy_toml ps) cur (dk_policy dk)
          (cf_max_result_age_secs (sv_config st)) (sv_owner st) = Inr engine \<and>
        new = \<lparr>rl_allowlist = \<lparr>allowed_uids = listed (lines content)\<rparr>, rl_policy = engine\<rparr>"
    if "reload ps cur dk (sv_config st) (sv_owner st) = Inr new" for new
    using that
    by (auto simp: reload_def res_bind_Inr_iff new_allowlist_def dest!: load_allowlist_Inr
        split: prod.splits sum.splits)
  then show ?thesis
    using frame by (cases "reload ps cur dk (sv_config st) (sv_owner st)") auto
qed

section \<open>Witnesses\<close>

definition sample_disk :: Disk where
  "sample_disk = \<lparr>dk_allowlist = Inr sample_allowlist_file, dk_policy = Inr sample_policy_file,
     dk_adapters = Some (Inr [Inr sample_adapter_entry]), dk_keys = Some (Inr [Inr sample_key_entry]),
     dk_audit_mkdir = True,
     dk_audit = (Inr \<lparr>fd_stat = Some \<lparr>st_mode = 33184, st_uid = 0, st_size = 0\<rparr>, fd_data = Some [],
        fd_probe_ok = True, fd_chmod_ok = True\<rparr>, Inl IoOther, Inl IoOther)\<rparr>"

definition sample_parsers :: Parsers where
  "sample_parsers = \<lparr>ps_policy_toml = (\<lambda>_. Inr sample_raw_rules), ps_adapter_toml = (\<lambda>_. Inr sample_config),
     ps_entry_json = (\<lambda>_. None)\<rparr>"

abbreviation sample_users :: "string \<Rightarrow> User option" where
  "sample_users \<equiv> \<lambda>_. Some \<lparr>us_uid = 990, us_gid = 991\<rparr>"

text \<open>The state the daemon starts in; one probe of the adapter later it is \<open>sample_state\<close>.\<close>

definition started_state :: ServerState where
  "started_state = sample_state\<lparr>sv_registry := sample_registry\<rparr>"

text \<open>Only three fields of a configuration matter to what is loaded.\<close>

definition sample_like :: "Config \<Rightarrow> bool" where
  "sample_like config \<longleftrightarrow> is_prod_mode config \<and> cf_require_attestation config \<and>
     cf_max_result_age_secs config = 10"

lemma sample_load_state:
  assumes "sample_like config"
  shows "load_state sample_parsers 0 sample_disk config owner =
     Inr \<lparr>rl_allowlist = \<lparr>allowed_uids = {1000}\<rparr>, rl_policy = sample_engine\<rparr>"
  using assms sample_allowlist_loaded [of True owner] sample_engine_loaded [of owner]
  by (simp add: load_state_def sample_like_def sample_disk_def sample_parsers_def)

lemma sample_started_like:
  assumes "sample_like config"
  shows "initial_state sample_parsers sample_sha 0 True 0 sample_disk sample_users env config =
    Inr (started_state\<lparr>sv_config := config\<rparr>)"
proof -
  have reg: "load_registry (ps_adapter_toml sample_parsers) 0 0 (dk_adapters sample_disk) True owner
      = Inr sample_registry" for owner
    using sample_registry_loaded [of owner] by (simp add: sample_parsers_def sample_disk_def)
  have keys: "load_from_dir_with_owner 0 (dk_keys sample_disk) owner =
      Inr \<lparr>adapter_keys = [(''demo'', as_bytes (replicate 32 CHR ''k''))]\<rparr>" for owner
    using sample_key_loaded [of owner] by (simp add: sample_disk_def)
  have audit: "open_logger (ps_entry_json sample_parsers) sample_sha (dk_audit_mkdir sample_disk) 0
      (dk_audit sample_disk) owner =
      Inr \<lparr>al_owner = owner, al_file = [], al_prev_hash = ZERO_HASH, al_poisoned = False\<rparr>" for owner
    by (simp add: open_logger_def append_open_def sample_disk_def open_secure_append_def validate_owner_def
        last_entry_hash_def)
  have "is_prod_mode config" "cf_require_attestation config" using assms by (simp_all add: sample_like_def)
  then show ?thesis
    by (simp add: initial_state_def validate_attestation_mode_def secure_owner_policy_def reg keys audit
        sample_load_state [OF assms] require_keys_for_adapters_def sample_registry_def hm_get_def
        started_state_def sample_state_def sample_logger_def)
qed

lemma sample_started:
  "initial_state sample_parsers sample_sha 0 True 0 sample_disk sample_users (\<lambda>_. NotPresent)
     sample_server_config = Inr started_state"
proof -
  have "sample_like sample_server_config"
    by (simp add: sample_like_def is_prod_mode_def sample_server_config_def)
  then show ?thesis
    using sample_started_like [of sample_server_config] by (simp add: started_state_def sample_state_def)
qed

theorem prod_startup_guards_witness:
  "cf_require_attestation (sv_config started_state) \<and> sv_owner started_state = RootOrUid 990 \<and>
   load_from_dir_with_owner 0 (dk_keys sample_disk) (RootOrUid 990) = Inr (sv_attester started_state) \<and>
   hm_get (adapter_keys (sv_attester started_state)) ''demo'' \<noteq> None"
proof -
  have "is_prod_mode sample_server_config" by (simp add: is_prod_mode_def sample_server_config_def)
  note g = prod_startup_guards [OF sample_started this]
  have "resolve (sv_registry started_state) ''fido2'' =
      Inr \<lparr>ra_adapter_name = ''demo'', ra_method = ''fido2'', ra_timeout_ms = 5000,
          ra_client = client_of_config sample_config\<rparr>"
    by (simp add: started_state_def resolve_def resolve_client_def sample_registry_def hm_get_def
        client_of_config_def sample_config_def)
  with g show ?thesis by fastforce
qed

theorem trust_rests_on_protected_files_witness:
  "trusted_file 0 (RootOrUid 990) (dk_policy sample_disk) \<and> trusted_file 0 (RootOrUid 990) (dk_allowlist sample_disk)"
proof -
  have "is_prod_mode sample_server_config" by (simp add: is_prod_mode_def sample_server_config_def)
  from trust_rests_on_protected_files [OF sample_started this] show ?thesis by auto
qed

theorem reload_all_or_nothing_witness:
  "sv_reloadable (reload_state sample_parsers 0 (sample_disk\<lparr>dk_policy := Inl IoNotFound\<rparr>) started_state) =
     sv_reloadable started_state"
proof -
  let ?dk = "sample_disk\<lparr>dk_policy := Inl IoNotFound\<rparr>"
  have "from_config_with_owner t 0 (dk_policy ?dk) a owner \<noteq> Inr engine" for t a owner engine
    by (simp add: from_config_with_owner_def load_policy_def read_policy_file_def read_secure_to_string_def
        open_secure_read_def)
  then show ?thesis
    using reload_all_or_nothing [of sample_parsers 0 ?dk started_state, OF refl] by blast
qed

end
