(* ===== verification/Runs.thy ===== *)
theory Runs
  imports Prelude
begin

text \<open>
  What it means to be reachable, as an interface: a start, a step relation and the states that any
  number of steps leads to. The lemmas are the ways the development uses it: an invariant, an
  invariant that holds as long as a growing quantity is below a bound, and following a run on.
\<close>

locale runs =
  fixes start :: 's
    and step :: "'s \<Rightarrow> 's \<Rightarrow> bool"
    and reach :: "'s \<Rightarrow> bool"
  assumes reach_iff: "reach s \<longleftrightarrow> step\<^sup>*\<^sup>* start s"
begin

lemma reach_start: "reach start"
  by (simp add: reach_iff)

lemma reach_step: "reach s \<Longrightarrow> step s t \<Longrightarrow> reach t"
  by (simp add: reach_iff)

lemma reach_on: "reach s \<Longrightarrow> step\<^sup>*\<^sup>* s t \<Longrightarrow> reach t"
  by (simp add: reach_iff)

lemma invariant:
  assumes "reach s" and "holds start"
    and "\<And>s t. reach s \<Longrightarrow> step s t \<Longrightarrow> holds s \<Longrightarrow> holds t"
  shows "holds s"
proof -
  have "step\<^sup>*\<^sup>* start s" using assms(1) by (simp add: reach_iff)
  then have "reach s \<and> holds s"
    by (induction rule: rtranclp_induct) (use assms(2,3) reach_start reach_step in blast)+
  then show ?thesis ..
qed

lemma invariant_below:
  fixes count :: "'s \<Rightarrow> nat"
  assumes "reach s" and "holds start" and "count s < bound"
    and mono: "\<And>s t. step s t \<Longrightarrow> count s \<le> count t"
    and step: "\<And>s t. reach s \<Longrightarrow> step s t \<Longrightarrow> holds s \<Longrightarrow> count t < bound \<Longrightarrow> holds t"
  shows "holds s"
proof -
  have "count s < bound \<longrightarrow> holds s"
    using assms(1)
  proof (rule invariant)
    show "count start < bound \<longrightarrow> holds start" using assms(2) by simp
  next
    fix s t
    assume "reach s" and "step s t" and "count s < bound \<longrightarrow> holds s"
    then show "count t < bound \<longrightarrow> holds t" using mono [of s t] step [of s t] by simp
  qed
  then show ?thesis using assms(3) by simp
qed

end

text \<open>An inductive predicate with a base rule and a step rule is such a set of states.\<close>

lemma reach_rtranclp:
  assumes "reach start" and "\<And>s t. reach s \<Longrightarrow> step s t \<Longrightarrow> reach t"
    and "\<And>P s. reach s \<Longrightarrow> P start \<Longrightarrow> (\<And>s t. reach s \<Longrightarrow> P s \<Longrightarrow> step s t \<Longrightarrow> P t) \<Longrightarrow> P s"
  shows "reach s \<longleftrightarrow> step\<^sup>*\<^sup>* start s"
proof
  assume "reach s"
  then show "step\<^sup>*\<^sup>* start s" by (rule assms(3)) (auto intro: rtranclp.rtrancl_into_rtrancl)
next
  assume "step\<^sup>*\<^sup>* start s"
  then show "reach s" by (induction rule: rtranclp_induct) (use assms(1,2) in blast)+
qed

text \<open>
  Simulation: a detailed system and an abstract one, and a relation between their states that some
  number of abstract steps restores after every detailed step. Then whatever the detailed system
  reaches is related to something the abstract one reaches.
\<close>

locale simulation =
  conc: runs start step reach + spec: runs astart astep areach
  for start :: 's and step and reach and astart :: 'a and astep and areach +
  fixes rel :: "'s \<Rightarrow> 'a \<Rightarrow> bool"
  assumes rel_start: "rel start astart"
    and rel_step: "reach s \<Longrightarrow> areach a \<Longrightarrow> rel s a \<Longrightarrow> step s t \<Longrightarrow> \<exists>b. astep\<^sup>*\<^sup>* a b \<and> rel t b"
begin

lemma simulated: "reach s \<Longrightarrow> \<exists>a. areach a \<and> rel s a"
proof (erule conc.invariant)
  show "\<exists>a. areach a \<and> rel start a" using spec.reach_start rel_start by blast
next
  fix s t
  assume "reach s" "step s t" "\<exists>a. areach a \<and> rel s a"
  then show "\<exists>a. areach a \<and> rel t a" using rel_step spec.reach_on by blast
qed

end

text \<open>
  Refinement: the relation is a function from the detailed states to the abstract ones, under which
  every detailed step is an abstract step or none. Then the image of what the detailed system reaches
  is reached by the abstract one, and what holds of all abstract states holds of the images.
\<close>

locale refinement =
  conc: runs start step reach + spec: runs astart astep areach
  for start :: 's and step and reach and astart :: 'a and astep and areach +
  fixes med :: "'s \<Rightarrow> 'a"
  assumes med_start: "med start = astart"
    and med_step: "reach s \<Longrightarrow> step s t \<Longrightarrow> astep (med s) (med t) \<or> med t = med s"

sublocale refinement \<subseteq> image: simulation start step reach astart astep areach "\<lambda>s a. a = med s"
proof unfold_locales
  show "astart = med start" by (simp add: med_start)
next
  fix s a t
  assume "reach s" "a = med s" "step s t"
  then show "\<exists>b. astep\<^sup>*\<^sup>* a b \<and> b = med t" using med_step [of s t] by auto
qed

context refinement begin

lemma refines: "reach s \<Longrightarrow> areach (med s)"
  using image.simulated by blast

lemma transfer: "reach s \<Longrightarrow> (\<And>m. areach m \<Longrightarrow> holds m) \<Longrightarrow> holds (med s)"
  using refines by blast

end

end
