(* ===== verification/Server_System.thy ===== *)
theory Server_System
  imports Server_Setup Runs "HOL-Library.Multiset"
begin

text \<open>
  The daemon as a concurrent system. Client tasks run the handler of
  \<open>infrastructure/ipc/unix_socket.rs\<close>, and the points where it waits (for a line, for the adapter,
  for the audit write, for the socket) let every other task run in between; so do the sweeps of the
  nonce store and of the rate limiter, the health monitor and a reload. A step of the system is one
  uninterrupted piece of one task, built from the same functions the handler is made of, each with
  its own oracle. The state carries, beside the server, the requests in flight, one list for each
  place where a request can be, and a history: the responses sent and those that could not be
  delivered, the nonces issued and honoured, the audit entries made durable, the reloadable
  states that were ever in force, the adapter calls with what their socket delivered, the judgements
  with the clocks they read, what was asked (request id, caller and uid) and when it was admitted,
  and what the rate limiter was called for.
\<close>

section \<open>States and steps\<close>

record Admitted =
  ad_caller_uid :: u32
  ad_uid :: u32
  ad_method :: string
  ad_req_id :: "string option"
  ad_reloadable :: ReloadableState

record Pending =
  pd_session :: Session
  pd_reloadable :: ReloadableState

record System =
  sy_server :: ServerState
  sy_admitted :: "Admitted list"
  sy_waiting :: "Pending list"
  sy_answered :: "(Pending \<times> (AdapterError + VerificationResult)) list"
  sy_settling :: "(string option \<times> Conclusion) list"
  sy_replying :: "Response list"
  sy_sent :: "Response list"
  sy_lost :: "Response list"
  sy_issued :: "bytes list"
  sy_honoured :: "bytes list"
  sy_entries :: "AuditEntry list"
  sy_loaded :: "ReloadableState list"
  sy_calls :: "(Pending \<times> AdapterIo \<times> (AdapterError + VerificationResult)) list"
  sy_judged :: "(Pending \<times> (AdapterError + VerificationResult) \<times> Oracle) list"
  sy_asked :: "(string option \<times> u32 \<times> u32) list"
  sy_admissions :: "(instant \<times> u32) list"
  sy_rate :: "rate_op list"

definition start_system :: "ServerState \<Rightarrow> System" where
  "start_system st = \<lparr>sy_server = st, sy_admitted = [], sy_waiting = [], sy_answered = [], sy_settling = [],
     sy_replying = [], sy_sent = [], sy_lost = [], sy_issued = [], sy_honoured = [], sy_entries = [],
     sy_loaded = [sv_reloadable st], sy_calls = [], sy_judged = [], sy_asked = [], sy_admissions = [], sy_rate = []\<rparr>"

text \<open>The entry a settled conclusion leaves, if the logger wrote and synced it.\<close>

definition settled_entries :: "Packages \<Rightarrow> Oracle \<Rightarrow> Conclusion \<Rightarrow> ServerState \<Rightarrow> AuditEntry list" where
  "settled_entries pk orc cn st =
     (case fst (log (pk_entry_json pk) (pk_sha256 pk) (or_write_fail orc) (or_sync_ok orc) (cn_entry cn) (sv_audit st)) of
        Inl _ \<Rightarrow> []
      | Inr _ \<Rightarrow> [seal (pk_sha256 pk) (al_prev_hash (sv_audit st)) (cn_entry cn)])"

definition honoured :: "Session \<Rightarrow> Conclusion \<Rightarrow> bytes list" where
  "honoured ss cn = (if decision_of (cn_response cn) = Some ''allow'' then [ss_nonce ss] else [])"

text \<open>The first group of steps is a client task. A line is screened; a verification begins and either
  is refused or has a nonce and waits; the adapter call reads the health of the adapter as it is
  then; its answer is judged; the entry is written; the response goes out. A response is lost when
  the client has gone or its task is aborted; the abort of the last tasks at shutdown also drops a
  request at the adapter call, and one whose audit write has not started, and a task that panics
  drops its request wherever it is. The second group is everything else that changes the server; the
  counters, which no decision reads, change in any way there.\<close>

inductive sys_step :: "Packages \<Rightarrow> Parsers \<Rightarrow> u32 \<Rightarrow> System \<Rightarrow> System \<Rightarrow> bool"
  for pk :: Packages and ps :: Parsers and self :: u32 where
  screen_silent: "screen_line pk now self caller line (sy_server s) = (SilentClose, st) \<Longrightarrow>
     sys_step pk ps self s (s\<lparr>sy_server := st\<rparr>)"
| screen_answer: "screen_line pk now self caller line (sy_server s) = (Answer after resp, st) \<Longrightarrow>
     sys_step pk ps self s (s\<lparr>sy_server := st, sy_replying := sy_replying s @ [resp],
       sy_rate := sy_rate s @ [Check now caller]\<rparr>)"
| admit: "screen_line pk now self caller line (sy_server s) = (Verify uid m rid, st) \<Longrightarrow>
     sys_step pk ps self s (s\<lparr>sy_server := st,
       sy_admitted := sy_admitted s @ [\<lparr>ad_caller_uid = caller, ad_uid = uid, ad_method = m, ad_req_id = rid,
         ad_reloadable = sv_reloadable (sy_server s)\<rparr>],
       sy_asked := sy_asked s @ [(rid, caller, uid)], sy_admissions := sy_admissions s @ [(now, caller)],
       sy_rate := sy_rate s @ [Check now caller]\<rparr>)"
| begin_refused: "sy_admitted s = xs @ a # ys \<Longrightarrow>
     begin_verify orc (sy_server s) (ad_caller_uid a) (ad_uid a) (ad_method a) (ad_req_id a) = (Inl cn, st) \<Longrightarrow>
     sys_step pk ps self s (s\<lparr>sy_server := st, sy_admitted := xs @ ys,
       sy_settling := sy_settling s @ [(ad_req_id a, cn)]\<rparr>)"
| begin_dispatched: "sy_admitted s = xs @ a # ys \<Longrightarrow>
     begin_verify orc (sy_server s) (ad_caller_uid a) (ad_uid a) (ad_method a) (ad_req_id a) = (Inr ss, st) \<Longrightarrow>
     sys_step pk ps self s (s\<lparr>sy_server := st, sy_admitted := xs @ ys,
       sy_waiting := sy_waiting s @ [\<lparr>pd_session = ss, pd_reloadable = ad_reloadable a\<rparr>],
       sy_issued := sy_issued s @ [ss_nonce ss]\<rparr>)"
| dispatch: "sy_waiting s = xs @ p # ys \<Longrightarrow>
     fst (session_dispatch pk orc (sy_server s) (pd_session p)) = ans \<Longrightarrow>
     sys_step pk ps self s (s\<lparr>sy_waiting := xs @ ys, sy_answered := sy_answered s @ [(p, ans)],
       sy_calls := sy_calls s @ [(p, or_io orc, ans)]\<rparr>)"
| conclude: "sy_answered s = xs @ (p, ans) # ys \<Longrightarrow>
     conclude_verify pk orc (pd_reloadable p) (pd_session p) ans (sy_server s) = (cn, st) \<Longrightarrow>
     sys_step pk ps self s (s\<lparr>sy_server := st, sy_answered := xs @ ys,
       sy_settling := sy_settling s @ [(ss_req_id (pd_session p), cn)],
       sy_honoured := sy_honoured s @ honoured (pd_session p) cn,
       sy_judged := sy_judged s @ [(p, ans, orc)]\<rparr>)"
| record_entry: "sy_settling s = xs @ (rid, cn) # ys \<Longrightarrow> settle pk orc rid cn (sy_server s) = (resp, st) \<Longrightarrow>
     sys_step pk ps self s (s\<lparr>sy_server := st, sy_settling := xs @ ys,
       sy_replying := sy_replying s @ [resp],
       sy_entries := sy_entries s @ settled_entries pk orc cn (sy_server s)\<rparr>)"
| send: "sy_replying s = xs @ resp # ys \<Longrightarrow>
     sys_step pk ps self s (s\<lparr>sy_replying := xs @ ys, sy_sent := sy_sent s @ [resp]\<rparr>)"
| lose: "sy_replying s = xs @ resp # ys \<Longrightarrow>
     sys_step pk ps self s (s\<lparr>sy_replying := xs @ ys, sy_lost := sy_lost s @ [resp]\<rparr>)"
| abort_call: "sy_waiting s = xs @ p # ys \<Longrightarrow> sys_step pk ps self s (s\<lparr>sy_waiting := xs @ ys\<rparr>)"
| abort_admitted: "sy_admitted s = xs @ a # ys \<Longrightarrow> sys_step pk ps self s (s\<lparr>sy_admitted := xs @ ys\<rparr>)"
| abort_answered: "sy_answered s = xs @ x # ys \<Longrightarrow> sys_step pk ps self s (s\<lparr>sy_answered := xs @ ys\<rparr>)"
| abort_write: "sy_settling s = xs @ x # ys \<Longrightarrow> sys_step pk ps self s (s\<lparr>sy_settling := xs @ ys\<rparr>)"
| count: "sys_step pk ps self s (s\<lparr>sy_server := (sy_server s)\<lparr>sv_metrics := m\<rparr>\<rparr>)"
| sweep_nonces:
    "sys_step pk ps self s (s\<lparr>sy_server := (sy_server s)\<lparr>sv_nonces := cleanup_tick now (sv_nonces (sy_server s))\<rparr>\<rparr>)"
| sweep_limiter:
    "sys_step pk ps self s (s\<lparr>sy_server := (sy_server s)\<lparr>sv_limiter := cleanup_stale now (sv_limiter (sy_server s))\<rparr>,
       sy_rate := sy_rate s @ [Cleanup now]\<rparr>)"
| probe:
    "sys_step pk ps self s (s\<lparr>sy_server := (sy_server s)\<lparr>sv_registry := (sv_registry (sy_server s))\<lparr>reg_health :=
       monitor_client poisons up now name (reg_health (sv_registry (sy_server s)))\<rparr>\<rparr>\<rparr>)"
| swap: "swap_reloadable ps cur dk (sy_server s) = st \<Longrightarrow>
     sys_step pk ps self s (s\<lparr>sy_server := st, sy_loaded := sy_loaded s @ [sv_reloadable st]\<rparr>)"
| reopen_file: "reopen_log cur opens (sy_server s) = st \<Longrightarrow> sys_step pk ps self s (s\<lparr>sy_server := st\<rparr>)"

inductive reachable :: "Packages \<Rightarrow> Parsers \<Rightarrow> u32 \<Rightarrow> ServerState \<Rightarrow> System \<Rightarrow> bool"
  for pk :: Packages and ps :: Parsers and self :: u32 and st0 :: ServerState where
  start: "reachable pk ps self st0 (start_system st0)"
| run: "reachable pk ps self st0 s \<Longrightarrow> sys_step pk ps self s t \<Longrightarrow> reachable pk ps self st0 t"

interpretation daemon: runs "start_system st0" "sys_step pk ps self" "reachable pk ps self st0"
  for pk :: Packages and ps :: Parsers and self :: u32 and st0 :: ServerState
proof
  show "reachable pk ps self st0 s \<longleftrightarrow> (sys_step pk ps self)\<^sup>*\<^sup>* (start_system st0) s" for s
    by (rule reach_rtranclp [where reach = "reachable pk ps self st0"])
      (auto intro: start run elim: reachable.induct)
qed

section \<open>What does not change\<close>

definition same_trust :: "ServerState \<Rightarrow> ServerState \<Rightarrow> bool" where
  "same_trust a b \<longleftrightarrow> sv_config a = sv_config b \<and> sv_attester a = sv_attester b \<and> sv_owner a = sv_owner b \<and>
     reg_clients (sv_registry a) = reg_clients (sv_registry b) \<and>
     reg_adapter_names (sv_registry a) = reg_adapter_names (sv_registry b)"

lemma same_trust_refl [simp]: "same_trust a a"
  by (simp add: same_trust_def)

lemma same_trust_updates [simp]:
  "same_trust a (b\<lparr>sv_limiter := l\<rparr>) = same_trust a b"
  "same_trust a (b\<lparr>sv_nonces := n\<rparr>) = same_trust a b"
  "same_trust a (b\<lparr>sv_audit := g\<rparr>) = same_trust a b"
  "same_trust a (count_failure b) = same_trust a b"
  by (simp_all add: same_trust_def count_failure_def)

lemma settle_frame: "settle pk orc rid cn st = (resp, st') \<Longrightarrow>
    sv_nonces st' = sv_nonces st \<and> sv_reloadable st' = sv_reloadable st \<and> same_trust st st'"
  by (auto simp: settle_def write_audit_or_error_def count_failure_def Let_def same_trust_def
      split: prod.splits sum.splits)

lemma conclude_frame_trust: "conclude_verify pk orc rel ss ans st = (cn, st') \<Longrightarrow>
    st' = st\<lparr>sv_nonces := snd (consume (or_consume_now orc) (ss_nonce ss) (ss_uid ss) (sv_nonces st))\<rparr>"
  using conclude_frame [of pk orc rel ss ans st] conclude_nonces [of pk orc rel ss ans st] by simp

lemma swap_frame: "swap_reloadable ps cur dk st = st' \<Longrightarrow> st' = st\<lparr>sv_reloadable := sv_reloadable st'\<rparr>"
  by (auto simp: swap_reloadable_def split: sum.splits)

lemma reopen_frame: "reopen_log cur opens st = st' \<Longrightarrow>
    sv_nonces st' = sv_nonces st \<and> al_prev_hash (sv_audit st') = al_prev_hash (sv_audit st) \<and>
    sv_reloadable st' = sv_reloadable st \<and> same_trust st st'"
  by (auto simp: reopen_log_def Let_def count_failure_def reopen_def same_trust_def
      split: sum.splits if_splits)

lemma screen_frame:
  assumes "screen_line pk now self caller line st = (sc, st')"
  shows "sv_nonces st' = sv_nonces st \<and> sv_audit st' = sv_audit st \<and>
    sv_reloadable st' = sv_reloadable st \<and> same_trust st st'"
  using assms by (cases rule: screen_line_cases) (auto simp: count_failure_def same_trust_def)

text \<open>What each step leaves of the server, for the proofs that go through every step.\<close>

lemma same_trust_swap [simp]: "same_trust a (b\<lparr>sv_reloadable := r\<rparr>) = same_trust a b"
  by (simp add: same_trust_def)

lemma same_trust_trans: "same_trust a b \<Longrightarrow> same_trust b c \<Longrightarrow> same_trust a c"
  by (simp add: same_trust_def)

lemma begin_trust: "begin_verify orc st caller uid m rid = (r, st') \<Longrightarrow> same_trust st st'"
  by (drule begin_frame) (metis same_trust_refl same_trust_updates(2))

lemma conclude_trust: "conclude_verify pk orc rel ss ans st = (cn, st') \<Longrightarrow> same_trust st st'"
  by (drule conclude_frame_trust) simp

lemma swap_trust: "swap_reloadable ps cur dk st = st' \<Longrightarrow> same_trust st st'"
  by (drule swap_frame) (metis same_trust_refl same_trust_swap)

lemma step_same_trust: "sys_step pk ps self s t \<Longrightarrow> same_trust (sy_server s) (sy_server t)"
proof (induction rule: sys_step.induct)
  case (swap cur dk s st)
  then show ?case using swap_trust [OF swap] by simp
next
  case (reopen_file cur opens s st)
  then show ?case using reopen_frame [OF reopen_file] by simp
qed (auto dest: screen_frame begin_trust conclude_trust settle_frame simp: same_trust_def)

lemma step_trust: "sys_step pk ps self s t \<Longrightarrow> same_trust st0 (sy_server s) \<Longrightarrow> same_trust st0 (sy_server t)"
  using step_same_trust same_trust_trans by blast

lemma reachable_trust: "reachable pk ps self st0 s \<Longrightarrow> same_trust st0 (sy_server s)"
  by (erule daemon.invariant) (auto simp: start_system_def intro: step_trust)

text \<open>The steps that leave the nonces alone.\<close>

lemma screen_nonces: "screen_line pk now self caller line st = (sc, st') \<Longrightarrow> sv_nonces st' = sv_nonces st"
  using screen_frame by blast

lemma settle_keeps_nonces: "settle pk orc rid cn st = (resp, st') \<Longrightarrow> sv_nonces st' = sv_nonces st"
  using settle_frame by blast

lemma swap_nonces [simp]: "sv_nonces (swap_reloadable ps cur dk st) = sv_nonces st"
  by (simp add: swap_reloadable_def split: sum.splits)

lemma reopen_nonces [simp]: "sv_nonces (reopen_log cur opens st) = sv_nonces st"
  using reopen_frame [OF refl] by blast

section \<open>Nonces\<close>

definition nonces_balanced :: "System \<Rightarrow> bool" where
  "nonces_balanced s \<longleftrightarrow> nonce_inv (sv_nonces (sy_server s)) \<and>
     (\<forall>n. count_list (sy_honoured s) n + of_bool (n \<in> live_nonces (sv_nonces (sy_server s))) \<le>
          count_list (sy_issued s) n)"

lemma balance_shrink:
  assumes "\<forall>n. h n + of_bool (n \<in> A) \<le> (i n :: nat)" and "B \<subseteq> A"
  shows "\<forall>n. h n + of_bool (n \<in> B) \<le> i n"
proof
  fix n
  have "of_bool (n \<in> B) \<le> (of_bool (n \<in> A) :: nat)" using assms(2) by auto
  then show "h n + of_bool (n \<in> B) \<le> i n"
    using assms(1) [THEN spec, of n] by (meson add_left_mono order_trans)
qed

lemma honoured_consumed:
  assumes "conclude_verify pk orc rel ss ans st = (cn, st')" and "honoured ss cn \<noteq> []"
  shows "ss_nonce ss \<in> live_nonces (sv_nonces st) \<and>
    live_nonces (sv_nonces st') = live_nonces (sv_nonces st) - {ss_nonce ss} \<and> honoured ss cn = [ss_nonce ss]"
proof -
  have allow: "decision_of (cn_response (fst (conclude_verify pk orc rel ss ans st))) = Some ''allow''"
    using assms by (auto simp: honoured_def split: if_splits)
  obtain result where "answer_sound pk orc rel ss st result" using conclude_allow [OF allow] by blast
  then have ok: "fst (consume (or_consume_now orc) (ss_nonce ss) (ss_uid ss) (sv_nonces st)) = Inr ()"
    by (simp add: answer_sound_def)
  then obtain nonces where c: "consume (or_consume_now orc) (ss_nonce ss) (ss_uid ss) (sv_nonces st) = (Inr (), nonces)"
    by (cases "consume (or_consume_now orc) (ss_nonce ss) (ss_uid ss) (sv_nonces st)") auto
  note i = consume_Inr [OF c]
  have "sv_nonces st' = drop_nonce (ss_nonce ss) (sv_nonces st)"
    using conclude_frame_trust [OF assms(1)] c i by simp
  moreover have "ss_nonce ss \<in> live_nonces (sv_nonces st)" using i by (auto simp: live_nonces_def)
  ultimately show ?thesis using assms(2) by (auto simp: live_drop honoured_def split: if_splits)
qed

text \<open>A session that begins adds its nonce to the live ones, where it was not.\<close>

lemma begin_issues:
  assumes "nonce_inv (sv_nonces st)" and "begin_verify orc st caller uid m rid = (Inr ss, st')"
  shows "ss_nonce ss \<notin> live_nonces (sv_nonces st) \<and>
    live_nonces (sv_nonces st') = insert (ss_nonce ss) (live_nonces (sv_nonces st)) \<and> nonce_inv (sv_nonces st')"
proof -
  have g: "generate (or_rng orc) (or_generate_now orc) uid (sv_nonces st) = (Inr (ss_nonce ss), sv_nonces st')"
    using begin_session [OF assms(2)] by simp
  have "ss_nonce ss \<notin> live_nonces (sv_nonces st)"
    "live_nonces (sv_nonces st') = insert (ss_nonce ss) (live_nonces (sv_nonces st))"
    using generate_Inr [OF assms(1) g] by (auto simp: live_issue) (simp add: live_nonces_def)
  moreover have "nonce_inv (sv_nonces st')" using nonce_inv_generate [OF assms(1)] g by (metis snd_conv)
  ultimately show ?thesis by blast
qed

lemma conclude_shrinks:
  assumes "conclude_verify pk orc rel ss ans st = (cn, st')"
  shows "live_nonces (sv_nonces st') \<subseteq> live_nonces (sv_nonces st) \<and>
    (nonce_inv (sv_nonces st) \<longrightarrow> nonce_inv (sv_nonces st'))"
  using conclude_frame_trust [OF assms] nonce_inv_consume by (auto simp: consume_live)

lemma conclude_balanced:
  assumes c: "conclude_verify pk orc rel ss ans (sy_server s) = (cn, st)" and n: "nonces_balanced s"
  shows "nonces_balanced (s\<lparr>sy_server := st, sy_honoured := sy_honoured s @ honoured ss cn\<rparr>)"
proof (cases "honoured ss cn = []")
  case True
  then show ?thesis
    using conclude_shrinks [OF c] n balance_shrink [OF _ conclude_shrinks [OF c, THEN conjunct1]]
    by (auto simp: nonces_balanced_def)
next
  case False
  note h = honoured_consumed [OF c False]
  have "count_list (sy_honoured s @ [ss_nonce ss]) n + of_bool (n \<in> live_nonces (sv_nonces st)) \<le>
      count_list (sy_issued s) n" for n
  proof -
    have "count_list (sy_honoured s) n + of_bool (n \<in> live_nonces (sv_nonces (sy_server s))) \<le> count_list (sy_issued s) n"
      using n by (simp add: nonces_balanced_def)
    then show ?thesis using h by (cases "n = ss_nonce ss") auto
  qed
  then show ?thesis using h conclude_shrinks [OF c] n by (simp add: nonces_balanced_def)
qed

lemma nonces_balanced_cong:
  assumes "nonces_balanced s" and "sv_nonces (sy_server t) = sv_nonces (sy_server s)"
    and "sy_issued t = sy_issued s" and "sy_honoured t = sy_honoured s"
  shows "nonces_balanced t"
  using assms by (simp add: nonces_balanced_def)

lemma step_nonces: "sys_step pk ps self s t \<Longrightarrow> nonces_balanced s \<Longrightarrow> nonces_balanced t"
proof (induction rule: sys_step.induct)
  case (begin_dispatched s xs a ys orc ss st)
  have "nonce_inv (sv_nonces (sy_server s))" using begin_dispatched(3) by (simp add: nonces_balanced_def)
  note b = begin_issues [OF this begin_dispatched(2)]
  have "count_list (sy_honoured s) (ss_nonce ss) \<le> count_list (sy_issued s) (ss_nonce ss)"
    using begin_dispatched(3) unfolding nonces_balanced_def by (meson add_leD1)
  then show ?case using b begin_dispatched(3) by (auto simp: nonces_balanced_def)
next
  case (conclude s xs p ans ys orc cn st)
  from conclude_balanced [OF conclude(2,3)] show ?case by (rule nonces_balanced_cong) simp_all
next
  case (sweep_nonces s now)
  have inv: "nonce_inv (sv_nonces (sy_server s))" using sweep_nonces by (simp add: nonces_balanced_def)
  then show ?case
    using sweep_nonces nonce_inv_cleanup [OF inv] balance_shrink [OF _ live_cleanup [OF inv]]
    by (auto simp: nonces_balanced_def)
qed ((erule nonces_balanced_cong; auto dest: screen_nonces begin_deny_nonces settle_keeps_nonces)+)

lemma reachable_nonces:
  assumes "reachable pk ps self st0 s" and "sv_nonces st0 = new_nonce_state"
  shows "nonces_balanced s"
  using assms(1)
proof (rule daemon.invariant)
  have "live_nonces new_nonce_state = {}" by (simp add: live_nonces_def new_nonce_state_def)
  then show "nonces_balanced (start_system st0)"
    using assms(2) by (simp add: nonces_balanced_def start_system_def nonce_inv_new)
qed (blast intro: step_nonces)

section \<open>Decisions\<close>

text \<open>Why an allow in the log was right: a judgement of the history found the answer sound, at the
  clocks it read and under a reloadable state that was in force, and the entry records that session
  and that answer.\<close>

type_synonym History = "ReloadableState list \<times> (Pending \<times> (AdapterError + VerificationResult) \<times> Oracle) list"

definition records_answer :: "AuditEntry \<Rightarrow> Session \<Rightarrow> VerificationResult \<Rightarrow> bool" where
  "records_answer e ss result \<longleftrightarrow> ae_request_id e = ss_req_id ss \<and> ae_caller_uid e = ss_caller_uid ss \<and>
     ae_uid e = ss_uid ss \<and> ae_adapter_name e = Some (ra_adapter_name (ss_resolved ss)) \<and>
     ae_method e = ra_method (ss_resolved ss) \<and>
     (ae_confidence e, ae_evidence_hash e, ae_nonce_prefix e) = result_fields result"

definition justified :: "Packages \<Rightarrow> u32 \<Rightarrow> ServerState \<Rightarrow> History \<Rightarrow> AuditEntry \<Rightarrow> bool" where
  "justified pk self st0 h e \<longleftrightarrow> (\<exists>p result orc. (p, Inr result, orc) \<in> set (snd h) \<and>
     pd_reloadable p \<in> set (fst h) \<and> records_answer e (pd_session p) result \<and>
     (ae_caller_uid e \<noteq> 0 \<longrightarrow> ae_uid e = ae_caller_uid e) \<and>
     is_allowed self (ae_caller_uid e) (rl_allowlist (pd_reloadable p)) \<and>
     (let ss = pd_session p; r = ss_resolved ss in
        hm_get (reg_clients (sv_registry st0)) (ra_method r) = Some (ra_client r) \<and>
        ra_adapter_name r = cl_name (ra_client r) \<and>
        rs_nonce result = ss_nonce ss \<and> as_str (rs_method result) = ra_method r \<and>
        or_finish_ms orc \<le> vr_deadline_ms (ss_request ss) \<and>
        (cf_require_attestation (sv_config st0) \<longrightarrow>
           verify_attestation (pk_sha256 pk) (pk_hmac pk) (sv_attester st0) (ra_adapter_name r) result = Inr ()) \<and>
        evaluate (or_policy_ms orc) (rl_policy (pd_reloadable p)) (session_context ss result) = Allow))"

lemma justified_mono:
  assumes "justified pk self st0 h e" and "set (fst h) \<subseteq> set (fst k)" and "set (snd h) \<subseteq> set (snd k)"
  shows "justified pk self st0 k e"
  using assms unfolding justified_def by blast

definition admitted_ok :: "u32 \<Rightarrow> ReloadableState list \<Rightarrow> Admitted \<Rightarrow> bool" where
  "admitted_ok self loaded a \<longleftrightarrow> ad_reloadable a \<in> set loaded \<and>
     is_allowed self (ad_caller_uid a) (rl_allowlist (ad_reloadable a)) \<and>
     (ad_caller_uid a \<noteq> 0 \<longrightarrow> ad_uid a = ad_caller_uid a)"

definition pending_ok :: "u32 \<Rightarrow> ServerState \<Rightarrow> ReloadableState list \<Rightarrow> Pending \<Rightarrow> bool" where
  "pending_ok self st0 loaded p \<longleftrightarrow> (let ss = pd_session p; r = ss_resolved ss in
     pd_reloadable p \<in> set loaded \<and>
     is_allowed self (ss_caller_uid ss) (rl_allowlist (pd_reloadable p)) \<and>
     (ss_caller_uid ss \<noteq> 0 \<longrightarrow> ss_uid ss = ss_caller_uid ss) \<and>
     hm_get (reg_clients (sv_registry st0)) (ra_method r) = Some (ra_client r) \<and>
     ra_adapter_name r = cl_name (ra_client r))"

definition entry_ok :: "Packages \<Rightarrow> u32 \<Rightarrow> ServerState \<Rightarrow> History \<Rightarrow> AuditEntry \<Rightarrow> bool" where
  "entry_ok pk self st0 h e \<longleftrightarrow> ae_decision e \<in> {''allow'', ''deny''} \<and>
     (ae_decision e = ''allow'' \<longrightarrow> justified pk self st0 h e)"

definition conclusion_ok ::
  "Packages \<Rightarrow> u32 \<Rightarrow> ServerState \<Rightarrow> History \<Rightarrow> string option \<times> Conclusion \<Rightarrow> bool" where
  "conclusion_ok pk self st0 h x \<longleftrightarrow> (case x of (rid, cn) \<Rightarrow>
     entry_ok pk self st0 h (cn_entry cn) \<and>
     decision_of (cn_response cn) = Some (ae_decision (cn_entry cn)) \<and>
     rsp_id (cn_response cn) = rid \<and> ae_request_id (cn_entry cn) = rid)"

text \<open>What a response tells the client and what an entry tells the auditor.\<close>

definition verdict :: "Response \<Rightarrow> (string option \<times> string) multiset" where
  "verdict r = (case decision_of r of None \<Rightarrow> {#} | Some d \<Rightarrow> {#(rsp_id r, d)#})"

primrec verdicts :: "Response list \<Rightarrow> (string option \<times> string) multiset" where
  "verdicts [] = {#}"
| "verdicts (r # rs) = verdict r + verdicts rs"

definition entry_verdict :: "AuditEntry \<Rightarrow> string option \<times> string" where
  "entry_verdict e = (ae_request_id e, ae_decision e)"

lemma verdicts_append [simp]: "verdicts (rs @ qs) = verdicts rs + verdicts qs"
  by (induction rs) (simp_all add: ac_simps)

lemma verdict_in: "r \<in> set rs \<Longrightarrow> decision_of r = Some d \<Longrightarrow> (rsp_id r, d) \<in># verdicts rs"
  by (induction rs) (auto simp: verdict_def)

abbreviation accounted :: "System \<Rightarrow> bool" where
  "accounted s \<equiv> verdicts (sy_sent s @ sy_replying s @ sy_lost s) = mset (map entry_verdict (sy_entries s))"

abbreviation history :: "System \<Rightarrow> History" where
  "history s \<equiv> (sy_loaded s, sy_judged s)"

definition decisions_ok :: "Packages \<Rightarrow> u32 \<Rightarrow> ServerState \<Rightarrow> System \<Rightarrow> bool" where
  "decisions_ok pk self st0 s \<longleftrightarrow> (let ld = sy_loaded s in
     sv_reloadable (sy_server s) \<in> set ld \<and>
     (\<forall>a \<in> set (sy_admitted s). admitted_ok self ld a) \<and>
     (\<forall>p \<in> set (sy_waiting s). pending_ok self st0 ld p) \<and>
     (\<forall>x \<in> set (sy_answered s). pending_ok self st0 ld (fst x)) \<and>
     (\<forall>x \<in> set (sy_settling s). conclusion_ok pk self st0 (history s) x) \<and>
     (\<forall>e \<in> set (sy_entries s). entry_ok pk self st0 (history s) e) \<and>
     accounted s \<and>
     audit_chain (pk_sha256 pk) (al_prev_hash (sv_audit st0)) (sy_entries s) =
       Some (al_prev_hash (sv_audit (sy_server s))))"

text \<open>The history only grows, and what it justified stays justified.\<close>

lemma conclusion_ok_mono:
  "conclusion_ok pk self st0 h x \<Longrightarrow> set (fst h) \<subseteq> set (fst k) \<Longrightarrow> set (snd h) \<subseteq> set (snd k) \<Longrightarrow>
     conclusion_ok pk self st0 k x"
  by (auto simp: conclusion_ok_def entry_ok_def intro: justified_mono)

lemma entry_ok_mono:
  "entry_ok pk self st0 h e \<Longrightarrow> set (fst h) \<subseteq> set (fst k) \<Longrightarrow> set (snd h) \<subseteq> set (snd k) \<Longrightarrow> entry_ok pk self st0 k e"
  by (auto simp: entry_ok_def intro: justified_mono)

lemma decisions_grow:
  assumes "decisions_ok pk self st0 s" and "set (sy_loaded s) \<subseteq> set ld" and "set (sy_judged s) \<subseteq> set js"
  shows "decisions_ok pk self st0 (s\<lparr>sy_loaded := ld, sy_judged := js\<rparr>)"
proof -
  have "\<forall>x \<in> set (sy_settling s). conclusion_ok pk self st0 (ld, js) x" "\<forall>e \<in> set (sy_entries s). entry_ok pk self st0 (ld, js) e"
    using assms conclusion_ok_mono [of pk self st0 "history s" _ "(ld, js)"] entry_ok_mono [of pk self st0 "history s" _ "(ld, js)"]
    by (simp_all add: decisions_ok_def Let_def)
  then show ?thesis using assms by (auto simp: decisions_ok_def Let_def admitted_ok_def pending_ok_def)
qed

lemma seal_fields [simp]:
  "ae_decision (seal sha h e) = ae_decision e" "ae_caller_uid (seal sha h e) = ae_caller_uid e"
  "ae_uid (seal sha h e) = ae_uid e" "ae_request_id (seal sha h e) = ae_request_id e"
  "ae_adapter_name (seal sha h e) = ae_adapter_name e" "ae_method (seal sha h e) = ae_method e"
  "ae_confidence (seal sha h e) = ae_confidence e" "ae_evidence_hash (seal sha h e) = ae_evidence_hash e"
  "ae_nonce_prefix (seal sha h e) = ae_nonce_prefix e"
  by (simp_all add: seal_def Let_def)

lemma entry_ok_seal [simp]: "entry_ok pk self st0 k (seal sha h e) = entry_ok pk self st0 k e"
  by (simp add: entry_ok_def justified_def records_answer_def)

lemma conclusion_for_ok:
  "conclusion_for caller uid rid cn \<Longrightarrow>
     (ae_decision (cn_entry cn) = ''allow'' \<Longrightarrow> justified pk self st0 ld (cn_entry cn)) \<Longrightarrow>
     conclusion_ok pk self st0 ld (rid, cn)"
  by (auto simp: conclusion_for_def conclusion_ok_def entry_ok_def)

lemma begin_refused_ok:
  assumes "begin_verify orc st caller uid m rid = (Inl cn, st')"
  shows "conclusion_ok pk self st0 ld (rid, cn)"
proof -
  have "ae_decision (cn_entry cn) = ''deny''"
    using assms by (auto simp: begin_verify_def Let_def split: sum.splits prod.splits)
  then show ?thesis by (intro conclusion_for_ok [OF begin_conclusion [OF assms]]) simp
qed

lemma begin_dispatched_ok:
  assumes "begin_verify orc st (ad_caller_uid a) (ad_uid a) m rid = (Inr ss, st')"
    and "admitted_ok self ld a" and "same_trust st0 st"
  shows "pending_ok self st0 ld \<lparr>pd_session = ss, pd_reloadable = ad_reloadable a\<rparr>"
proof -
  note b = begin_session [OF assms(1)]
  then have "resolve (sv_registry st) m = Inr (ss_resolved ss)" by simp
  from resolve_Inr [OF this] b assms(2,3) show ?thesis
    by (auto simp: pending_ok_def admitted_ok_def same_trust_def)
qed

text \<open>The entry of an allow records the answer that was judged.\<close>

lemma judge_records:
  assumes "decision_of (cn_response (judge pk orc rel ss result st)) = Some ''allow''"
  shows "records_answer (cn_entry (judge pk orc rel ss result st)) ss result"
  using assms
  by (auto simp: judge_def Let_def records_answer_def from_decision_def result_fields_def session_context_def
      split: sum.splits if_splits PolicyDecision.splits)

lemma conclude_records:
  assumes "decision_of (cn_response (fst (conclude_verify pk orc rel ss (Inr result) st))) = Some ''allow''"
  shows "records_answer (cn_entry (fst (conclude_verify pk orc rel ss (Inr result) st))) ss result"
  using assms judge_records
  by (auto simp: conclude_verify_def split: if_splits sum.splits prod.splits)

lemma conclude_ok:
  assumes c: "conclude_verify pk orc (pd_reloadable p) (pd_session p) ans st = (cn, st')"
    and p: "pending_ok self st0 (fst h) p" and t: "same_trust st0 st" and j: "(p, ans, orc) \<in> set (snd h)"
  shows "conclusion_ok pk self st0 h (ss_req_id (pd_session p), cn)"
proof (rule conclusion_for_ok)
  show cn: "session_conclusion (pd_session p) cn"
    using conclude_conclusion [of "pd_session p" pk orc "pd_reloadable p" ans st] c by simp
  assume "ae_decision (cn_entry cn) = ''allow''"
  with cn have allow: "decision_of (cn_response (fst (conclude_verify pk orc (pd_reloadable p) (pd_session p) ans st))) = Some ''allow''"
    using c by (simp add: conclusion_for_def)
  from conclude_allow [OF allow] obtain result
    where ans: "ans = Inr result" and s: "answer_sound pk orc (pd_reloadable p) (pd_session p) st result" by blast
  have "records_answer (cn_entry cn) (pd_session p) result" using conclude_records allow c ans by fastforce
  moreover have "ae_caller_uid (cn_entry cn) = ss_caller_uid (pd_session p)" "ae_uid (cn_entry cn) = ss_uid (pd_session p)"
    using cn by (simp_all add: conclusion_for_def)
  ultimately show "justified pk self st0 h (cn_entry cn)"
    using p t j ans s unfolding justified_def answer_sound_def pending_ok_def same_trust_def Let_def by metis
qed

lemma log_Inl_hash: "log to_json sha w y e l = (Inl err, l') \<Longrightarrow> al_prev_hash l' = al_prev_hash l"
  by (auto simp: log_def Let_def split: if_splits option.splits)

lemma settle_entries:
  assumes "settle pk orc rid cn st = (resp, st')" and "conclusion_ok pk self st0 ld (rid, cn)"
    and "audit_chain (pk_sha256 pk) h es = Some (al_prev_hash (sv_audit st))"
  shows "verdict resp = mset (map entry_verdict (settled_entries pk orc cn st)) \<and>
    audit_chain (pk_sha256 pk) h (es @ settled_entries pk orc cn st) = Some (al_prev_hash (sv_audit st'))"
  using assms(1)
proof (cases rule: settle_cases)
  case (durable json)
  have d: "decision_of resp = Some (ae_decision (cn_entry cn))" "rsp_id resp = ae_request_id (cn_entry cn)"
    using assms(2) durable(1) by (auto simp: conclusion_ok_def)
  have "settled_entries pk orc cn st = [seal (pk_sha256 pk) (al_prev_hash (sv_audit st)) (cn_entry cn)]"
    using durable(4,7,8) by (simp add: settled_entries_def)
  moreover have "audit_chain (pk_sha256 pk) h (es @ [seal (pk_sha256 pk) (al_prev_hash (sv_audit st)) (cn_entry cn)]) =
      Some (al_prev_hash (sv_audit st'))"
    using assms(3) durable(6) by (simp add: audit.chain_snoc)
  ultimately show ?thesis using d by (simp add: entry_verdict_def verdict_def)
next
  case (failed e)
  have "al_prev_hash (sv_audit st') = al_prev_hash (sv_audit st)"
    by (rule log_Inl_hash [OF failed(2)])
  then show ?thesis using assms(3) failed(1,2) by (simp add: settled_entries_def verdict_def)
qed

lemma screen_ok:
  assumes "screen_line pk now self caller line (sy_server s) = (sc, st)" and "decisions_ok pk self st0 s"
  shows "decisions_ok pk self st0 (s\<lparr>sy_server := st\<rparr>)"
  using assms(2) screen_frame [OF assms(1)] by (auto simp: decisions_ok_def Let_def)

lemma admit_decisions:
  assumes "screen_line pk now self caller line (sy_server s) = (Verify uid m rid, st)" and "decisions_ok pk self st0 s"
  shows "admitted_ok self (sy_loaded s) \<lparr>ad_caller_uid = caller, ad_uid = uid, ad_method = m, ad_req_id = rid,
    ad_reloadable = sv_reloadable (sy_server s)\<rparr>"
proof -
  from assms(1) have "(caller \<noteq> 0 \<longrightarrow> uid = caller) \<and> is_allowed self caller (rl_allowlist (sv_reloadable (sy_server s)))"
    by (cases rule: screen_line_cases) (auto simp: request_uid_def split: if_splits)
  then show ?thesis using assms(2) by (simp add: decisions_ok_def Let_def admitted_ok_def)
qed

lemma begin_decisions:
  assumes "begin_verify orc (sy_server s) caller uid m rid = (r, st)" and "decisions_ok pk self st0 s"
  shows "decisions_ok pk self st0 (s\<lparr>sy_server := st\<rparr>)"
proof -
  have "sv_reloadable st = sv_reloadable (sy_server s)" "sv_audit st = sv_audit (sy_server s)"
    using begin_frame [OF assms(1)]
    by (metis ServerState.select_convs(2,5) ServerState.surjective ServerState.update_convs(4))+
  then show ?thesis using assms(2) by (simp add: decisions_ok_def Let_def)
qed

lemma record_decisions:
  assumes d: "decisions_ok pk self st0 s" and x: "sy_settling s = xs @ (rid, cn) # ys"
    and t: "settle pk orc rid cn (sy_server s) = (resp, st)"
  shows "decisions_ok pk self st0 (s\<lparr>sy_server := st, sy_settling := xs @ ys, sy_replying := sy_replying s @ [resp],
    sy_entries := sy_entries s @ settled_entries pk orc cn (sy_server s)\<rparr>)"
proof -
  let ?es = "settled_entries pk orc cn (sy_server s)"
  have c: "conclusion_ok pk self st0 (history s) (rid, cn)"
    using d x by (simp add: decisions_ok_def Let_def)
  then have "\<forall>e \<in> set ?es. entry_ok pk self st0 (history s) e"
    by (simp add: settled_entries_def conclusion_ok_def split: sum.splits)
  moreover have "verdict resp = mset (map entry_verdict ?es) \<and>
    audit_chain (pk_sha256 pk) (al_prev_hash (sv_audit st0)) (sy_entries s @ ?es) = Some (al_prev_hash (sv_audit st))"
    using d by (intro settle_entries [OF t c]) (simp add: decisions_ok_def Let_def)
  ultimately show ?thesis
    using d x settle_frame [OF t] by (auto simp: decisions_ok_def Let_def ac_simps)
qed

lemma step_decisions:
  assumes "sys_step pk ps self s t" and "decisions_ok pk self st0 s" and "same_trust st0 (sy_server s)"
  shows "decisions_ok pk self st0 t"
  using assms
proof (induction rule: sys_step.induct)
  case (screen_silent now caller line s st)
  then show ?case by (blast intro: screen_ok)
next
  case (screen_answer now caller line s after resp st)
  from screen_answer(1) have "verdict resp = {#}" by (cases rule: screen_line_cases) (auto simp: verdict_def)
  then show ?case using screen_ok [OF screen_answer(1,2)] by (auto simp: decisions_ok_def Let_def)
next
  case (admit now caller line s uid m rid st)
  from screen_ok [OF admit(1,2)] admit_decisions [OF admit(1,2)] show ?case by (auto simp: decisions_ok_def Let_def)
next
  case (begin_refused s xs a ys orc cn st)
  from begin_decisions [OF begin_refused(2,3)] begin_refused_ok [OF begin_refused(2)] show ?case
    using begin_refused(1) by (auto simp: decisions_ok_def Let_def)
next
  case (begin_dispatched s xs a ys orc ss st)
  have "admitted_ok self (sy_loaded s) a" using begin_dispatched(1,3) by (simp add: decisions_ok_def Let_def)
  from begin_dispatched_ok [OF begin_dispatched(2) this begin_dispatched(4)] begin_decisions [OF begin_dispatched(2,3)]
  show ?case using begin_dispatched(1) by (auto simp: decisions_ok_def Let_def)
next
  case (conclude s xs p ans ys orc cn st)
  let ?js = "sy_judged s @ [(p, ans, orc)]"
  have g: "decisions_ok pk self st0 (s\<lparr>sy_loaded := sy_loaded s, sy_judged := ?js\<rparr>)"
    using conclude(3) by (rule decisions_grow) auto
  have "pending_ok self st0 (sy_loaded s) p" using conclude(1,3) by (simp add: decisions_ok_def Let_def)
  then have "conclusion_ok pk self st0 (sy_loaded s, ?js) (ss_req_id (pd_session p), cn)"
    using conclude_ok [OF conclude(2) _ conclude(4)] by simp
  then show ?case
    using conclude(1) g conclude_frame_trust [OF conclude(2)] by (auto simp: decisions_ok_def Let_def)
next
  case (record_entry s xs rid cn ys orc resp st)
  then show ?case by (blast intro: record_decisions)
next
  case (swap cur dk s st)
  have "sv_audit st = sv_audit (sy_server s)" by (subst swap_frame [OF swap(1)]) simp
  moreover have "decisions_ok pk self st0 (s\<lparr>sy_loaded := sy_loaded s @ [sv_reloadable st], sy_judged := sy_judged s\<rparr>)"
    using swap(2) by (rule decisions_grow) auto
  ultimately show ?case by (auto simp: decisions_ok_def Let_def)
next
  case (reopen_file cur opens s st)
  then show ?case using reopen_frame [OF reopen_file(1)] by (auto simp: decisions_ok_def Let_def)
qed (auto simp: decisions_ok_def Let_def ac_simps)

lemma reachable_decisions: "reachable pk ps self st0 s \<Longrightarrow> decisions_ok pk self st0 s"
proof (erule daemon.invariant)
  show "decisions_ok pk self st0 (start_system st0)"
    by (simp add: decisions_ok_def start_system_def)
qed (use step_decisions reachable_trust in blast)

section \<open>Who asked\<close>

definition entry_origin :: "AuditEntry \<Rightarrow> string option \<times> u32 \<times> u32" where
  "entry_origin e = (ae_request_id e, ae_caller_uid e, ae_uid e)"

definition session_origin :: "Session \<Rightarrow> string option \<times> u32 \<times> u32" where
  "session_origin ss = (ss_req_id ss, ss_caller_uid ss, ss_uid ss)"

definition origins_ok :: "System \<Rightarrow> bool" where
  "origins_ok s \<longleftrightarrow>
     (\<lambda>a. (ad_req_id a, ad_caller_uid a, ad_uid a)) ` set (sy_admitted s) \<union>
     (session_origin \<circ> pd_session) ` set (sy_waiting s) \<union>
     (session_origin \<circ> pd_session \<circ> fst) ` set (sy_answered s) \<union>
     (entry_origin \<circ> cn_entry \<circ> snd) ` set (sy_settling s) \<union>
     entry_origin ` set (sy_entries s) \<subseteq> set (sy_asked s)"

lemma conclusion_origin: "conclusion_for caller uid rid cn \<Longrightarrow> entry_origin (cn_entry cn) = (rid, caller, uid)"
  by (simp add: conclusion_for_def entry_origin_def)

lemma settled_origin: "e \<in> set (settled_entries pk orc cn st) \<Longrightarrow> entry_origin e = entry_origin (cn_entry cn)"
  by (auto simp: settled_entries_def entry_origin_def split: sum.splits)

lemma step_origins: "sys_step pk ps self s t \<Longrightarrow> origins_ok s \<Longrightarrow> origins_ok t"
proof (induction rule: sys_step.induct)
  case (begin_refused s xs a ys orc cn st)
  then show ?case using conclusion_origin [OF begin_conclusion [OF begin_refused(2)]] by (auto simp: origins_ok_def)
next
  case (begin_dispatched s xs a ys orc ss st)
  then show ?case using begin_session [OF begin_dispatched(2)] by (auto simp: origins_ok_def session_origin_def)
next
  case (conclude s xs p ans ys orc cn st)
  have "session_conclusion (pd_session p) cn"
    using conclude_conclusion [of "pd_session p" pk orc "pd_reloadable p" ans "sy_server s"] conclude(2) by simp
  then have "entry_origin (cn_entry cn) = session_origin (pd_session p)"
    by (simp add: conclusion_origin session_origin_def)
  then show ?case using conclude by (auto simp: origins_ok_def)
next
  case (record_entry s xs rid cn ys orc resp st)
  then show ?case by (auto simp: origins_ok_def settled_origin)
qed (auto simp: origins_ok_def)

lemma reachable_origins: "reachable pk ps self st0 s \<Longrightarrow> origins_ok s"
proof (erule daemon.invariant)
  show "origins_ok (start_system st0)" by (simp add: origins_ok_def start_system_def)
qed (rule step_origins)

section \<open>What was judged\<close>

text \<open>An answer the daemon read from the socket of the adapter it asked: the peer's uid is the configured
  one, and the line that came back is this result, in the protocol's version and for this request.\<close>

definition delivered :: "Packages \<Rightarrow> Session \<Rightarrow> AdapterIo \<Rightarrow> VerificationResult \<Rightarrow> bool" where
  "delivered pk ss io result \<longleftrightarrow> io_peer_uid io = Inr (cl_expected_uid (ra_client (ss_resolved ss))) \<and>
     (\<exists>line. io_next io = Done (Some (Inr line)) \<and> pk_result_json pk line = Inr result) \<and>
     rs_version result = PROTOCOL_VERSION \<and> rs_id result = vr_id (ss_request ss)"

lemma dispatch_delivered:
  assumes "fst (session_dispatch pk orc st ss) = Inr result"
  shows "delivered pk ss (or_io orc) result"
  using verify_client_Inr [OF dispatch_Inr [OF assms [unfolded session_dispatch_def], THEN conjunct2, THEN conjunct2]]
  by (simp add: delivered_def)

definition history_ok :: "Packages \<Rightarrow> System \<Rightarrow> bool" where
  "history_ok pk s \<longleftrightarrow>
     (\<forall>p \<in> set (sy_waiting s). ss_nonce (pd_session p) \<in> set (sy_issued s)) \<and>
     (\<forall>(p, io, ans) \<in> set (sy_calls s). ss_nonce (pd_session p) \<in> set (sy_issued s) \<and>
        (\<forall>result. ans = Inr result \<longrightarrow> delivered pk (pd_session p) io result)) \<and>
     (\<forall>(p, ans) \<in> set (sy_answered s). \<exists>io. (p, io, ans) \<in> set (sy_calls s)) \<and>
     (\<forall>(p, ans, orc) \<in> set (sy_judged s). \<exists>io. (p, io, ans) \<in> set (sy_calls s))"

lemma step_history: "sys_step pk ps self s t \<Longrightarrow> history_ok pk s \<Longrightarrow> history_ok pk t"
proof (induction rule: sys_step.induct)
  case (dispatch s xs p ys orc ans)
  then have "\<forall>result. ans = Inr result \<longrightarrow> delivered pk (pd_session p) (or_io orc) result"
    using dispatch_delivered by blast
  then show ?case using dispatch(1,3) by (fastforce simp: history_ok_def)
next
  case (conclude s xs p ans ys orc cn st)
  then show ?case by (fastforce simp: history_ok_def)
qed (auto simp: history_ok_def)

lemma reachable_history: "reachable pk ps self st0 s \<Longrightarrow> history_ok pk s"
proof (erule daemon.invariant)
  show "history_ok pk (start_system st0)" by (simp add: history_ok_def start_system_def)
qed (rule step_history)

section \<open>Rate limits\<close>

definition admissions_in :: "instant \<Rightarrow> u32 \<Rightarrow> (instant \<times> u32) list \<Rightarrow> nat" where
  "admissions_in a u xs = length (filter (\<lambda>x. snd x = u \<and> a \<le> fst x \<and> fst x \<le> a + RATE_WINDOW) xs)"

definition rate_ok :: "System \<Rightarrow> bool" where
  "rate_ok s \<longleftrightarrow> sv_limiter (sy_server s) = rate_run RATE_LIMIT_PER_UID (sy_rate s) new_limiter \<and>
     (\<forall>a u. admissions_in a u (sy_admissions s) \<le> hits a RATE_LIMIT_PER_UID u (sy_rate s) new_limiter)"

lemma screen_check:
  assumes "screen_line pk now self caller line st = (sc, st')" and "sc \<noteq> SilentClose"
  shows "sv_limiter st' = snd (check now caller RATE_LIMIT_PER_UID (sv_limiter st)) \<and>
    (\<forall>uid m rid. sc = Verify uid m rid \<longrightarrow> fst (check now caller RATE_LIMIT_PER_UID (sv_limiter st)))"
  using assms(1)
proof (cases rule: screen_line_cases)
  case silent
  then show ?thesis using assms(2) by simp
qed (auto simp: count_failure_def RATE_LIMIT_PER_UID_def)

lemma screen_silent_limiter: "screen_line pk now self caller line st = (SilentClose, st') \<Longrightarrow> sv_limiter st' = sv_limiter st"
  by (erule screen_line_cases) (simp_all add: count_failure_def)

lemma settle_limiter: "settle pk orc rid cn st = (resp, st') \<Longrightarrow> sv_limiter st' = sv_limiter st"
  by (auto simp: settle_def write_audit_or_error_def count_failure_def Let_def split: prod.splits sum.splits)

lemma begin_limiter: "begin_verify orc st caller uid m rid = (r, st') \<Longrightarrow> sv_limiter st' = sv_limiter st"
  by (auto simp: begin_verify_def Let_def split: sum.splits prod.splits)

lemma conclude_limiter: "conclude_verify pk orc rel ss ans st = (cn, st') \<Longrightarrow> sv_limiter st' = sv_limiter st"
  by (drule conclude_frame_trust) simp

lemma reopen_limiter: "reopen_log cur opens st = st' \<Longrightarrow> sv_limiter st' = sv_limiter st"
  by (auto simp: reopen_log_def count_failure_def split: prod.splits sum.splits)

lemma swap_limiter: "swap_reloadable ps cur dk st = st' \<Longrightarrow> sv_limiter st' = sv_limiter st"
  by (drule swap_frame) (metis ServerState.select_convs(6) ServerState.surjective ServerState.update_convs(2))

lemma step_rate: "sys_step pk ps self s t \<Longrightarrow> rate_ok s \<Longrightarrow> rate_ok t"
proof (induction rule: sys_step.induct)
  case (screen_silent now caller line s st)
  then show ?case by (simp add: rate_ok_def screen_silent_limiter [OF screen_silent(1)])
next
  case (screen_answer now caller line s after resp st)
  then show ?case using screen_check [OF screen_answer(1)] by (simp add: rate_ok_def hits_snoc trans_le_add1)
next
  case (admit now caller line s uid m rid st)
  then show ?case
    using screen_check [OF admit(1)] by (auto simp: rate_ok_def hits_snoc admissions_in_def trans_le_add1)
next
  case (begin_refused s xs a ys orc cn st)
  then show ?case by (simp add: rate_ok_def begin_limiter [OF begin_refused(2)])
next
  case (begin_dispatched s xs a ys orc ss st)
  then show ?case by (simp add: rate_ok_def begin_limiter [OF begin_dispatched(2)])
next
  case (conclude s xs p ans ys orc cn st)
  then show ?case by (simp add: rate_ok_def conclude_limiter [OF conclude(2)])
next
  case (record_entry s xs rid cn ys orc resp st)
  then show ?case by (simp add: rate_ok_def settle_limiter [OF record_entry(2)])
next
  case (sweep_limiter s now)
  then show ?case by (simp add: rate_ok_def hits_snoc)
next
  case (swap cur dk s st)
  then show ?case by (simp add: rate_ok_def swap_limiter [OF swap(1)])
next
  case (reopen_file cur opens s st)
  then show ?case by (simp add: rate_ok_def reopen_limiter [OF reopen_file(1)])
qed (simp_all add: rate_ok_def)

lemma reachable_rate:
  assumes "reachable pk ps self st0 s" and "sv_limiter st0 = new_limiter"
  shows "rate_ok s"
  using assms(1)
proof (rule daemon.invariant)
  show "rate_ok (start_system st0)" using assms(2) by (simp add: rate_ok_def start_system_def admissions_in_def)
qed (rule step_rate)

end
