(* ===== verification/System_Properties.thy ===== *)
theory System_Properties
  imports Server_System
begin

text \<open>
  What holds however the tasks of the daemon interleave: decisions and audit entries correspond,
  the hash chain stays one chain, a nonce is honoured at most as often as it was issued, and in
  production every allow rests on an HMAC under a key read at startup. The sequential handler is one
  of the runs.
\<close>

section \<open>A connection is a run\<close>

abbreviation in_flight where
  "in_flight s \<equiv> (sy_admitted s, sy_waiting s, sy_answered s, sy_settling s, sy_replying s)"

text \<open>From \<open>s\<close> the system has gone on to \<open>t\<close>: the server is \<open>st\<close>, the responses \<open>out\<close> went out and
  \<open>lost\<close> did not, the log grew, and the requests in flight are what they were.\<close>

definition served :: "System \<Rightarrow> ServerState \<Rightarrow> Response list \<Rightarrow> Response list \<Rightarrow> System \<Rightarrow> bool" where
  "served s st out lost t \<longleftrightarrow> sy_server t = st \<and> sy_sent t = sy_sent s @ out \<and> sy_lost t = sy_lost s @ lost \<and>
     in_flight t = in_flight s \<and> (\<exists>es. sy_entries t = sy_entries s @ es)"

lemma served_refl [simp]: "served s (sy_server s) [] [] s"
  by (simp add: served_def)

lemma served_trans: "served s st out lost t \<Longrightarrow> served t st' out' lost' u \<Longrightarrow> served s st' (out @ out') (lost @ lost') u"
  by (auto simp: served_def)

text \<open>What was served is what was logged.\<close>

lemma served_entries:
  assumes "accounted s" and "accounted t" and "served s st out lost t"
  shows "\<exists>es. sy_entries t = sy_entries s @ es \<and> verdicts (out @ lost) = mset (map entry_verdict es)"
proof -
  obtain es where es: "sy_entries t = sy_entries s @ es" using assms(3) by (auto simp: served_def)
  have "verdicts (sy_sent s @ sy_replying s @ sy_lost s) + verdicts (out @ lost) =
      mset (map entry_verdict (sy_entries s)) + mset (map entry_verdict es)"
    using assms(2,3) es by (simp add: served_def ac_simps)
  then have "verdicts (out @ lost) = mset (map entry_verdict es)" using assms(1) by simp
  then show ?thesis using es by blast
qed

lemma verify_run:
  assumes r: "reachable pk ps self st0 s" and a: "sy_admitted s = xs @ [a]"
    and h: "handle_verify_once pk orc (sy_server s) (ad_reloadable a) (ad_caller_uid a) (ad_uid a)
      (ad_method a) (ad_req_id a) = (resp, st)"
  shows "\<exists>t. reachable pk ps self st0 t \<and> sy_asked t = sy_asked s \<and>
    served (s\<lparr>sy_admitted := xs, sy_replying := sy_replying s @ [resp]\<rparr>) st [] [] t"
  using h
proof (cases rule: handle_verify_cases)
  case (refused cn)
  define s_a where "s_a = s\<lparr>sy_server := sy_server s, sy_admitted := xs @ [],
      sy_settling := sy_settling s @ [(ad_req_id a, cn)]\<rparr>"
  have ra: "reachable pk ps self st0 s_a"
    unfolding s_a_def by (rule run [OF r begin_refused [OF a refused(1)]])
  have "sys_step pk ps self s_a (s_a\<lparr>sy_server := st, sy_settling := sy_settling s @ [],
      sy_replying := sy_replying s_a @ [resp],
      sy_entries := sy_entries s_a @ settled_entries pk orc cn (sy_server s_a)\<rparr>)"
    using refused(2) by (intro record_entry [where rid = "ad_req_id a" and orc = orc]) (simp_all add: s_a_def)
  from run [OF ra this] show ?thesis
    by (intro exI, intro conjI) (assumption, simp_all add: s_a_def served_def)
next
  case (answered ss st_a cn st_b)
  let ?p = "\<lparr>pd_session = ss, pd_reloadable = ad_reloadable a\<rparr>"
  let ?ans = "fst (session_dispatch pk orc st_a ss)"
  define s_a where "s_a = s\<lparr>sy_server := st_a, sy_admitted := xs @ [],
      sy_waiting := sy_waiting s @ [?p], sy_issued := sy_issued s @ [ss_nonce ss]\<rparr>"
  have ra: "reachable pk ps self st0 s_a"
    unfolding s_a_def by (rule run [OF r begin_dispatched [OF a answered(1)]])
  have rid: "ss_req_id ss = ad_req_id a" using begin_session [OF answered(1)] by simp
  define s_b where "s_b = s_a\<lparr>sy_waiting := sy_waiting s @ [], sy_answered := sy_answered s_a @ [(?p, ?ans)],
      sy_calls := sy_calls s_a @ [(?p, or_io orc, ?ans)]\<rparr>"
  have "sys_step pk ps self s_a s_b"
    unfolding s_b_def by (rule dispatch [where orc = orc]) (simp_all add: s_a_def)
  from run [OF ra this] have rb: "reachable pk ps self st0 s_b" .
  define s_c where "s_c = s_b\<lparr>sy_server := st_b, sy_answered := sy_answered s @ [],
      sy_settling := sy_settling s_b @ [(ss_req_id (pd_session ?p), cn)],
      sy_honoured := sy_honoured s_b @ honoured (pd_session ?p) cn, sy_judged := sy_judged s_b @ [(?p, ?ans, orc)]\<rparr>"
  have "sys_step pk ps self s_b s_c"
    unfolding s_c_def
    by (rule conclude [where orc = orc and ans = ?ans]) (use answered(2) in \<open>simp_all add: s_b_def s_a_def\<close>)
  from run [OF rb this] have rc: "reachable pk ps self st0 s_c" .
  have "sys_step pk ps self s_c (s_c\<lparr>sy_server := st, sy_settling := sy_settling s @ [],
      sy_replying := sy_replying s_c @ [resp],
      sy_entries := sy_entries s_c @ settled_entries pk orc cn (sy_server s_c)\<rparr>)"
    using answered(3)
    by (intro record_entry [where rid = "ad_req_id a" and orc = orc]) (simp_all add: s_c_def s_b_def s_a_def rid)
  from run [OF rc this] show ?thesis
    by (intro exI, intro conjI) (assumption, simp_all add: s_c_def s_b_def s_a_def served_def)
qed

lemma reply_run:
  assumes "reachable pk ps self st0 s" and "sy_replying s = xs @ [resp]"
    and "reply orc after resp (sy_server s) = (ctl, out, st)"
  shows "\<exists>t lost. reachable pk ps self st0 t \<and> sy_asked t = sy_asked s \<and>
    served (s\<lparr>sy_replying := xs\<rparr>) st out lost t"
proof (cases "or_send_ok orc")
  case True
  from run [OF assms(1) send [OF assms(2)]] show ?thesis
    using True assms(3) by (intro exI conjI) (assumption, simp_all add: served_def reply_def)
next
  case False
  from run [OF assms(1) lose [OF assms(2)]] show ?thesis
    using False assms(3) by (intro exI conjI) (assumption, simp_all add: served_def reply_def)
qed

lemma line_run:
  assumes r: "reachable pk ps self st0 s"
    and h: "handle_line pk orc self caller line (sy_server s) = (ctl, out, st)"
  shows "\<exists>t lost. reachable pk ps self st0 t \<and> served s st out lost t \<and> sy_asked t = sy_asked s @
    (case fst (screen_line pk (or_check_now orc) self caller line (sy_server s)) of
       Verify uid m rid \<Rightarrow> [(rid, caller, uid)] | _ \<Rightarrow> [])"
proof (cases "screen_line pk (or_check_now orc) self caller line (sy_server s)")
  case (Pair sc st_a)
  show ?thesis
  proof (cases sc)
    case SilentClose
    from run [OF r screen_silent [OF Pair [unfolded this]]] show ?thesis
      using h Pair SilentClose
      by (intro exI [of _ "[]"] exI conjI) (assumption, simp_all add: served_def handle_line_def)
  next
    case (Answer after resp)
    from run [OF r screen_answer [OF Pair [unfolded this]]] have ra: "reachable pk ps self st0
      (s\<lparr>sy_server := st_a, sy_replying := sy_replying s @ [resp],
         sy_rate := sy_rate s @ [Check (or_check_now orc) caller]\<rparr>)" .
    from reply_run [OF this, of "sy_replying s" resp orc after ctl out st] h Pair Answer
    show ?thesis by (auto simp: served_def handle_line_def)
  next
    case (Verify uid m rid)
    let ?a = "\<lparr>ad_caller_uid = caller, ad_uid = uid, ad_method = m, ad_req_id = rid,
         ad_reloadable = sv_reloadable (sy_server s)\<rparr>"
    let ?asked = "sy_asked s @ [(rid, caller, uid)]"
    let ?rate = "sy_rate s @ [Check (or_check_now orc) caller]"
    from run [OF r admit [OF Pair [unfolded Verify]]] have ra: "reachable pk ps self st0
      (s\<lparr>sy_server := st_a, sy_admitted := sy_admitted s @ [?a], sy_asked := ?asked,
         sy_admissions := sy_admissions s @ [(or_check_now orc, caller)], sy_rate := ?rate\<rparr>)" .
    obtain resp st_b where v: "handle_verify_once pk orc st_a (sv_reloadable (sy_server s)) caller uid m rid = (resp, st_b)"
      by fastforce
    obtain t where t: "reachable pk ps self st0 t"
        "served (s\<lparr>sy_server := st_a, sy_replying := sy_replying s @ [resp]\<rparr>) st_b [] [] t" "sy_asked t = ?asked"
      using verify_run [OF ra, of "sy_admitted s" ?a orc resp st_b] v by (auto simp: served_def)
    have "reply orc Continue resp (sy_server t) = (ctl, out, st)"
      using h Pair Verify v t(2) by (simp add: handle_line_def served_def)
    from reply_run [OF t(1) _ this, of "sy_replying s"] t(2) obtain u lost
      where "reachable pk ps self st0 u" "served (t\<lparr>sy_replying := sy_replying s\<rparr>) st out lost u" "sy_asked u = sy_asked t"
      by (auto simp: served_def)
    then show ?thesis using t(2,3) Pair Verify by (auto simp: served_def)
  qed
qed

lemma count_run:
  assumes "reachable pk ps self st0 s"
  shows "\<exists>t. reachable pk ps self st0 t \<and> served s ((sy_server s)\<lparr>sv_metrics := m\<rparr>) [] [] t"
  using run [OF assms count]
  by (intro exI conjI) (assumption, simp add: served_def)

lemma client_run:
  "reachable pk ps self st0 s \<Longrightarrow> client_loop pk self caller evs (sy_server s) = (ctl, out, st) \<Longrightarrow>
     \<exists>t lost. reachable pk ps self st0 t \<and> served s st out lost t"
proof (induction evs arbitrary: s ctl out st)
  case Nil
  then show ?case by (metis client_loop.simps(1) prod.inject served_refl)
next
  case (Cons x evs)
  obtain ev orc where x: "x = (ev, orc)" by (cases x)
  show ?case
  proof (cases ev)
    case (Line line)
    obtain t where t: "reachable pk ps self st0 t"
      "served s ((sy_server s)\<lparr>sv_metrics := inc_requests (sv_metrics (sy_server s))\<rparr>) [] [] t"
      using count_run [OF Cons.prems(1)] by auto
    obtain c o_a st_a where l: "handle_line pk orc self caller line (sy_server t) = (c, o_a, st_a)"
      by (metis prod_cases3)
    obtain u lost where u: "reachable pk ps self st0 u" "served t st_a o_a lost u"
      using line_run [OF t(1) l] by blast
    then have su: "served s st_a o_a lost u" using served_trans [OF t(2)] by fastforce
    show ?thesis
    proof (cases "c = Continue")
      case True
      obtain c' o_b st_b where e: "client_loop pk self caller evs (sy_server u) = (c', o_b, st_b)"
        by (metis prod_cases3)
      from Cons.IH [OF u(1) e] obtain v lost' where "reachable pk ps self st0 v" "served u st_b o_b lost' v" by blast
      moreover have "out = o_a @ o_b" "st = st_b"
        using Cons.prems(2) x Line l e True t(2) u(2) by (auto simp: served_def)
      ultimately show ?thesis using served_trans [OF su] by blast
    next
      case False
      then have "out = o_a" "st = st_a" using Cons.prems(2) x Line l t(2) by (auto simp: served_def)
      then show ?thesis using u(1) su by blast
    qed
  next
    case CodecError
    then show ?thesis using Cons.prems x count_run [OF Cons.prems(1), of "inc_requests (sv_metrics (sy_server s))"] by auto
  next
    case Eof
    then show ?thesis using Cons.prems x served_refl [of s] by auto
  next
    case IdleTimeout
    then show ?thesis using Cons.prems x count_run [OF Cons.prems(1), of "inc_idle_closes (sv_metrics (sy_server s))"] by auto
  qed
qed

lemma connection_run:
  assumes "reachable pk ps self st0 s" and "handle_client pk self creds evs (sy_server s) = (ctl, out, st)"
  shows "\<exists>t lost. reachable pk ps self st0 t \<and> served s st out lost t"
proof (cases creds)
  case None
  then show ?thesis using assms served_refl [of s] by (auto simp: handle_client_def)
next
  case (Some caller)
  show ?thesis
  proof (cases "is_allowed self caller (rl_allowlist (sv_reloadable (sy_server s)))")
    case True
    then show ?thesis using assms(2) Some client_run [OF assms(1)] by (simp add: handle_client_def)
  next
    case False
    then show ?thesis
      using assms(2) Some count_run [OF assms(1), of "inc_failures (sv_metrics (sy_server s))"]
      by (auto simp: handle_client_def count_failure_def)
  qed
qed

text \<open>A decision that was sent stands in the log.\<close>

lemma sent_has_entry:
  assumes "reachable pk ps self st0 s" and "r \<in> set (sy_sent s)" and "decision_of r = Some d"
  obtains e where "e \<in> set (sy_entries s)" "ae_request_id e = rsp_id r" "ae_decision e = d"
proof -
  have "(rsp_id r, d) \<in># verdicts (sy_sent s @ sy_replying s @ sy_lost s)"
    using assms(2,3) by (intro verdict_in) simp_all
  moreover have "accounted s" using reachable_decisions [OF assms(1)] by (simp add: decisions_ok_def Let_def)
  ultimately have "(rsp_id r, d) \<in># mset (map entry_verdict (sy_entries s))" by (simp only:)
  then have "(rsp_id r, d) \<in> entry_verdict ` set (sy_entries s)" by simp
  then obtain e where "(rsp_id r, d) = entry_verdict e" "e \<in> set (sy_entries s)" by (rule imageE)
  then show thesis using that by (simp add: entry_verdict_def)
qed

text \<open>
  What an allow in the log rests on in production, all of it in the history of the run: the nonce of
  the session \<open>pd_session p\<close> was issued; the call of its adapter delivered \<open>result\<close> over the socket \<open>io\<close>;
  that answer was judged, at the clocks of \<open>orc\<close>, under a reloadable state that was in force. The entry
  records session and answer, and the answer carries the session's nonce and the HMAC under the
  key \<open>key\<close> that was loaded at startup for the adapter.
\<close>

definition allow_grounded ::
  "Packages \<Rightarrow> u32 \<Rightarrow> ServerState \<Rightarrow> System \<Rightarrow> AuditEntry \<Rightarrow> Pending \<Rightarrow> AdapterIo \<Rightarrow> VerificationResult \<Rightarrow> Oracle \<Rightarrow>
   bytes \<Rightarrow> bool" where
  "allow_grounded pk self st0 s e p io result orc key \<longleftrightarrow>
     (let ss = pd_session p; rel = pd_reloadable p; client = ra_client (ss_resolved ss) in
        ss_nonce ss \<in> set (sy_issued s) \<and> (p, io, Inr result) \<in> set (sy_calls s) \<and>
        (p, Inr result, orc) \<in> set (sy_judged s) \<and> rel \<in> set (sy_loaded s) \<and>
        records_answer e ss result \<and> (ae_caller_uid e \<noteq> 0 \<longrightarrow> ae_uid e = ae_caller_uid e) \<and>
        is_allowed self (ae_caller_uid e) (rl_allowlist rel) \<and>
        hm_get (reg_clients (sv_registry st0)) (as_str (rs_method result)) = Some client \<and>
        delivered pk ss io result \<and> rs_nonce result = ss_nonce ss \<and>
        or_finish_ms orc \<le> vr_deadline_ms (ss_request ss) \<and>
        hm_get (adapter_keys (sv_attester st0)) (cl_name client) = Some key \<and>
        rs_evidence_hash result = pk_hmac pk key (attested_message (pk_sha256 pk) result) \<and>
        evaluate (or_policy_ms orc) (rl_policy rel) (session_context ss result) = Allow)"

lemma prod_entry_attested:
  assumes "initial_state ps sha256 cur is_root now dk users env config = Inr st0" and "is_prod_mode config"
    and "reachable pk ps self st0 s" and "e \<in> set (sy_entries s)" and "ae_decision e = ''allow''"
  shows "\<exists>p io result orc key. allow_grounded pk self st0 s e p io result orc key"
proof -
  note i = initial_state_Inr [OF assms(1)]
  have att: "cf_require_attestation (sv_config st0)"
    using i assms(2) by (auto simp: validate_attestation_mode_def split: if_splits)
  have "entry_ok pk self st0 (history s) e"
    using reachable_decisions [OF assms(3)] assms(4) by (simp add: decisions_ok_def Let_def)
  then have "justified pk self st0 (history s) e" using assms(5) by (simp add: entry_ok_def)
  then obtain p result orc where j: "(p, Inr result, orc) \<in> set (sy_judged s)"
    and ok: "pd_reloadable p \<in> set (sy_loaded s)" "records_answer e (pd_session p) result"
      "ae_caller_uid e \<noteq> 0 \<longrightarrow> ae_uid e = ae_caller_uid e"
      "is_allowed self (ae_caller_uid e) (rl_allowlist (pd_reloadable p))"
      "hm_get (reg_clients (sv_registry st0)) (as_str (rs_method result)) = Some (ra_client (ss_resolved (pd_session p)))"
      "rs_nonce result = ss_nonce (pd_session p)" "or_finish_ms orc \<le> vr_deadline_ms (ss_request (pd_session p))"
      "verify_attestation (pk_sha256 pk) (pk_hmac pk) (sv_attester st0)
         (cl_name (ra_client (ss_resolved (pd_session p)))) result = Inr ()"
      "evaluate (or_policy_ms orc) (rl_policy (pd_reloadable p)) (session_context (pd_session p) result) = Allow"
    using att unfolding justified_def Let_def fst_conv snd_conv by metis
  obtain io where io: "(p, io, Inr result) \<in> set (sy_calls s)"
    using reachable_history [OF assms(3)] j unfolding history_ok_def by blast
  then have d: "ss_nonce (pd_session p) \<in> set (sy_issued s)" "delivered pk (pd_session p) io result"
    using reachable_history [OF assms(3)] unfolding history_ok_def by blast+
  obtain key where "hm_get (adapter_keys (sv_attester st0)) (cl_name (ra_client (ss_resolved (pd_session p)))) = Some key"
    "rs_evidence_hash result = pk_hmac pk key (attested_message (pk_sha256 pk) result)"
    using ok(8) unfolding verify_attestation_iff by blast
  then have "allow_grounded pk self st0 s e p io result orc key"
    using j ok io d by (simp add: allow_grounded_def Let_def)
  then show ?thesis by blast
qed

section \<open>Properties\<close>

text \<open>C21: The code of a connection refines the concurrent system: from any reachable state, with
  whatever other requests in flight, the responses and the server state that \<open>handle_client\<close>
  computes for a sequence of events are those of a run of the system, which leaves the other
  requests as they were. Every decision of the connection, delivered or lost, has an entry of its
  own among those the logger wrote and synced in that run, and these entries lead along the hash
  chain from the logger's hash before to its hash after.\<close>

theorem connection_refines_system:
  assumes "reachable pk ps self st0 s" and "handle_client pk self creds evs (sy_server s) = (ctl, out, st)"
  shows "\<exists>t lost es. reachable pk ps self st0 t \<and> sy_server t = st \<and> sy_sent t = sy_sent s @ out \<and>
    sy_lost t = sy_lost s @ lost \<and> sy_entries t = sy_entries s @ es \<and>
    verdicts (out @ lost) = mset (map entry_verdict es) \<and>
    audit_chain (pk_sha256 pk) (al_prev_hash (sv_audit (sy_server s))) es = Some (al_prev_hash (sv_audit st)) \<and>
    sy_admitted t = sy_admitted s \<and> sy_waiting t = sy_waiting s \<and> sy_answered t = sy_answered s \<and>
    sy_settling t = sy_settling s \<and> sy_replying t = sy_replying s"
proof -
  obtain t lost where t: "reachable pk ps self st0 t" "served s st out lost t"
    using connection_run [OF assms] by blast
  note s_ok = reachable_decisions [OF assms(1), unfolded decisions_ok_def Let_def]
  note t_ok = reachable_decisions [OF t(1), unfolded decisions_ok_def Let_def]
  have "accounted s" "accounted t" using s_ok t_ok by simp_all
  from served_entries [OF this t(2)] obtain es
    where es: "sy_entries t = sy_entries s @ es" "verdicts (out @ lost) = mset (map entry_verdict es)" by blast
  moreover have "audit_chain (pk_sha256 pk) (al_prev_hash (sv_audit (sy_server s))) es = Some (al_prev_hash (sv_audit st))"
    using s_ok t_ok es(1) t(2) by (simp add: audit.chain_append served_def)
  ultimately show ?thesis using t unfolding served_def by blast
qed

text \<open>C9: However requests, sweeps, probes and reloads interleave, decisions and audit entries
  correspond one for one, with the same verdict and request id: a decision that was sent, is about
  to be or was lost on the way has an entry of its own, and a durable entry has such a decision. The
  entries form one hash chain from the hash the log had at startup to the hash the logger holds
  now.\<close>

theorem decisions_match_log:
  assumes "reachable pk ps self st0 s"
  shows "verdicts (sy_sent s @ sy_replying s @ sy_lost s) = mset (map entry_verdict (sy_entries s)) \<and>
    audit_chain (pk_sha256 pk) (al_prev_hash (sv_audit st0)) (sy_entries s) =
      Some (al_prev_hash (sv_audit (sy_server s)))"
  using reachable_decisions [OF assms] by (simp add: decisions_ok_def Let_def)

text \<open>C31: From startup on, over however many connections and whatever else runs, at most two budgets of
  requests of one caller reach verification in any second, 200, if the limiter reads its
  clock in the order in which it is called.\<close>

theorem requests_per_second:
  assumes "initial_state ps sha256 cur is_root now dk users env config = Inr st0"
    and "reachable pk ps self st0 s" and "sorted (map op_time (sy_rate s))"
  shows "length (filter (\<lambda>x. snd x = caller \<and> a \<le> fst x \<and> fst x \<le> a + from_secs 1) (sy_admissions s)) \<le> 200"
proof -
  have "sv_limiter st0 = new_limiter" using initial_state_Inr [OF assms(1)] by simp
  from reachable_rate [OF assms(2) this]
  have "admissions_in a caller (sy_admissions s) \<le> hits a RATE_LIMIT_PER_UID caller (sy_rate s) new_limiter"
    by (simp add: rate_ok_def)
  also have "\<dots> \<le> 2 * unat RATE_LIMIT_PER_UID"
    unfolding new_limiter_def by (rule hits_bound [OF limiter_inv_new assms(3)]) (simp add: RATE_LIMIT_PER_UID_def)
  finally show ?thesis by (simp add: admissions_in_def RATE_WINDOW_def RATE_LIMIT_PER_UID_def)
qed

text \<open>C12: A nonce is honoured at most as often as it was issued, whatever the interleaving; if the
  random source never repeats, no two allows rest on the same nonce. The store's limits hold
  throughout: at most 1024 nonces are pending, at most 32 for one uid.\<close>

theorem nonce_honoured_at_most_once:
  assumes "reachable pk ps self st0 s" and "sv_nonces st0 = new_nonce_state"
  shows "(\<forall>n. count_list (sy_honoured s) n \<le> count_list (sy_issued s) n) \<and>
    (distinct (sy_issued s) \<longrightarrow> distinct (sy_honoured s)) \<and>
    length (pending (sv_nonces (sy_server s))) \<le> 1024 \<and>
    (\<forall>uid. uid_pending uid (sv_nonces (sy_server s)) \<le> 32)"
proof -
  have b: "nonces_balanced s" by (rule reachable_nonces [OF assms])
  then have le: "\<forall>n. count_list (sy_honoured s) n \<le> count_list (sy_issued s) n"
    unfolding nonces_balanced_def by (meson add_leD1)
  then have "distinct (sy_honoured s)" if "distinct (sy_issued s)"
    using that unfolding distinct_count_list by (meson order_trans)
  then show ?thesis
    using le b by (auto simp: nonces_balanced_def nonce_inv_def hm_len_def MAX_PENDING_NONCES_def
        MAX_PENDING_NONCES_PER_UID_def)
qed

text \<open>C7: In production, from startup on and through every interleaving and reload, an allow in the
  audit log rests on events of the run: a nonce that was issued; a result that the adapter call of
  that session read from a socket whose peer has the configured uid; a judgement of that very result
  before the deadline. The result carries the session's nonce, and its HMAC is the one under the key
  loaded at startup for the adapter that serves the method; the entry records the session and the
  result. The uid is the caller's own unless the caller is root, and one loaded state both admitted
  the caller and allowed the result by its policy, at the time the judgement read.\<close>

theorem prod_allow_is_attested:
  assumes "initial_state ps sha256 cur is_root now dk users env config = Inr st0" and "is_prod_mode config"
    and "reachable pk ps self st0 s" and "e \<in> set (sy_entries s)" and "ae_decision e = ''allow''"
  shows "\<exists>p io result orc key. allow_grounded pk self st0 s e p io result orc key"
  by (rule prod_entry_attested [OF assms])

section \<open>Witnesses\<close>

definition probed_system :: System where
  "probed_system = (start_system started_state)\<lparr>sy_server := sample_state\<rparr>"

text \<open>A run from startup in production mode: a probe, then a connection with one request.\<close>

lemma probed_reachable: "reachable pk sample_parsers self started_state probed_system"
proof -
  have "sys_step pk sample_parsers self (start_system started_state) probed_system"
    using probe [of pk sample_parsers self "start_system started_state" False True 1 "''demo''"]
    by (simp add: probed_system_def start_system_def started_state_def sample_state_def sample_registry_def)
  from run [OF start this] show ?thesis .
qed

lemma sample_connection:
  "\<exists>st. handle_client sample_packages 0 (Some 1000) [(Line ''x'', sample_oracle), (Eof, sample_oracle)]
     (sy_server probed_system) = (Close, [response_allow (Some ''r1'') ''fido2''], st)"
proof -
  let ?st = "sample_state\<lparr>sv_metrics := inc_requests (sv_metrics sample_state)\<rparr>"
  obtain st where h: "handle_line sample_packages sample_oracle 0 1000 ''x'' ?st =
      (Continue, [response_allow (Some ''r1'') ''fido2''], st)"
    using sample_line by blast
  have "sy_server probed_system = sample_state" by (simp add: probed_system_def)
  then show ?thesis using h sample_admission(1) by (simp add: handle_client_def)
qed

lemma allowed_reachable:
  "\<exists>t e. reachable sample_packages sample_parsers 0 started_state t \<and>
     sy_sent t = [response_allow (Some ''r1'') ''fido2''] \<and> e \<in> set (sy_entries t) \<and>
     ae_decision e = ''allow'' \<and> ae_request_id e = Some ''r1''"
proof -
  obtain st where h: "handle_client sample_packages 0 (Some 1000) [(Line ''x'', sample_oracle), (Eof, sample_oracle)]
     (sy_server probed_system) = (Close, [response_allow (Some ''r1'') ''fido2''], st)"
    using sample_connection by blast
  obtain t lost where t: "reachable sample_packages sample_parsers 0 started_state t"
    "served probed_system st [response_allow (Some ''r1'') ''fido2''] lost t"
    using connection_run [OF probed_reachable h] by blast
  have "sy_sent probed_system = []" by (simp add: probed_system_def start_system_def)
  then have s: "sy_sent t = [response_allow (Some ''r1'') ''fido2'']" using t(2) by (simp add: served_def)
  obtain e where "e \<in> set (sy_entries t)" "ae_request_id e = Some ''r1''" "ae_decision e = ''allow''"
    using sent_has_entry [OF t(1), of "response_allow (Some ''r1'') ''fido2''"] s by auto
  then show ?thesis using t(1) s by blast
qed

theorem connection_refines_system_witness:
  "\<exists>t e. reachable sample_packages sample_parsers 0 started_state t \<and>
     sy_sent t = sy_sent probed_system @ [response_allow (Some ''r1'') ''fido2''] \<and> e \<in> set (sy_entries t) \<and>
     ae_decision e = ''allow''"
proof -
  obtain st where h: "handle_client sample_packages 0 (Some 1000) [(Line ''x'', sample_oracle), (Eof, sample_oracle)]
     (sy_server probed_system) = (Close, [response_allow (Some ''r1'') ''fido2''], st)"
    using sample_connection by blast
  from connection_refines_system [OF probed_reachable h] obtain t lost es
    where t: "reachable sample_packages sample_parsers 0 started_state t"
      "sy_sent t = sy_sent probed_system @ [response_allow (Some ''r1'') ''fido2'']"
      "sy_entries t = sy_entries probed_system @ es"
      "verdicts ([response_allow (Some ''r1'') ''fido2''] @ lost) = mset (map entry_verdict es)" by blast
  have "(Some ''r1'', ''allow'') \<in># mset (map entry_verdict es)" unfolding t(4) [symmetric] by (simp add: verdict_def)
  then obtain e where "e \<in> set es" "ae_decision e = ''allow''" by (auto simp: entry_verdict_def)
  then show ?thesis using t(1-3) by (metis Un_iff set_append)
qed

theorem decisions_match_log_witness:
  "\<exists>s h. reachable sample_packages sample_parsers 0 started_state s \<and>
     (Some ''r1'', ''allow'') \<in># mset (map entry_verdict (sy_entries s)) \<and>
     audit_chain (pk_sha256 sample_packages) (al_prev_hash (sv_audit started_state)) (sy_entries s) = Some h"
proof -
  obtain t where t: "reachable sample_packages sample_parsers 0 started_state t"
     "sy_sent t = [response_allow (Some ''r1'') ''fido2'']"
    using allowed_reachable by blast
  from decisions_match_log [OF t(1)]
  have m: "verdicts (sy_sent t @ sy_replying t @ sy_lost t) = mset (map entry_verdict (sy_entries t))"
    and c: "audit_chain (pk_sha256 sample_packages) (al_prev_hash (sv_audit started_state)) (sy_entries t) =
      Some (al_prev_hash (sv_audit (sy_server t)))" by blast+
  have "(Some ''r1'', ''allow'') \<in># mset (map entry_verdict (sy_entries t))"
    unfolding m [symmetric] t(2) by (simp add: verdict_def)
  then show ?thesis using t(1) c by blast
qed

theorem nonce_honoured_at_most_once_witness:
  "\<exists>s e. reachable sample_packages sample_parsers 0 started_state s \<and> e \<in> set (sy_entries s) \<and>
     ae_decision e = ''allow'' \<and> (\<forall>n. count_list (sy_honoured s) n \<le> count_list (sy_issued s) n)"
proof -
  obtain s e where s: "reachable sample_packages sample_parsers 0 started_state s"
     "e \<in> set (sy_entries s)" "ae_decision e = ''allow''"
    using allowed_reachable by blast
  have "sv_nonces started_state = new_nonce_state" by (simp add: started_state_def sample_state_def)
  from nonce_honoured_at_most_once [OF s(1) this] s show ?thesis by blast
qed

lemma sample_screen:
  "screen_line sample_packages 0 0 1000 ''x'' (sample_state\<lparr>sv_metrics := c\<rparr>) =
     (Verify 1000 ''fido2'' (Some ''r1''),
      sample_state\<lparr>sv_metrics := c, sv_limiter := snd (check 0 1000 RATE_LIMIT_PER_UID new_limiter)\<rparr>)"
proof -
  have "pk_client_json sample_packages ''x'' = Inr sample_request" "sv_limiter sample_state = new_limiter"
    "rq_version sample_request = 1" "rq_method sample_request = ''verify_once''" "rq_id sample_request = Some ''r1''"
    by (simp_all add: sample_packages_def sample_state_def sample_request_def)
  then show ?thesis
    using sample_admission
    by (simp add: screen_line_def serve_request_def verify_once_request_def split_beta PROTOCOL_VERSION_def Let_def)
qed

theorem requests_per_second_witness:
  "\<exists>s. reachable sample_packages sample_parsers 0 started_state s \<and> sy_admissions s = [(0, 1000)] \<and>
     length (filter (\<lambda>x. snd x = 1000 \<and> 0 \<le> fst x \<and> fst x \<le> 0 + from_secs 1) (sy_admissions s)) \<le> 200"
proof -
  have p: "sy_server probed_system = sample_state" "sy_admissions probed_system = []" "sy_rate probed_system = []"
    by (simp_all add: probed_system_def start_system_def)
  obtain st where "screen_line sample_packages 0 0 1000 ''x'' (sy_server probed_system) =
      (Verify 1000 ''fido2'' (Some ''r1''), st)"
    using sample_screen [of "sv_metrics sample_state"] p(1) by auto
  from run [OF probed_reachable admit [OF this]] obtain s
    where s: "reachable sample_packages sample_parsers 0 started_state s" "sy_admissions s = [(0, 1000)]"
      "sy_rate s = [Check 0 1000]"
    using p by simp
  from requests_per_second [OF sample_started s(1)] s show ?thesis by auto
qed

theorem prod_allow_is_attested_witness:
  "\<exists>s e p io result orc key. reachable sample_packages sample_parsers 0 started_state s \<and> e \<in> set (sy_entries s) \<and>
     ae_decision e = ''allow'' \<and> allow_grounded sample_packages 0 started_state s e p io result orc key"
proof -
  obtain t e where t: "reachable sample_packages sample_parsers 0 started_state t"
     "e \<in> set (sy_entries t)" "ae_decision e = ''allow''"
    using allowed_reachable by (metis list.set_intros(1))
  have "is_prod_mode sample_server_config" by (simp add: is_prod_mode_def sample_server_config_def)
  from prod_allow_is_attested [OF sample_started this t] t show ?thesis by blast
qed

end
