(* ===== verification/Monitor.thy ===== *)
theory Monitor
  imports System_Properties
begin

text \<open>
  The contract of the daemon as an abstract system, and the proof that the daemon implements it. A
  monitor hands out challenges, decides, writes its decisions down and tells them. It grants only
  against a challenge that is open, which the grant closes; it tells only what is written. Nothing
  of sockets, adapters, policies or disks is left. \<open>monitor_of\<close> reads the monitor's state off the
  state of the interleaved system of \<open>Server_System\<close>; every step of that system is a step of the
  monitor or changes nothing the monitor sees.
\<close>

section \<open>The monitor\<close>

type_synonym judgement = "string option \<times> string"

record Monitor =
  mo_open :: "bytes set"
  mo_challenges :: nat
  mo_grants :: nat
  mo_decided :: "judgement multiset"
  mo_log :: "judgement list"
  mo_owed :: "judgement multiset"
  mo_told :: "judgement multiset"

definition start_monitor :: Monitor where
  "start_monitor = \<lparr>mo_open = {}, mo_challenges = 0, mo_grants = 0, mo_decided = {#}, mo_log = [],
     mo_owed = {#}, mo_told = {#}\<rparr>"

inductive mon_step :: "Monitor \<Rightarrow> Monitor \<Rightarrow> bool" where
  challenge: "n \<notin> mo_open m \<Longrightarrow>
    mon_step m (m\<lparr>mo_open := insert n (mo_open m), mo_challenges := Suc (mo_challenges m)\<rparr>)"
| grant: "n \<in> mo_open m \<Longrightarrow>
    mon_step m (m\<lparr>mo_open := mo_open m - {n}, mo_grants := Suc (mo_grants m),
      mo_decided := add_mset (rid, ''allow'') (mo_decided m)\<rparr>)"
| refuse: "ns \<subseteq> mo_open m \<Longrightarrow>
    mon_step m (m\<lparr>mo_open := ns, mo_decided := add_mset (rid, ''deny'') (mo_decided m)\<rparr>)"
| expire: "ns \<subseteq> mo_open m \<Longrightarrow> mon_step m (m\<lparr>mo_open := ns\<rparr>)"
| write_down: "x \<in># mo_decided m \<Longrightarrow>
    mon_step m (m\<lparr>mo_decided := mo_decided m - {#x#}, mo_log := mo_log m @ [x], mo_owed := add_mset x (mo_owed m)\<rparr>)"
| drop: "x \<in># mo_decided m \<Longrightarrow> mon_step m (m\<lparr>mo_decided := mo_decided m - {#x#}\<rparr>)"
| tell: "x \<in># mo_owed m \<Longrightarrow>
    mon_step m (m\<lparr>mo_owed := mo_owed m - {#x#}, mo_told := add_mset x (mo_told m)\<rparr>)"
| fail: "x \<in># mo_owed m \<Longrightarrow> mon_step m (m\<lparr>mo_owed := mo_owed m - {#x#}\<rparr>)"

inductive mon_reachable :: "Monitor \<Rightarrow> bool" where
  mon_start: "mon_reachable start_monitor"
| mon_run: "mon_reachable m \<Longrightarrow> mon_step m m' \<Longrightarrow> mon_reachable m'"

interpretation monitor: runs start_monitor mon_step mon_reachable
proof
  show "mon_reachable m \<longleftrightarrow> mon_step\<^sup>*\<^sup>* start_monitor m" for m
    by (rule reach_rtranclp [where reach = mon_reachable])
      (auto intro: mon_start mon_run elim: mon_reachable.induct)
qed

text \<open>What the monitor guarantees.\<close>

abbreviation grants_in :: "judgement multiset \<Rightarrow> nat" where
  "grants_in js \<equiv> size (filter_mset (\<lambda>j. snd j = ''allow'') js)"

definition monitor_inv :: "Monitor \<Rightarrow> bool" where
  "monitor_inv m \<longleftrightarrow> finite (mo_open m) \<and> mo_grants m + card (mo_open m) \<le> mo_challenges m \<and>
     grants_in (mo_decided m + mset (mo_log m)) \<le> mo_grants m \<and>
     mo_told m + mo_owed m \<subseteq># mset (mo_log m) \<and>
     (\<forall>j \<in># mo_decided m + mset (mo_log m). snd j \<in> {''allow'', ''deny''})"

lemma mon_step_inv: "mon_step m m' \<Longrightarrow> monitor_inv m \<Longrightarrow> monitor_inv m'"
proof (induction rule: mon_step.induct)
  case (grant n m rid)
  then have "0 < card (mo_open m)" by (auto simp: monitor_inv_def card_gt_0_iff)
  then show ?case using grant by (auto simp: monitor_inv_def card_Diff_singleton)
next
  case (refuse ns m rid)
  then have "card ns \<le> card (mo_open m)" by (auto simp: monitor_inv_def intro: card_mono)
  then show ?case using refuse by (auto simp: monitor_inv_def dest: finite_subset)
next
  case (expire ns m)
  then have "card ns \<le> card (mo_open m)" by (auto simp: monitor_inv_def intro: card_mono)
  then show ?case using expire by (auto simp: monitor_inv_def dest: finite_subset)
next
  case (write_down x m)
  from multi_member_split [OF this(1)] obtain d where "mo_decided m = add_mset x d" ..
  then show ?case using write_down(2) by (auto simp: monitor_inv_def split: if_splits)
next
  case (drop x m)
  from multi_member_split [OF this(1)] obtain d where "mo_decided m = add_mset x d" ..
  then show ?case using drop(2) by (auto simp: monitor_inv_def split: if_splits)
next
  case (tell x m)
  from multi_member_split [OF this(1)] obtain d where "mo_owed m = add_mset x d" ..
  then show ?case using tell(2) by (simp add: monitor_inv_def)
next
  case (fail x m)
  from multi_member_split [OF this(1)] obtain d where "mo_owed m = add_mset x d" ..
  then show ?case using fail(2) by (auto simp: monitor_inv_def dest: mset_subset_eq_insertD simp: subset_mset.less_imp_le)
qed (auto simp: monitor_inv_def)

lemma monitor_sound: "mon_reachable m \<Longrightarrow> monitor_inv m"
proof (erule monitor.invariant)
  show "monitor_inv start_monitor" by (simp add: monitor_inv_def start_monitor_def)
qed (rule mon_step_inv)

section \<open>The daemon implements the monitor\<close>

definition concluded :: "string option \<times> Conclusion \<Rightarrow> judgement" where
  "concluded x = entry_verdict (cn_entry (snd x))"

definition monitor_of :: "System \<Rightarrow> Monitor" where
  "monitor_of s = \<lparr>mo_open = live_nonces (sv_nonces (sy_server s)),
     mo_challenges = length (sy_issued s), mo_grants = length (sy_honoured s),
     mo_decided = mset (map concluded (sy_settling s)), mo_log = map entry_verdict (sy_entries s),
     mo_owed = verdicts (sy_replying s), mo_told = verdicts (sy_sent s)\<rparr>"

abbreviation at_startup :: "ServerState \<Rightarrow> ServerState" where
  "at_startup st \<equiv> st\<lparr>sv_nonces := new_nonce_state\<rparr>"

lemma conclusion_refused:
  assumes "conclusion_ok pk self st0 ld (rid, cn)" and "honoured ss cn = []"
  shows "snd (concluded (rid, cn)) = ''deny''"
  using assms by (auto simp: conclusion_ok_def entry_ok_def honoured_def concluded_def entry_verdict_def split: if_splits)

lemma step_settle:
  assumes "conclusion_ok pk self st0 ld (rid, cn)" and "settle pk orc rid cn st = (resp, st')"
  shows "verdict resp = {#} \<and> settled_entries pk orc cn st = [] \<or>
    verdict resp = {#concluded (rid, cn)#} \<and> map entry_verdict (settled_entries pk orc cn st) = [concluded (rid, cn)]"
  using assms(2)
proof (cases rule: settle_cases)
  case (durable json)
  then show ?thesis
    using assms(1) by (auto simp: conclusion_ok_def verdict_def settled_entries_def concluded_def entry_verdict_def)
next
  case (failed e)
  then show ?thesis by (simp add: verdict_def settled_entries_def)
qed

text \<open>The four steps the monitor sees most of: a refusal, a challenge, a conclusion and a record.\<close>

lemma monitor_refuse:
  assumes "snd (concluded x) = ''deny''" and "live_nonces (sv_nonces st) \<subseteq> live_nonces (sv_nonces (sy_server s))"
  shows "mon_step (monitor_of s) (monitor_of (s\<lparr>sy_server := st, sy_settling := sy_settling s @ [x]\<rparr>))"
proof -
  have "concluded x = (fst (concluded x), ''deny'')" using assms(1) by (metis prod.collapse)
  then show ?thesis
    using refuse [of "live_nonces (sv_nonces st)" "monitor_of s" "fst (concluded x)"] assms(2)
    by (simp add: monitor_of_def)
qed

lemma monitor_challenge:
  assumes "nonces_balanced s" and "begin_verify orc (sy_server s) caller uid m rid = (Inr ss, st)"
  shows "mon_step (monitor_of s) (monitor_of (s\<lparr>sy_server := st, sy_issued := sy_issued s @ [ss_nonce ss]\<rparr>))"
proof -
  have "nonce_inv (sv_nonces (sy_server s))" using assms(1) by (simp add: nonces_balanced_def)
  from begin_issues [OF this assms(2)] show ?thesis
    using challenge [of "ss_nonce ss" "monitor_of s"] by (simp add: monitor_of_def)
qed

lemma monitor_conclude:
  assumes c: "conclude_verify pk orc rel ss ans (sy_server s) = (cn, st)"
    and ok: "conclusion_ok pk self st0 ld (ss_req_id ss, cn)"
  shows "mon_step (monitor_of s) (monitor_of (s\<lparr>sy_server := st,
    sy_settling := sy_settling s @ [(ss_req_id ss, cn)], sy_honoured := sy_honoured s @ honoured ss cn\<rparr>))"
proof (cases "honoured ss cn = []")
  case True
  from monitor_refuse [OF conclusion_refused [OF ok True], of st s] conclude_shrinks [OF c] True
  show ?thesis by (simp add: monitor_of_def)
next
  case False
  note h = honoured_consumed [OF c False]
  have "decision_of (cn_response cn) = Some ''allow''" using False by (simp add: honoured_def split: if_splits)
  then have "concluded (ss_req_id ss, cn) = (ss_req_id ss, ''allow'')"
    using ok by (simp add: conclusion_ok_def concluded_def entry_verdict_def)
  then show ?thesis
    using grant [of "ss_nonce ss" "monitor_of s" "ss_req_id ss"] h by (simp add: monitor_of_def)
qed

lemma monitor_record:
  assumes "conclusion_ok pk self st0 ld (rid, cn)" and "settle pk orc rid cn (sy_server s) = (resp, st)"
    and "sy_settling s = xs @ (rid, cn) # ys"
  shows "mon_step (monitor_of s) (monitor_of (s\<lparr>sy_server := st, sy_settling := xs @ ys,
    sy_replying := sy_replying s @ [resp], sy_entries := sy_entries s @ settled_entries pk orc cn (sy_server s)\<rparr>))"
proof -
  note n = settle_keeps_nonces [OF assms(2)]
  from step_settle [OF assms(1,2)] show ?thesis
  proof
    assume "verdict resp = {#} \<and> settled_entries pk orc cn (sy_server s) = []"
    then show ?thesis
      using drop [of "concluded (rid, cn)" "monitor_of s"] assms(3) n by (simp add: monitor_of_def)
  next
    assume "verdict resp = {#concluded (rid, cn)#} \<and>
      map entry_verdict (settled_entries pk orc cn (sy_server s)) = [concluded (rid, cn)]"
    then show ?thesis
      using write_down [of "concluded (rid, cn)" "monitor_of s"] assms(3) n by (simp add: monitor_of_def)
  qed
qed

lemma begin_denies: "begin_verify orc st caller uid m rid = (Inl cn, st') \<Longrightarrow> snd (concluded (i, cn)) = ''deny''"
  by (auto simp: concluded_def entry_verdict_def begin_verify_def Let_def split: sum.splits prod.splits)

lemma screen_verdict: "screen_line pk now self caller line st = (Answer after resp, st') \<Longrightarrow> verdict resp = {#}"
  by (erule screen_line_cases) (simp_all add: verdict_def)

lemma monitor_step:
  assumes "sys_step pk ps self s t" and "decisions_ok pk self st0 s" and "same_trust st0 (sy_server s)"
    and "nonces_balanced s"
  shows "mon_step (monitor_of s) (monitor_of t) \<or> monitor_of t = monitor_of s"
  using assms
proof (induction rule: sys_step.induct)
  case (begin_refused s xs a ys orc cn st)
  from monitor_refuse [OF begin_denies [OF begin_refused(2)], of st s "ad_req_id a"] show ?case
    by (simp add: monitor_of_def begin_deny_nonces [OF begin_refused(2)])
next
  case (begin_dispatched s xs a ys orc ss st)
  from monitor_challenge [OF begin_dispatched(5,2)] show ?case by (simp add: monitor_of_def)
next
  case (conclude s xs p ans ys orc cn st)
  have "pending_ok self st0 (sy_loaded s) p" using conclude(1,3) by (simp add: decisions_ok_def Let_def)
  then have "conclusion_ok pk self st0 (sy_loaded s, [(p, ans, orc)]) (ss_req_id (pd_session p), cn)"
    using conclude_ok [OF conclude(2) _ conclude(4)] by simp
  from monitor_conclude [OF conclude(2) this] show ?case
    by (simp add: monitor_of_def)
next
  case (record_entry s xs rid cn ys orc resp st)
  have "conclusion_ok pk self st0 (history s) (rid, cn)"
    using record_entry(1,3) by (simp add: decisions_ok_def Let_def)
  from monitor_record [OF this record_entry(2,1)] show ?case ..
next
  case (send s xs resp ys)
  then show ?case
    using tell [of "(rsp_id resp, the (decision_of resp))" "monitor_of s"]
    by (auto simp: monitor_of_def verdict_def split: option.splits)
next
  case (lose s xs resp ys)
  then show ?case
    using fail [of "(rsp_id resp, the (decision_of resp))" "monitor_of s"]
    by (auto simp: monitor_of_def verdict_def split: option.splits)
next
  case (abort_write s xs x ys)
  then show ?case using drop [of "concluded x" "monitor_of s"] by (simp add: monitor_of_def)
next
  case (sweep_nonces s now)
  then show ?case
    using expire [of "live_nonces (cleanup_tick now (sv_nonces (sy_server s)))" "monitor_of s"] live_cleanup
    by (simp add: monitor_of_def nonces_balanced_def)
qed (auto simp: monitor_of_def dest: screen_nonces screen_verdict)

interpretation daemon_monitor: refinement "start_system (at_startup st)" "sys_step pk ps self"
  "reachable pk ps self (at_startup st)" start_monitor mon_step mon_reachable monitor_of
  for pk :: Packages and ps :: Parsers and self :: u32 and st :: ServerState
proof unfold_locales
  have "live_nonces new_nonce_state = {}" by (simp add: live_nonces_def new_nonce_state_def)
  then show "monitor_of (start_system (at_startup st)) = start_monitor"
    by (simp add: monitor_of_def start_system_def start_monitor_def)
next
  fix s t
  assume r: "reachable pk ps self (at_startup st) s" and "sys_step pk ps self s t"
  then show "mon_step (monitor_of s) (monitor_of t) \<or> monitor_of t = monitor_of s"
    using monitor_step reachable_decisions [OF r] reachable_trust [OF r] reachable_nonces [OF r] by simp
qed

lemma reachable_monitor:
  assumes "reachable pk ps self st0 s" and "sv_nonces st0 = new_nonce_state"
  shows "mon_reachable (monitor_of s) \<and> monitor_inv (monitor_of s)"
proof -
  have "at_startup st0 = st0" using assms(2) by simp
  with assms(1) have r: "reachable pk ps self (at_startup st0) s" by simp
  show ?thesis using daemon_monitor.refines [OF r] daemon_monitor.transfer [OF r monitor_sound] by simp
qed

section \<open>Properties\<close>

text \<open>C3: From startup on, however its tasks interleave, the daemon implements the monitor: the
  state of the daemon is at every moment the image of a state the monitor can be in. So a decision
  told to a client stands among the entries the logger wrote and synced, each telling with an entry
  of its own; these entries form the hash chain from the hash at startup to the hash the logger
  holds now; every entry is an allow or a deny; and the allows in the log are no more than the
  nonces issued, less those still open.\<close>

theorem daemon_refines_monitor:
  assumes "initial_state ps sha256 cur is_root now dk users env config = Inr st0"
    and "reachable pk ps self st0 s"
  shows "mon_reachable (monitor_of s) \<and>
    verdicts (sy_sent s) \<subseteq># mset (map entry_verdict (sy_entries s)) \<and>
    audit_chain (pk_sha256 pk) (al_prev_hash (sv_audit st0)) (sy_entries s) =
      Some (al_prev_hash (sv_audit (sy_server s))) \<and>
    (\<forall>e. e \<in> set (sy_entries s) \<longrightarrow> ae_decision e \<in> {''allow'', ''deny''}) \<and>
    length (filter (\<lambda>e. ae_decision e = ''allow'') (sy_entries s)) +
      card (live_nonces (sv_nonces (sy_server s))) \<le> length (sy_issued s)"
proof -
  have "sv_nonces st0 = new_nonce_state" using initial_state_Inr [OF assms(1)] by simp
  from reachable_monitor [OF assms(2) this]
  have m: "mon_reachable (monitor_of s)" and i: "monitor_inv (monitor_of s)" by simp_all
  have told: "verdicts (sy_sent s) \<subseteq># mset (map entry_verdict (sy_entries s))"
    using i by (auto simp: monitor_inv_def monitor_of_def intro: subset_mset.trans [OF mset_subset_eq_add_left])
  have f: "size (filter_mset (\<lambda>j. snd j = ''allow'') (mset (map entry_verdict es))) =
      length (filter (\<lambda>e. ae_decision e = ''allow'') es)" for es
    by (induction es) (simp_all add: entry_verdict_def)
  have "grants_in (mset (map entry_verdict (sy_entries s))) + card (live_nonces (sv_nonces (sy_server s))) \<le>
      length (sy_issued s)"
    using i by (simp add: monitor_inv_def monitor_of_def)
  moreover have "snd (entry_verdict e) \<in> {''allow'', ''deny''}" if "e \<in> set (sy_entries s)" for e
    using i that by (simp add: monitor_inv_def monitor_of_def)
  then have "\<forall>e. e \<in> set (sy_entries s) \<longrightarrow> ae_decision e \<in> {''allow'', ''deny''}"
    by (simp add: entry_verdict_def)
  moreover have "audit_chain (pk_sha256 pk) (al_prev_hash (sv_audit st0)) (sy_entries s) =
      Some (al_prev_hash (sv_audit (sy_server s)))"
    using reachable_decisions [OF assms(2)] by (simp add: decisions_ok_def Let_def)
  ultimately show ?thesis using m told f by simp
qed

theorem daemon_refines_monitor_witness:
  "\<exists>s e. reachable sample_packages sample_parsers 0 started_state s \<and> mon_reachable (monitor_of s) \<and>
     (Some ''r1'', ''allow'') \<in># verdicts (sy_sent s) \<and>
     e \<in> set (sy_entries s) \<and> ae_request_id e = Some ''r1'' \<and> ae_decision e = ''allow'' \<and> sy_issued s \<noteq> []"
proof -
  obtain s where s: "reachable sample_packages sample_parsers 0 started_state s"
    "sy_sent s = [response_allow (Some ''r1'') ''fido2'']"
    using allowed_reachable by blast
  note r = daemon_refines_monitor [OF sample_started s(1)]
  have m: "mon_reachable (monitor_of s)"
    and sub: "verdicts (sy_sent s) \<subseteq># mset (map entry_verdict (sy_entries s))" using r by simp_all
  have told: "(Some ''r1'', ''allow'') \<in># verdicts (sy_sent s)" by (simp add: s(2) verdict_def)
  then have "(Some ''r1'', ''allow'') \<in># mset (map entry_verdict (sy_entries s))" by (rule mset_subset_eqD [OF sub])
  then obtain e where e: "e \<in> set (sy_entries s)" "ae_request_id e = Some ''r1''" "ae_decision e = ''allow''"
    by (auto simp: entry_verdict_def)
  then have "filter (\<lambda>e. ae_decision e = ''allow'') (sy_entries s) \<noteq> []" by (auto simp: filter_empty_conv)
  then have "sy_issued s \<noteq> []" using r by auto
  then show ?thesis using s(1) m told e by blast
qed

end
