(* ===== verification/Accept_Loop.thy ===== *)
theory Accept_Loop
  imports Protocol Runs
begin

text \<open>
  The accept loop of \<open>run_server\<close> (\<open>infrastructure/ipc/unix_socket.rs\<close>): the semaphore that bounds
  the client tasks, the signals, the joining of finished tasks and the drain at shutdown, as a step
  relation. A task holds its permit from the moment it is spawned until its future is dropped. The
  counter of active connections is the 64-bit one of \<open>metrics.rs\<close>; a task that panics or is aborted
  drops its permit but never reaches the decrement, so the state counts those too. A reload is two
  pieces of work, the swap of the reloadable state and the reopening of the log, between which the
  tasks go on. The semaphore is never closed, so the branch that leaves the loop when it is has no
  step.
\<close>

definition MAX_CONNECTIONS :: nat where
  "MAX_CONNECTIONS = 16"

text \<open>What the loop is waiting for.\<close>

datatype Phase = Selecting | AwaitingPermit | Reopening | Draining | Aborting | Stopped

datatype TaskState = Spawned | Running | Ended | Panicked | Aborted

text \<open>The future of a task that ended, panicked or was aborted has been dropped, and its permit with
  it.\<close>

definition holds_permit :: "TaskState \<Rightarrow> bool" where
  "holds_permit t \<longleftrightarrow> t = Spawned \<or> t = Running"

lemma holds_permit_simps [simp]:
  "holds_permit Spawned" "holds_permit Running" "\<not> holds_permit Ended" "\<not> holds_permit Panicked"
  "\<not> holds_permit Aborted"
  by (simp_all add: holds_permit_def)

record Loop =
  lp_phase :: Phase
  lp_free :: nat
  lp_tasks :: "TaskState list"
  lp_metrics :: Metrics
  lp_uncounted :: nat
  lp_reloads :: nat

definition start_loop :: Loop where
  "start_loop = \<lparr>lp_phase = Selecting, lp_free = MAX_CONNECTIONS, lp_tasks = [],
     lp_metrics = \<lparr>total_requests = 0, request_failures = 0, active_connections = 0, idle_closes = 0\<rparr>,
     lp_uncounted = 0, lp_reloads = 0\<rparr>"

text \<open>The guarded decrement when no other task interferes with the exchange.\<close>

definition dec_active :: "Metrics \<Rightarrow> Metrics" where
  "dec_active m = m\<lparr>active_connections := the (dec_active_connections (active_connections m) [(active_connections m, False)])\<rparr>"

inductive loop_step :: "Loop \<Rightarrow> Loop \<Rightarrow> bool" where
  accept: "lp_phase s = Selecting \<Longrightarrow> loop_step s (s\<lparr>lp_phase := AwaitingPermit\<rparr>)"
| accept_failed: "lp_phase s = Selecting \<Longrightarrow> loop_step s (s\<lparr>lp_metrics := inc_failures (lp_metrics s)\<rparr>)"
| spawn: "lp_phase s = AwaitingPermit \<Longrightarrow> 0 < lp_free s \<Longrightarrow>
    loop_step s (s\<lparr>lp_phase := Selecting, lp_free := lp_free s - 1, lp_tasks := lp_tasks s @ [Spawned]\<rparr>)"
| task_start: "lp_tasks s = xs @ Spawned # ys \<Longrightarrow>
    loop_step s (s\<lparr>lp_tasks := xs @ Running # ys, lp_metrics := inc_active_connections (lp_metrics s)\<rparr>)"
| task_end: "lp_tasks s = xs @ Running # ys \<Longrightarrow>
    m = (if failed then inc_failures (dec_active (lp_metrics s)) else dec_active (lp_metrics s)) \<Longrightarrow>
    loop_step s (s\<lparr>lp_tasks := xs @ Ended # ys, lp_metrics := m, lp_free := lp_free s + 1\<rparr>)"
| task_panic: "lp_tasks s = xs @ Running # ys \<Longrightarrow>
    loop_step s (s\<lparr>lp_tasks := xs @ Panicked # ys, lp_free := lp_free s + 1, lp_uncounted := lp_uncounted s + 1\<rparr>)"
| join_ok: "lp_phase s \<in> {Selecting, Draining} \<Longrightarrow> lp_tasks s = xs @ Ended # ys \<Longrightarrow>
    loop_step s (s\<lparr>lp_tasks := xs @ ys\<rparr>)"
| join_err: "lp_phase s \<in> {Selecting, Draining} \<Longrightarrow> lp_tasks s = xs @ Panicked # ys \<Longrightarrow>
    loop_step s (s\<lparr>lp_tasks := xs @ ys, lp_metrics := inc_failures (lp_metrics s)\<rparr>)"
| task_count: "active_connections m = active_connections (lp_metrics s) \<Longrightarrow> m \<noteq> lp_metrics s \<Longrightarrow>
    loop_step s (s\<lparr>lp_metrics := m\<rparr>)"
| sighup: "lp_phase s = Selecting \<Longrightarrow>
    loop_step s (s\<lparr>lp_phase := Reopening, lp_reloads := lp_reloads s + 1\<rparr>)"
| reopened: "lp_phase s = Reopening \<Longrightarrow> m = (if failed then inc_failures (lp_metrics s) else lp_metrics s) \<Longrightarrow>
    loop_step s (s\<lparr>lp_phase := Selecting, lp_metrics := m\<rparr>)"
| sigterm: "lp_phase s = Selecting \<Longrightarrow> loop_step s (s\<lparr>lp_phase := Draining\<rparr>)"
| drained: "lp_phase s = Draining \<Longrightarrow> lp_tasks s = [] \<Longrightarrow> loop_step s (s\<lparr>lp_phase := Stopped\<rparr>)"
| drain_timeout: "lp_phase s = Draining \<Longrightarrow> loop_step s (s\<lparr>lp_phase := Aborting\<rparr>)"
| task_abort: "lp_phase s = Aborting \<Longrightarrow> lp_tasks s = xs @ t # ys \<Longrightarrow> holds_permit t \<Longrightarrow>
    loop_step s (s\<lparr>lp_tasks := xs @ Aborted # ys, lp_free := lp_free s + 1,
      lp_uncounted := lp_uncounted s + of_bool (t = Running)\<rparr>)"
| join_aborted: "lp_phase s = Aborting \<Longrightarrow> lp_tasks s = xs @ t # ys \<Longrightarrow> \<not> holds_permit t \<Longrightarrow>
    loop_step s (s\<lparr>lp_tasks := xs @ ys\<rparr>)"
| all_aborted: "lp_phase s = Aborting \<Longrightarrow> lp_tasks s = [] \<Longrightarrow> loop_step s (s\<lparr>lp_phase := Stopped\<rparr>)"

inductive loop_reachable :: "Loop \<Rightarrow> bool" where
  loop_start: "loop_reachable start_loop"
| loop_run: "loop_reachable s \<Longrightarrow> loop_step s t \<Longrightarrow> loop_reachable t"

interpretation accept: runs start_loop loop_step loop_reachable
proof
  show "loop_reachable s \<longleftrightarrow> loop_step\<^sup>*\<^sup>* start_loop s" for s
    by (rule reach_rtranclp [where reach = loop_reachable])
      (auto intro: loop_start loop_run elim: loop_reachable.induct)
qed

section \<open>Invariant\<close>

definition holding :: "Loop \<Rightarrow> nat" where
  "holding s = length (filter holds_permit (lp_tasks s))"

definition running :: "Loop \<Rightarrow> nat" where
  "running s = length (filter (\<lambda>t. t = Running) (lp_tasks s))"

definition loop_inv :: "Loop \<Rightarrow> bool" where
  "loop_inv s \<longleftrightarrow> lp_free s + holding s = MAX_CONNECTIONS \<and>
     active_connections (lp_metrics s) = of_nat (running s + lp_uncounted s)"

lemma running_le_holding: "running s \<le> holding s"
proof -
  have "length (filter (\<lambda>t. t = Running) ts) \<le> length (filter holds_permit ts)" for ts
    by (induction ts) auto
  then show ?thesis by (simp add: running_def holding_def)
qed

lemma metrics_active [simp]:
  "active_connections (inc_failures m) = active_connections m"
  "active_connections (inc_active_connections m) = active_connections m + 1"
  by (simp_all add: inc_failures_def inc_active_connections_def)

lemma dec_active_value: "active_connections m \<noteq> 0 \<Longrightarrow> active_connections (dec_active m) = active_connections m - 1"
  by (simp add: dec_active_def dec_active_connections.simps)

lemma of_nat_u64_nonzero: "0 < k \<Longrightarrow> k < 2 ^ 64 \<Longrightarrow> (of_nat k :: u64) \<noteq> 0"
  by (simp add: word_of_nat_eq_0_iff) (use nat_dvd_not_less in blast)

lemma loop_inv_step: "loop_step s t \<Longrightarrow> loop_inv s \<Longrightarrow> lp_uncounted t < 2 ^ 63 \<Longrightarrow> loop_inv t"
proof (induction rule: loop_step.induct)
  case (task_end s xs ys m failed)
  have r: "running s = Suc (length (filter (\<lambda>t. t = Running) (xs @ ys)))"
    using task_end(1) by (simp add: running_def)
  have "running s \<le> 16" using running_le_holding [of s] task_end(3) by (simp add: loop_inv_def MAX_CONNECTIONS_def)
  then have "(of_nat (running s + lp_uncounted s) :: u64) \<noteq> 0"
    using r task_end(4) by (intro of_nat_u64_nonzero) simp_all
  then have "active_connections (dec_active (lp_metrics s)) = of_nat (running s + lp_uncounted s) - 1"
    using task_end(3) dec_active_value by (simp add: loop_inv_def)
  also have "\<dots> = of_nat (length (filter (\<lambda>t. t = Running) (xs @ ys)) + lp_uncounted s)" using r by simp
  finally show ?case
    using task_end(1,2,3) by (auto simp: loop_inv_def holding_def running_def)
qed (auto simp: loop_inv_def holding_def running_def)

lemma uncounted_mono: "loop_step s t \<Longrightarrow> lp_uncounted s \<le> lp_uncounted t"
  by (induction rule: loop_step.induct) auto

lemma permits_step: "loop_step s t \<Longrightarrow> lp_free s + holding s = lp_free t + holding t"
  by (induction rule: loop_step.induct) (auto simp: holding_def)

lemma start_loop_inv: "loop_inv start_loop"
  by (simp add: start_loop_def loop_inv_def holding_def running_def)

lemma loop_reachable_inv: "loop_reachable s \<Longrightarrow> lp_uncounted s < 2 ^ 63 \<Longrightarrow> loop_inv s"
  using accept.invariant_below [where count = lp_uncounted and holds = loop_inv, OF _ start_loop_inv]
    uncounted_mono loop_inv_step by blast

lemma loop_reachable_permits: "loop_reachable s \<Longrightarrow> lp_free s + holding s = MAX_CONNECTIONS"
  by (erule accept.invariant) (use start_loop_inv permits_step in \<open>auto simp: loop_inv_def\<close>)

lemma loop_reachable_stopped: "loop_reachable s \<Longrightarrow> lp_phase s = Stopped \<longrightarrow> lp_tasks s = []"
proof (erule accept.invariant)
  show "lp_phase start_loop = Stopped \<longrightarrow> lp_tasks start_loop = []" by (simp add: start_loop_def)
next
  show "lp_phase t = Stopped \<longrightarrow> lp_tasks t = []" if "loop_step s t" "lp_phase s = Stopped \<longrightarrow> lp_tasks s = []" for s t
    using that by (induction rule: loop_step.induct) auto
qed

section \<open>Stopping\<close>

text \<open>A step in which nothing is aborted.\<close>

abbreviation calm_step :: "Loop \<Rightarrow> Loop \<Rightarrow> bool" where
  "calm_step s t \<equiv> loop_step s t \<and> lp_phase t \<noteq> Aborting"

lemma calm_then: "calm_step s t \<Longrightarrow> calm_step\<^sup>*\<^sup>* t u \<Longrightarrow> calm_step\<^sup>*\<^sup>* s u"
  by (rule converse_rtranclp_into_rtranclp)

lemma loop_reachable_aborted: "loop_reachable s \<Longrightarrow> lp_phase s \<noteq> Aborting \<longrightarrow> Aborted \<notin> set (lp_tasks s)"
proof (erule accept.invariant)
  show "lp_phase start_loop \<noteq> Aborting \<longrightarrow> Aborted \<notin> set (lp_tasks start_loop)" by (simp add: start_loop_def)
next
  show "lp_phase t \<noteq> Aborting \<longrightarrow> Aborted \<notin> set (lp_tasks t)"
    if "loop_step s t" "lp_phase s \<noteq> Aborting \<longrightarrow> Aborted \<notin> set (lp_tasks s)" for s t
    using that by (induction rule: loop_step.induct) auto
qed

text \<open>A task that has its permit can run to its end, whatever the loop is waiting for.\<close>

lemma task_ends:
  assumes "lp_tasks s = xs @ g # ys" and "holds_permit g" and "lp_phase s \<noteq> Aborting"
  shows "\<exists>t. calm_step\<^sup>*\<^sup>* s t \<and> lp_phase t = lp_phase s \<and> lp_tasks t = xs @ Ended # ys \<and> lp_free t = lp_free s + 1"
proof -
  have run: "\<exists>t. calm_step r t \<and> lp_phase t = lp_phase s \<and> lp_tasks t = xs @ Ended # ys \<and> lp_free t = lp_free s + 1"
    if "lp_tasks r = xs @ Running # ys" "lp_phase r = lp_phase s" "lp_free r = lp_free s" for r
    using task_end [OF that(1) refl, of False] that assms(3) by fastforce
  show ?thesis
  proof (cases "g = Running")
    case True
    then show ?thesis using run [of s] assms(1) by blast
  next
    case False
    then have sp: "lp_tasks s = xs @ Spawned # ys" using assms(1,2) by (simp add: holds_permit_def)
    let ?r = "s\<lparr>lp_tasks := xs @ Running # ys, lp_metrics := inc_active_connections (lp_metrics s)\<rparr>"
    have start: "calm_step s ?r" using task_start [OF sp] assms(3) by simp
    obtain t where t: "calm_step ?r t" "lp_phase t = lp_phase s" "lp_tasks t = xs @ Ended # ys" "lp_free t = lp_free s + 1"
      using run [of ?r] by auto
    have "calm_step\<^sup>*\<^sup>* s t" by (rule calm_then [OF start r_into_rtranclp [of calm_step, OF t(1)]])
    then show ?thesis using t by blast
  qed
qed

lemma drains:
  "lp_phase s = Draining \<Longrightarrow> Aborted \<notin> set (lp_tasks s) \<Longrightarrow> \<exists>t. calm_step\<^sup>*\<^sup>* s t \<and> lp_phase t = Stopped"
proof (induction "lp_tasks s" arbitrary: s)
  case Nil
  then show ?case using drained [of s] by (intro exI [of _ "s\<lparr>lp_phase := Stopped\<rparr>"]) auto
next
  case (Cons g gs)
  obtain t where t: "calm_step\<^sup>*\<^sup>* s t" "lp_phase t = Draining" "\<exists>h \<in> {Ended, Panicked}. lp_tasks t = [] @ h # gs"
  proof (cases "holds_permit g")
    case True
    then show ?thesis using task_ends [of s "[]" g gs] Cons.hyps(2) [symmetric] Cons.prems(1) that by auto
  next
    case False
    then have "g \<in> {Ended, Panicked}" using Cons.prems(2) Cons.hyps(2) [symmetric] by (cases g) auto
    then show ?thesis using Cons.hyps(2) [symmetric] Cons.prems(1) that [of s] by auto
  qed
  obtain u where u: "calm_step t u" "lp_phase u = Draining" "lp_tasks u = gs"
  proof -
    from t(3) consider "lp_tasks t = [] @ Ended # gs" | "lp_tasks t = [] @ Panicked # gs" by blast
    then show thesis
    proof cases
      case 1
      then show thesis using join_ok [of t "[]" gs] t(2) that [of "t\<lparr>lp_tasks := gs\<rparr>"] by simp
    next
      case 2
      then show thesis
        using join_err [of t "[]" gs] t(2) that [of "t\<lparr>lp_tasks := gs, lp_metrics := inc_failures (lp_metrics t)\<rparr>"] by simp
    qed
  qed
  have "Aborted \<notin> set (lp_tasks u)" using Cons.prems(2) Cons.hyps(2) [symmetric] u(3) by simp
  from Cons.hyps(1) [OF u(3) [symmetric] u(2) this] show ?case using t(1) calm_then [OF u(1)] by (meson rtranclp_trans)
qed

lemma selecting_stops:
  assumes "lp_phase s = Selecting" and "Aborted \<notin> set (lp_tasks s)"
  shows "\<exists>t. calm_step\<^sup>*\<^sup>* s t \<and> lp_phase t = Stopped"
proof -
  have "calm_step s (s\<lparr>lp_phase := Draining\<rparr>)" using sigterm [OF assms(1)] by simp
  moreover obtain t where "calm_step\<^sup>*\<^sup>* (s\<lparr>lp_phase := Draining\<rparr>) t" "lp_phase t = Stopped"
    using drains [of "s\<lparr>lp_phase := Draining\<rparr>"] assms(2) by auto
  ultimately show ?thesis using calm_then by blast
qed

lemma permit_stops:
  assumes "lp_phase s = AwaitingPermit" and "Aborted \<notin> set (lp_tasks s)" and "0 < lp_free s"
  shows "\<exists>t. calm_step\<^sup>*\<^sup>* s t \<and> lp_phase t = Stopped"
proof -
  let ?r = "s\<lparr>lp_phase := Selecting, lp_free := lp_free s - 1, lp_tasks := lp_tasks s @ [Spawned]\<rparr>"
  have "calm_step s ?r" using spawn [OF assms(1,3)] by simp
  moreover obtain t where "calm_step\<^sup>*\<^sup>* ?r t" "lp_phase t = Stopped" using selecting_stops [of ?r] assms(2) by auto
  ultimately show ?thesis using calm_then by blast
qed

lemma loop_stops_calmly:
  assumes "loop_reachable s" and "lp_phase s \<noteq> Aborting"
  shows "\<exists>t. calm_step\<^sup>*\<^sup>* s t \<and> lp_phase t = Stopped"
proof -
  have a: "Aborted \<notin> set (lp_tasks s)" using loop_reachable_aborted [OF assms(1)] assms(2) by blast
  show ?thesis
  proof (cases "lp_phase s")
    case Selecting
    then show ?thesis using selecting_stops a by blast
  next
    case Draining
    then show ?thesis using drains a by blast
  next
    case Reopening
    have "calm_step s (s\<lparr>lp_phase := Selecting, lp_metrics := lp_metrics s\<rparr>)"
      using reopened [OF Reopening, of "lp_metrics s" False] by simp
    moreover obtain t where "calm_step\<^sup>*\<^sup>* (s\<lparr>lp_phase := Selecting, lp_metrics := lp_metrics s\<rparr>) t" "lp_phase t = Stopped"
      using selecting_stops [of "s\<lparr>lp_phase := Selecting, lp_metrics := lp_metrics s\<rparr>"] a by auto
    ultimately show ?thesis using calm_then by blast
  next
    case AwaitingPermit
    show ?thesis
    proof (cases "lp_free s = 0")
      case True
      then have "filter holds_permit (lp_tasks s) \<noteq> []"
        using loop_reachable_permits [OF assms(1)] by (auto simp: holding_def MAX_CONNECTIONS_def)
      then obtain xs g ys where g: "lp_tasks s = xs @ g # ys" "holds_permit g"
        by (auto simp: filter_empty_conv in_set_conv_decomp)
      from task_ends [OF g assms(2)] obtain t where t: "calm_step\<^sup>*\<^sup>* s t" "lp_phase t = AwaitingPermit"
        "lp_tasks t = xs @ Ended # ys" "0 < lp_free t" using AwaitingPermit by auto
      then have "Aborted \<notin> set (lp_tasks t)" using a g(1) by auto
      from permit_stops [OF t(2) this t(4)] show ?thesis using rtranclp_trans [OF t(1)] by blast
    qed (use AwaitingPermit permit_stops a in blast)
  qed (use assms(2) in auto)
qed

lemma aborts: "lp_phase s = Aborting \<Longrightarrow> \<exists>t. loop_step\<^sup>*\<^sup>* s t \<and> lp_phase t = Stopped"
proof (induction "lp_tasks s" arbitrary: s)
  case Nil
  then show ?case using all_aborted [of s] by (intro exI [of _ "s\<lparr>lp_phase := Stopped\<rparr>"]) auto
next
  case (Cons g gs)
  have tasks: "lp_tasks s = [] @ g # gs" using Cons.hyps(2) by simp
  obtain t h where t: "loop_step\<^sup>*\<^sup>* s t" "lp_phase t = Aborting" "lp_tasks t = [] @ h # gs" "\<not> holds_permit h"
  proof (cases "holds_permit g")
    case True
    show thesis
      by (rule that [OF r_into_rtranclp [of loop_step, OF task_abort [OF Cons.prems tasks True]], where h = Aborted])
        (use Cons.prems in simp_all)
  next
    case False
    then show thesis using that [of s g] tasks Cons.prems by simp
  qed
  have "loop_step t (t\<lparr>lp_tasks := gs\<rparr>)" using join_aborted [OF t(2,3,4)] by simp
  moreover obtain u where "loop_step\<^sup>*\<^sup>* (t\<lparr>lp_tasks := gs\<rparr>) u" "lp_phase u = Stopped"
    using Cons.hyps(1) [of "t\<lparr>lp_tasks := gs\<rparr>"] t(2) by auto
  ultimately show ?case using t(1) by (meson converse_rtranclp_into_rtranclp rtranclp_trans)
qed

text \<open>C27: At most sixteen client tasks ever exist at once, spawned or running: every one of them holds
  a permit, whatever the order of accepts, ends, panics, joins and signals. While fewer than \<open>2^63\<close>
  tasks have panicked or been aborted, the counter of active connections is the number of running
  tasks plus those, which never decrement it. From every state the loop can be brought to its stop,
  and unless it is aborting already without aborting anything: a task that has its permit can end, a
  connection that waits for a permit gets one, the drain joins what has ended. Stopped, no task is
  left.\<close>

theorem connections_bounded:
  assumes "loop_reachable s"
  shows "length (filter holds_permit (lp_tasks s)) \<le> 16 \<and>
    lp_free s + length (filter holds_permit (lp_tasks s)) = 16 \<and>
    (lp_uncounted s < 2 ^ 63 \<longrightarrow> active_connections (lp_metrics s) =
       of_nat (length (filter (\<lambda>t. t = Running) (lp_tasks s)) + lp_uncounted s)) \<and>
    (lp_phase s = Stopped \<longrightarrow> lp_tasks s = []) \<and>
    (\<exists>t. (if lp_phase s = Aborting then loop_step\<^sup>*\<^sup>* s t
          else (\<lambda>s t. loop_step s t \<and> lp_phase t \<noteq> Aborting)\<^sup>*\<^sup>* s t) \<and> lp_phase t = Stopped)"
  using loop_reachable_stopped [OF assms] loop_stops_calmly [OF assms] aborts [of s] loop_reachable_permits [OF assms]
    loop_reachable_inv [OF assms]
  by (cases "lp_phase s = Aborting") (simp_all add: holding_def running_def loop_inv_def MAX_CONNECTIONS_def)

text \<open>C38: While the loop waits for a permit it takes neither a signal nor a finished task: with all permits
  held, it stays in that phase and joins nothing, so that a task that has ended or panicked stays as
  it is, until one of the running clients ends, however long that takes.\<close>

theorem waiting_for_permit_blocks_signals:
  assumes "loop_step s t" and "lp_phase s = AwaitingPermit" and "lp_free s = 0"
  shows "lp_phase t = AwaitingPermit \<and> lp_reloads t = lp_reloads s \<and>
    length (lp_tasks t) = length (lp_tasks s) \<and>
    (\<forall>i. i < length (lp_tasks s) \<longrightarrow> \<not> holds_permit (lp_tasks s ! i) \<longrightarrow> lp_tasks t ! i = lp_tasks s ! i) \<and>
    (lp_free t = 0 \<or> length (filter (\<lambda>t. t = Running) (lp_tasks t)) < length (filter (\<lambda>t. t = Running) (lp_tasks s)))"
  using assms by (induction rule: loop_step.induct) (auto simp: nth_append nth_Cons')

section \<open>A full house\<close>

lemma spawns:
  "n \<le> lp_free s \<Longrightarrow> loop_reachable s \<Longrightarrow> lp_phase s = Selecting \<Longrightarrow>
     loop_reachable (s\<lparr>lp_free := lp_free s - n, lp_tasks := lp_tasks s @ replicate n Spawned\<rparr>)"
proof (induction n)
  case 0
  then show ?case by simp
next
  case (Suc n)
  let ?r = "s\<lparr>lp_free := lp_free s - n, lp_tasks := lp_tasks s @ replicate n Spawned\<rparr>"
  have "loop_reachable (?r\<lparr>lp_phase := AwaitingPermit\<rparr>)"
    using Suc by (intro loop_run [OF Suc.IH accept]) simp_all
  from loop_run [OF this spawn] Suc.prems
  have "loop_reachable ((s\<lparr>lp_phase := Selecting\<rparr>)\<lparr>lp_free := lp_free s - Suc n, lp_tasks := lp_tasks s @ replicate n Spawned @ [Spawned]\<rparr>)"
    by simp
  moreover have "s\<lparr>lp_phase := Selecting\<rparr> = s" using Suc.prems(3) by simp
  ultimately show ?case by (simp add: replicate_append_same)
qed

text \<open>One client has come and gone and was not joined yet, sixteen more are there, one waits.\<close>

definition full_house :: Loop where
  "full_house = start_loop\<lparr>lp_phase := AwaitingPermit, lp_free := 0, lp_tasks := Ended # replicate 15 Spawned @ [Spawned],
     lp_metrics := dec_active (inc_active_connections (lp_metrics start_loop))\<rparr>"

lemma full_house_reachable: "loop_reachable full_house"
proof -
  let ?one = "start_loop\<lparr>lp_free := 16 - 1, lp_tasks := [] @ replicate 1 Spawned\<rparr>"
  let ?c = "inc_active_connections (lp_metrics start_loop)"
  have "loop_reachable ?one"
    using spawns [of 1 start_loop] loop_start by (simp add: start_loop_def MAX_CONNECTIONS_def)
  from loop_run [OF this task_start [of _ "[]" "[]"]]
  have "loop_reachable (start_loop\<lparr>lp_free := 15, lp_tasks := [Running], lp_metrics := ?c\<rparr>)"
    by (simp add: start_loop_def)
  from loop_run [OF this task_end [of _ "[]" "[]" "dec_active ?c" False]]
  have "loop_reachable (start_loop\<lparr>lp_free := 16, lp_tasks := [Ended], lp_metrics := dec_active ?c\<rparr>)"
    by (simp add: start_loop_def)
  from spawns [of 16, OF _ this]
  have "loop_reachable (start_loop\<lparr>lp_free := 0, lp_tasks := Ended # replicate 16 Spawned, lp_metrics := dec_active ?c\<rparr>)"
    by (simp add: start_loop_def)
  moreover have "replicate 15 Spawned @ [Spawned] = replicate 16 Spawned" by (simp add: numeral_eq_Suc)
  ultimately show ?thesis
    using loop_run [OF _ accept, of "start_loop\<lparr>lp_free := 0, lp_tasks := Ended # replicate 16 Spawned, lp_metrics := dec_active ?c\<rparr>"]
    unfolding full_house_def by (simp add: start_loop_def)
qed

theorem connections_bounded_witness:
  "loop_reachable full_house \<and> length (filter holds_permit (lp_tasks full_house)) = 16 \<and>
   (\<exists>t. (\<lambda>s t. loop_step s t \<and> lp_phase t \<noteq> Aborting)\<^sup>*\<^sup>* full_house t \<and> lp_phase t = Stopped)"
  using connections_bounded [OF full_house_reachable] full_house_reachable
  by (simp add: full_house_def)

theorem waiting_for_permit_blocks_signals_witness:
  "\<exists>t. loop_step full_house t \<and> lp_phase t = AwaitingPermit \<and> lp_reloads t = 0 \<and> length (lp_tasks t) = 17 \<and>
     lp_tasks t ! 0 = Ended"
proof -
  let ?t = "full_house\<lparr>lp_tasks := Ended # replicate 15 Spawned @ [Running],
      lp_metrics := inc_active_connections (lp_metrics full_house)\<rparr>"
  have s: "loop_step full_house ?t"
    using task_start [of full_house "Ended # replicate 15 Spawned" "[]"] by (simp add: full_house_def)
  have f: "lp_phase full_house = AwaitingPermit" "lp_free full_house = 0" "lp_reloads full_house = 0"
    "length (lp_tasks full_house) = 17" "lp_tasks full_house ! 0 = Ended"
    by (simp_all add: full_house_def start_loop_def)
  from waiting_for_permit_blocks_signals [OF s f(1,2)] f(3-5) s show ?thesis
    by (intro exI [of _ ?t]) auto
qed

end
