(* ===== verification/Connections.thy ===== *)
theory Connections
  imports System_Properties Accept_Loop
begin

text \<open>
  The accept loop and its client tasks over the one shared server: \<open>run_server\<close>'s loop with
  \<open>handle_client\<close> running inside every task. A task is in one of the stages at which another task can
  run; its own steps are those of \<open>task_step\<close>, over the shared server and its stage alone, and the
  daemon interleaves them with the loop, the signals and the background tasks. The accept loop of
  \<open>Accept_Loop\<close> and the system of \<open>Server_System\<close> are both abstractions of this one: the first
  forgets what the tasks do, the second which task does it.
\<close>

section \<open>One client task\<close>

datatype Stage =
  Arrived
| Connected
| Reading u32
| Verifying Admitted
| AtAdapter Pending
| Judging Pending "AdapterError + VerificationResult"
| Auditing u32 "string option" Conclusion
| Sending u32 Control Response
| Leaving bool
| Finished
| Crashed
| Cancelled

abbreviation on_metrics :: "(Metrics \<Rightarrow> Metrics) \<Rightarrow> ServerState \<Rightarrow> ServerState" where
  "on_metrics f st \<equiv> st\<lparr>sv_metrics := f (sv_metrics st)\<rparr>"

text \<open>Where a task goes once it has sent a response.\<close>

definition after_reply :: "u32 \<Rightarrow> Control \<Rightarrow> Stage" where
  "after_reply caller after = (if after = Continue then Reading caller else Leaving (after = FailClient))"

inductive task_step :: "Packages \<Rightarrow> u32 \<Rightarrow> ServerState \<times> Stage \<Rightarrow> ServerState \<times> Stage \<Rightarrow> bool"
  for pk :: Packages and self :: u32 where
  peer_unknown: "task_step pk self (st, Connected) (st, Leaving True)"
| peer_refused: "\<not> is_allowed self caller (rl_allowlist (sv_reloadable st)) \<Longrightarrow>
    task_step pk self (st, Connected) (count_failure st, Leaving False)"
| peer_admitted: "is_allowed self caller (rl_allowlist (sv_reloadable st)) \<Longrightarrow>
    task_step pk self (st, Connected) (st, Reading caller)"
| read_eof: "task_step pk self (st, Reading caller) (st, Leaving False)"
| read_idle: "task_step pk self (st, Reading caller) (on_metrics inc_idle_closes st, Leaving False)"
| read_error: "task_step pk self (st, Reading caller) (on_metrics inc_requests st, Leaving True)"
| line_silent: "screen_line pk now self caller line (on_metrics inc_requests st) = (SilentClose, st') \<Longrightarrow>
    task_step pk self (st, Reading caller) (st', Leaving False)"
| line_answer: "screen_line pk now self caller line (on_metrics inc_requests st) = (Answer after resp, st') \<Longrightarrow>
    task_step pk self (st, Reading caller) (st', Sending caller after resp)"
| line_verify: "screen_line pk now self caller line (on_metrics inc_requests st) = (Verify uid m rid, st') \<Longrightarrow>
    task_step pk self (st, Reading caller) (st', Verifying \<lparr>ad_caller_uid = caller, ad_uid = uid,
      ad_method = m, ad_req_id = rid, ad_reloadable = sv_reloadable st\<rparr>)"
| verify_refused:
   "begin_verify orc st (ad_caller_uid a) (ad_uid a) (ad_method a) (ad_req_id a) = (Inl cn, st') \<Longrightarrow>
    task_step pk self (st, Verifying a) (st', Auditing (ad_caller_uid a) (ad_req_id a) cn)"
| verify_begun:
   "begin_verify orc st (ad_caller_uid a) (ad_uid a) (ad_method a) (ad_req_id a) = (Inr ss, st') \<Longrightarrow>
    task_step pk self (st, Verifying a)
      (st', AtAdapter \<lparr>pd_session = ss, pd_reloadable = ad_reloadable a\<rparr>)"
| adapter_answers: "fst (session_dispatch pk orc st (pd_session p)) = ans \<Longrightarrow>
    task_step pk self (st, AtAdapter p) (st, Judging p ans)"
| answer_judged: "conclude_verify pk orc (pd_reloadable p) (pd_session p) ans st = (cn, st') \<Longrightarrow>
    task_step pk self (st, Judging p ans)
      (st', Auditing (ss_caller_uid (pd_session p)) (ss_req_id (pd_session p)) cn)"
| decision_audited: "settle pk orc rid cn st = (resp, st') \<Longrightarrow>
    task_step pk self (st, Auditing caller rid cn) (st', Sending caller Continue resp)"
| response_sent: "task_step pk self (st, Sending caller after resp) (st, after_reply caller after)"
| response_lost: "task_step pk self (st, Sending caller after resp) (st, Leaving True)"

text \<open>What the accept loop sees of a stage.\<close>

fun stage_state :: "Stage \<Rightarrow> TaskState" where
  "stage_state Arrived = Spawned"
| "stage_state Finished = Ended"
| "stage_state Crashed = Panicked"
| "stage_state Cancelled = Aborted"
| "stage_state _ = Running"

text \<open>The stages that wait for something outside the task, where an abort takes effect.\<close>

fun awaits :: "Stage \<Rightarrow> bool" where
  "awaits Arrived = True"
| "awaits (Reading caller) = True"
| "awaits (AtAdapter p) = True"
| "awaits (Auditing caller rid cn) = True"
| "awaits (Sending caller after resp) = True"
| "awaits _ = False"

text \<open>What a task that is dropped leaves behind: a nonce nobody will spend, and an audit write that
  the blocking pool may still carry out.\<close>

fun open_nonces :: "Stage \<Rightarrow> bytes list" where
  "open_nonces (AtAdapter p) = [ss_nonce (pd_session p)]"
| "open_nonces (Judging p ans) = [ss_nonce (pd_session p)]"
| "open_nonces _ = []"

fun open_writes :: "Stage \<Rightarrow> (string option \<times> Conclusion) list" where
  "open_writes (Auditing caller rid cn) = [(rid, cn)]"
| "open_writes _ = []"

section \<open>The daemon\<close>

record Daemon =
  da_phase :: Phase
  da_free :: nat
  da_tasks :: "Stage list"
  da_server :: ServerState
  da_uncounted :: nat
  da_reloads :: nat
  da_writes :: "(string option \<times> Conclusion) list"
  da_orphans :: "bytes list"

definition start_daemon :: "ServerState \<Rightarrow> Daemon" where
  "start_daemon st = \<lparr>da_phase = Selecting, da_free = MAX_CONNECTIONS, da_tasks = [], da_server = st,
     da_uncounted = 0, da_reloads = 0, da_writes = [], da_orphans = []\<rparr>"

text \<open>A task's future is dropped: its permit is free again.\<close>

definition drop_task :: "Stage \<Rightarrow> Daemon \<Rightarrow> Daemon" where
  "drop_task g d = d\<lparr>da_free := da_free d + 1, da_uncounted := da_uncounted d + of_bool (stage_state g = Running),
     da_writes := da_writes d @ open_writes g, da_orphans := da_orphans d @ open_nonces g\<rparr>"

inductive daemon_step :: "Packages \<Rightarrow> Parsers \<Rightarrow> u32 \<Rightarrow> Daemon \<Rightarrow> Daemon \<Rightarrow> bool"
  for pk :: Packages and ps :: Parsers and self :: u32 where
  d_accept: "da_phase d = Selecting \<Longrightarrow> daemon_step pk ps self d (d\<lparr>da_phase := AwaitingPermit\<rparr>)"
| d_accept_failed: "da_phase d = Selecting \<Longrightarrow>
    daemon_step pk ps self d (d\<lparr>da_server := on_metrics inc_failures (da_server d)\<rparr>)"
| d_spawn: "da_phase d = AwaitingPermit \<Longrightarrow> 0 < da_free d \<Longrightarrow>
    daemon_step pk ps self d
      (d\<lparr>da_phase := Selecting, da_free := da_free d - 1, da_tasks := da_tasks d @ [Arrived]\<rparr>)"
| d_start: "da_tasks d = xs @ Arrived # ys \<Longrightarrow>
    daemon_step pk ps self d
      (d\<lparr>da_tasks := xs @ Connected # ys, da_server := on_metrics inc_active_connections (da_server d)\<rparr>)"
| d_task: "da_tasks d = xs @ g # ys \<Longrightarrow> task_step pk self (da_server d, g) (st, g') \<Longrightarrow>
    daemon_step pk ps self d (d\<lparr>da_tasks := xs @ g' # ys, da_server := st\<rparr>)"
| d_leave: "da_tasks d = xs @ Leaving failed # ys \<Longrightarrow>
    st = on_metrics dec_active (da_server d) \<Longrightarrow>
    daemon_step pk ps self d (d\<lparr>da_tasks := xs @ Finished # ys, da_free := da_free d + 1,
      da_server := (if failed then count_failure st else st)\<rparr>)"
| d_panic: "da_tasks d = xs @ g # ys \<Longrightarrow> stage_state g = Running \<Longrightarrow>
    daemon_step pk ps self d ((drop_task g d)\<lparr>da_tasks := xs @ Crashed # ys\<rparr>)"
| d_join: "da_phase d \<in> {Selecting, Draining} \<Longrightarrow> da_tasks d = xs @ Finished # ys \<Longrightarrow>
    daemon_step pk ps self d (d\<lparr>da_tasks := xs @ ys\<rparr>)"
| d_join_failed: "da_phase d \<in> {Selecting, Draining} \<Longrightarrow> da_tasks d = xs @ Crashed # ys \<Longrightarrow>
    daemon_step pk ps self d
      (d\<lparr>da_tasks := xs @ ys, da_server := on_metrics inc_failures (da_server d)\<rparr>)"
| d_sighup: "da_phase d = Selecting \<Longrightarrow>
    daemon_step pk ps self d (d\<lparr>da_phase := Reopening, da_reloads := da_reloads d + 1,
      da_server := swap_reloadable ps cur dk (da_server d)\<rparr>)"
| d_reopen: "da_phase d = Reopening \<Longrightarrow>
    daemon_step pk ps self d
      (d\<lparr>da_phase := Selecting, da_server := reopen_log cur opens (da_server d)\<rparr>)"
| d_sigterm: "da_phase d = Selecting \<Longrightarrow> daemon_step pk ps self d (d\<lparr>da_phase := Draining\<rparr>)"
| d_drained: "da_phase d = Draining \<Longrightarrow> da_tasks d = [] \<Longrightarrow>
    daemon_step pk ps self d (d\<lparr>da_phase := Stopped\<rparr>)"
| d_timeout: "da_phase d = Draining \<Longrightarrow> daemon_step pk ps self d (d\<lparr>da_phase := Aborting\<rparr>)"
| d_abort: "da_phase d = Aborting \<Longrightarrow> da_tasks d = xs @ g # ys \<Longrightarrow> awaits g \<Longrightarrow>
    daemon_step pk ps self d ((drop_task g d)\<lparr>da_tasks := xs @ Cancelled # ys\<rparr>)"
| d_join_aborted: "da_phase d = Aborting \<Longrightarrow> da_tasks d = xs @ g # ys \<Longrightarrow> \<not> holds_permit (stage_state g) \<Longrightarrow>
    daemon_step pk ps self d (d\<lparr>da_tasks := xs @ ys\<rparr>)"
| d_aborted: "da_phase d = Aborting \<Longrightarrow> da_tasks d = [] \<Longrightarrow>
    daemon_step pk ps self d (d\<lparr>da_phase := Stopped\<rparr>)"
| d_write: "da_writes d = xs @ (rid, cn) # ys \<Longrightarrow>
    log (pk_entry_json pk) (pk_sha256 pk) fail sync (cn_entry cn) (sv_audit (da_server d)) = (r, logger) \<Longrightarrow>
    daemon_step pk ps self d (d\<lparr>da_writes := xs @ ys, da_server := (da_server d)\<lparr>sv_audit := logger\<rparr>\<rparr>)"
| d_sweep_nonces: "daemon_step pk ps self d
    (d\<lparr>da_server := (da_server d)\<lparr>sv_nonces := cleanup_tick now (sv_nonces (da_server d))\<rparr>\<rparr>)"
| d_sweep_limiter: "daemon_step pk ps self d
    (d\<lparr>da_server := (da_server d)\<lparr>sv_limiter := cleanup_stale now (sv_limiter (da_server d))\<rparr>\<rparr>)"
| d_probe: "daemon_step pk ps self d
    (d\<lparr>da_server := (da_server d)\<lparr>sv_registry := (sv_registry (da_server d))\<lparr>reg_health :=
       monitor_client poisons up now name (reg_health (sv_registry (da_server d)))\<rparr>\<rparr>\<rparr>)"

inductive daemon_reachable :: "Packages \<Rightarrow> Parsers \<Rightarrow> u32 \<Rightarrow> ServerState \<Rightarrow> Daemon \<Rightarrow> bool"
  for pk :: Packages and ps :: Parsers and self :: u32 and st0 :: ServerState where
  daemon_start: "daemon_reachable pk ps self st0 (start_daemon st0)"
| daemon_run: "daemon_reachable pk ps self st0 d \<Longrightarrow> daemon_step pk ps self d e \<Longrightarrow> daemon_reachable pk ps self st0 e"

interpretation tasks: runs "start_daemon st0" "daemon_step pk ps self" "daemon_reachable pk ps self st0"
  for pk :: Packages and ps :: Parsers and self :: u32 and st0 :: ServerState
proof
  show "daemon_reachable pk ps self st0 d \<longleftrightarrow> (daemon_step pk ps self)\<^sup>*\<^sup>* (start_daemon st0) d" for d
    by (rule reach_rtranclp [where reach = "daemon_reachable pk ps self st0"])
      (auto intro: daemon_start daemon_run elim: daemon_reachable.induct)
qed

section \<open>The accept loop is an abstraction\<close>

definition loop_of :: "Daemon \<Rightarrow> Loop" where
  "loop_of d = \<lparr>lp_phase = da_phase d, lp_free = da_free d, lp_tasks = map stage_state (da_tasks d),
     lp_metrics = sv_metrics (da_server d), lp_uncounted = da_uncounted d, lp_reloads = da_reloads d\<rparr>"

abbreviation active :: "ServerState \<Rightarrow> u64" where
  "active st \<equiv> active_connections (sv_metrics st)"

lemma active_simps [simp]:
  "active_connections (inc_requests m) = active_connections m"
  "active_connections (inc_idle_closes m) = active_connections m"
  "active (count_failure st) = active st"
  by (simp_all add: inc_requests_def inc_idle_closes_def count_failure_def)

lemma screen_active: "screen_line pk now self caller line st = (sc, st') \<Longrightarrow> active st' = active st"
  by (erule screen_line_cases) auto

lemma begin_metrics: "begin_verify orc st caller uid m rid = (r, st') \<Longrightarrow> sv_metrics st' = sv_metrics st"
  by (auto simp: begin_verify_def Let_def split: sum.splits prod.splits)

lemma conclude_metrics: "conclude_verify pk orc rel ss ans st = (cn, st') \<Longrightarrow> sv_metrics st' = sv_metrics st"
  by (drule conclude_frame_trust) simp

lemma settle_active: "settle pk orc rid cn st = (resp, st') \<Longrightarrow> active st' = active st"
  by (auto simp: settle_def write_audit_or_error_def Let_def split: prod.splits sum.splits)

lemma swap_metrics [simp]: "sv_metrics (swap_reloadable ps cur dk st) = sv_metrics st"
  by (simp add: swap_reloadable_def split: sum.splits)

lemma reopen_metrics:
  "\<exists>failed. sv_metrics (reopen_log cur opens st) = (if failed then inc_failures (sv_metrics st) else sv_metrics st)"
  by (auto simp: reopen_log_def count_failure_def split: prod.splits sum.splits)

text \<open>A step of a task is invisible to the loop but for the counters it does not own.\<close>

lemma task_step_loop:
  assumes "task_step pk self (st, g) (st', g')"
  shows "stage_state g = Running \<and> stage_state g' = Running \<and> active st' = active st"
  using assms
  by cases (auto simp: after_reply_def dest: screen_active begin_metrics conclude_metrics settle_active)

lemma awaits_permit: "awaits g \<Longrightarrow> holds_permit (stage_state g)"
  by (cases g) simp_all

lemma tasks_at: "da_tasks d = xs @ g # ys \<Longrightarrow>
    lp_tasks (loop_of d) = map stage_state xs @ stage_state g # map stage_state ys"
  by (simp add: loop_of_def)

lemma loop_of_step:
  assumes "daemon_step pk ps self d e"
  shows "loop_step (loop_of d) (loop_of e) \<or> loop_of e = loop_of d"
proof -
  note at_phase = loop_step.accept loop_step.accept_failed loop_step.spawn loop_step.sighup loop_step.sigterm
    loop_step.drained loop_step.drain_timeout loop_step.all_aborted
  from assms show ?thesis
  proof cases
    case (d_start xs ys)
    then show ?thesis using loop_step.task_start [of "loop_of d"] tasks_at [OF d_start(2)] by (simp add: loop_of_def)
  next
    case (d_task xs g ys st g')
    then show ?thesis
      using task_step_loop [OF d_task(3)] loop_step.task_count [of "sv_metrics st" "loop_of d"]
      by (cases "sv_metrics st = sv_metrics (da_server d)") (simp_all add: loop_of_def)
  next
    case (d_leave xs failed ys st)
    then show ?thesis
      using loop_step.task_end [of "loop_of d" _ _ _ failed, OF _ refl] tasks_at [OF d_leave(2)]
      by (cases failed) (simp_all add: loop_of_def count_failure_def)
  next
    case (d_panic xs g ys)
    then show ?thesis
      using loop_step.task_panic [of "loop_of d"] tasks_at [OF d_panic(2)] by (simp add: loop_of_def drop_task_def)
  next
    case (d_join xs ys)
    then show ?thesis using loop_step.join_ok [of "loop_of d"] tasks_at [OF d_join(3)] by (simp add: loop_of_def)
  next
    case (d_join_failed xs ys)
    then show ?thesis using loop_step.join_err [of "loop_of d"] tasks_at [OF d_join_failed(3)] by (simp add: loop_of_def)
  next
    case (d_reopen cur opens)
    obtain failed where "sv_metrics (reopen_log cur opens (da_server d)) =
        (if failed then inc_failures (sv_metrics (da_server d)) else sv_metrics (da_server d))"
      using reopen_metrics by blast
    then show ?thesis
      using d_reopen loop_step.reopened [of "loop_of d" _ failed] by (cases failed) (simp_all add: loop_of_def)
  next
    case (d_abort xs g ys)
    then show ?thesis
      using loop_step.task_abort [of "loop_of d"] tasks_at [OF d_abort(3)]
      by (simp add: loop_of_def drop_task_def awaits_permit)
  next
    case (d_join_aborted xs g ys)
    then show ?thesis
      using loop_step.join_aborted [of "loop_of d"] tasks_at [OF d_join_aborted(3)] by (simp add: loop_of_def)
  qed (use at_phase [of "loop_of d"] in \<open>simp_all add: loop_of_def\<close>)
qed

text \<open>A server no task has touched: no nonce, and every counter at zero.\<close>

abbreviation untouched :: "ServerState \<Rightarrow> ServerState" where
  "untouched st \<equiv> st\<lparr>sv_nonces := new_nonce_state, sv_metrics := lp_metrics start_loop\<rparr>"

interpretation tasks_loop: refinement "start_daemon (untouched st)" "daemon_step pk ps self"
  "daemon_reachable pk ps self (untouched st)" start_loop loop_step loop_reachable loop_of
  for pk :: Packages and ps :: Parsers and self :: u32 and st :: ServerState
proof unfold_locales
  show "loop_of (start_daemon (untouched st)) = start_loop"
    by (simp add: loop_of_def start_daemon_def start_loop_def)
qed (rule loop_of_step)

lemma untouched_start:
  assumes "initial_state ps sha256 cur is_root now dk users env config = Inr st0"
  shows "untouched st0 = st0"
proof -
  have "sv_nonces st0 = new_nonce_state" "sv_metrics st0 = lp_metrics start_loop"
    using assms by (auto simp: initial_state_def res_bind_Inr_iff start_loop_def split: if_splits)
  then show ?thesis by simp
qed

section \<open>The system is an abstraction\<close>

text \<open>A request on its way, wherever it is.\<close>

datatype Flight =
  InAdmitted Admitted
| InWaiting Pending
| InAnswered "Pending \<times> (AdapterError + VerificationResult)"
| InSettling "string option \<times> Conclusion"
| InReplying Response

definition flights :: "System \<Rightarrow> Flight multiset" where
  "flights s = mset (map InAdmitted (sy_admitted s) @ map InWaiting (sy_waiting s) @
     map InAnswered (sy_answered s) @ map InSettling (sy_settling s) @ map InReplying (sy_replying s))"

fun stage_flights :: "Stage \<Rightarrow> Flight list" where
  "stage_flights (Verifying a) = [InAdmitted a]"
| "stage_flights (AtAdapter p) = [InWaiting p]"
| "stage_flights (Judging p ans) = [InAnswered (p, ans)]"
| "stage_flights (Auditing caller rid cn) = [InSettling (rid, cn)]"
| "stage_flights (Sending caller after resp) = [InReplying resp]"
| "stage_flights _ = []"

definition daemon_flights :: "Daemon \<Rightarrow> Flight multiset" where
  "daemon_flights d = mset (concat (map stage_flights (da_tasks d)) @ map InSettling (da_writes d))"

definition matches :: "Daemon \<Rightarrow> System \<Rightarrow> bool" where
  "matches d s \<longleftrightarrow> sy_server s = da_server d \<and> flights s = daemon_flights d"

text \<open>From \<open>s\<close> the system can go to a state with this server and these requests on their way.\<close>

abbreviation can_go :: "Packages \<Rightarrow> Parsers \<Rightarrow> u32 \<Rightarrow> System \<Rightarrow> ServerState \<Rightarrow> Flight multiset \<Rightarrow> bool" where
  "can_go pk ps self s st F \<equiv> \<exists>t. (sys_step pk ps self)\<^sup>*\<^sup>* s t \<and> sy_server t = st \<and> flights t = F"

lemma can_go_step: "sys_step pk ps self s t \<Longrightarrow> sy_server t = st \<Longrightarrow> flights t = F \<Longrightarrow> can_go pk ps self s st F"
  by blast

lemma can_go_trans:
  assumes "can_go pk ps self s st F"
    and "\<And>t. sy_server t = st \<Longrightarrow> flights t = F \<Longrightarrow> can_go pk ps self t st' F'"
  shows "can_go pk ps self s st' F'"
proof -
  obtain t where t: "(sys_step pk ps self)\<^sup>*\<^sup>* s t" "sy_server t = st" "flights t = F" using assms(1) by blast
  from assms(2) [OF t(2,3)] show ?thesis using rtranclp_trans [OF t(1)] by blast
qed

lemma can_go_count: "can_go pk ps self s ((sy_server s)\<lparr>sv_metrics := m\<rparr>) (flights s)"
  by (rule can_go_step [OF count]) (simp_all add: flights_def)

lemma flight_in:
  "InAdmitted a \<in># flights s \<Longrightarrow> \<exists>xs ys. sy_admitted s = xs @ a # ys"
  "InWaiting p \<in># flights s \<Longrightarrow> \<exists>xs ys. sy_waiting s = xs @ p # ys"
  "InAnswered x \<in># flights s \<Longrightarrow> \<exists>xs ys. sy_answered s = xs @ x # ys"
  "InSettling y \<in># flights s \<Longrightarrow> \<exists>xs ys. sy_settling s = xs @ y # ys"
  "InReplying r \<in># flights s \<Longrightarrow> \<exists>xs ys. sy_replying s = xs @ r # ys"
  by (auto simp: flights_def in_set_conv_decomp)

lemma screened_goes:
  assumes "screen_line pk now self caller line (on_metrics inc_requests (sy_server s)) = (sc, st)"
    and "F' = (case sc of SilentClose \<Rightarrow> flights s
       | Answer after resp \<Rightarrow> add_mset (InReplying resp) (flights s)
       | Verify uid m rid \<Rightarrow> add_mset (InAdmitted \<lparr>ad_caller_uid = caller, ad_uid = uid, ad_method = m,
            ad_req_id = rid, ad_reloadable = sv_reloadable (sy_server s)\<rparr>) (flights s))"
  shows "can_go pk ps self s st F'"
proof (rule can_go_trans [OF can_go_count [of pk ps self s "inc_requests (sv_metrics (sy_server s))"]])
  fix t
  assume t: "sy_server t = on_metrics inc_requests (sy_server s)" "flights t = flights s"
  show "can_go pk ps self t st F'"
  proof (cases sc)
    case SilentClose
    then show ?thesis
      using can_go_step [OF screen_silent [of pk now self caller line t st ps]] assms t by (simp add: flights_def)
  next
    case (Answer after resp)
    then show ?thesis
      using can_go_step [OF screen_answer [of pk now self caller line t after resp st ps]] assms t
      by (simp add: flights_def)
  next
    case (Verify uid m rid)
    then show ?thesis
      using can_go_step [OF admit [of pk now self caller line t uid m rid st ps]] assms t by (simp add: flights_def)
  qed
qed

lemma task_goes:
  assumes "task_step pk self (sy_server s, g) (st, g')" and "flights s = mset (stage_flights g) + F"
  shows "can_go pk ps self s st (mset (stage_flights g') + F)"
  using assms(1)
proof cases
  case (verify_refused orc a cn)
  then obtain xs ys where "sy_admitted s = xs @ a # ys" using flight_in(1) assms(2) by fastforce
  then show ?thesis
    using can_go_step [OF begin_refused [of s xs a ys orc cn st pk ps self]] verify_refused assms(2)
    by (simp add: flights_def)
next
  case (verify_begun orc a ss)
  then obtain xs ys where "sy_admitted s = xs @ a # ys" using flight_in(1) assms(2) by fastforce
  then show ?thesis
    using can_go_step [OF begin_dispatched [of s xs a ys orc ss st pk ps self]] verify_begun assms(2)
    by (simp add: flights_def)
next
  case (adapter_answers orc p ans)
  then obtain xs ys where "sy_waiting s = xs @ p # ys" using flight_in(2) assms(2) by fastforce
  then show ?thesis
    using can_go_step [OF dispatch [of s xs p ys pk orc ans ps self]] adapter_answers assms(2)
    by (simp add: flights_def)
next
  case (answer_judged orc p ans cn)
  then obtain xs ys where "sy_answered s = xs @ (p, ans) # ys" using flight_in(3) assms(2) by fastforce
  then show ?thesis
    using can_go_step [OF conclude [of s xs p ans ys pk orc cn st ps self]] answer_judged assms(2)
    by (simp add: flights_def)
next
  case (decision_audited orc rid cn resp caller)
  then obtain xs ys where "sy_settling s = xs @ (rid, cn) # ys" using flight_in(4) assms(2) by fastforce
  then show ?thesis
    using can_go_step [OF record_entry [of s xs rid cn ys pk orc resp st ps self]] decision_audited assms(2)
    by (simp add: flights_def)
next
  case (response_sent caller after resp)
  then obtain xs ys where "sy_replying s = xs @ resp # ys" using flight_in(5) assms(2) by fastforce
  then show ?thesis
    using can_go_step [OF send [of s xs resp ys pk ps self]] response_sent assms(2)
    by (simp add: flights_def after_reply_def)
next
  case (response_lost caller after resp)
  then obtain xs ys where "sy_replying s = xs @ resp # ys" using flight_in(5) assms(2) by fastforce
  then show ?thesis
    using can_go_step [OF lose [of s xs resp ys pk ps self]] response_lost assms(2) by (simp add: flights_def)
qed (use assms(2) can_go_count screened_goes in \<open>fastforce simp: count_failure_def\<close>)+

text \<open>A dropped task takes its request with it, but for a write that may still happen.\<close>

lemma drop_goes:
  assumes "flights s = mset (stage_flights g) + F"
  shows "can_go pk ps self s (sy_server s) (mset (map InSettling (open_writes g)) + F)"
proof (cases g)
  case (Verifying a)
  then obtain xs ys where "sy_admitted s = xs @ a # ys" using flight_in(1) assms by fastforce
  then show ?thesis
    using can_go_step [OF abort_admitted [of s xs a ys pk ps self]] Verifying assms by (simp add: flights_def)
next
  case (AtAdapter p)
  then obtain xs ys where "sy_waiting s = xs @ p # ys" using flight_in(2) assms by fastforce
  then show ?thesis
    using can_go_step [OF abort_call [of s xs p ys pk ps self]] AtAdapter assms by (simp add: flights_def)
next
  case (Judging p ans)
  then obtain xs ys where "sy_answered s = xs @ (p, ans) # ys" using flight_in(3) assms by fastforce
  then show ?thesis
    using can_go_step [OF abort_answered [of s xs "(p, ans)" ys pk ps self]] Judging assms by (simp add: flights_def)
next
  case (Sending caller after resp)
  then obtain xs ys where "sy_replying s = xs @ resp # ys" using flight_in(5) assms by fastforce
  then show ?thesis
    using can_go_step [OF lose [of s xs resp ys pk ps self]] Sending assms by (simp add: flights_def)
qed (use assms in auto)

lemma settle_audit:
  "\<exists>orc resp st'. settle pk orc rid cn st = (resp, st') \<and>
     st'\<lparr>sv_metrics := sv_metrics st\<rparr> = st\<lparr>sv_audit := snd (log (pk_entry_json pk) (pk_sha256 pk) fail sync (cn_entry cn) (sv_audit st))\<rparr>"
proof -
  let ?orc = "undefined\<lparr>or_write_fail := fail, or_sync_ok := sync\<rparr>"
  obtain resp st' where "settle pk ?orc rid cn st = (resp, st')" by fastforce
  then show ?thesis
    by (intro exI [of _ ?orc] exI [of _ resp] exI [of _ st'])
      (auto simp: settle_def write_audit_or_error_def count_failure_def Let_def split: prod.splits sum.splits)
qed

lemma write_goes:
  assumes "flights s = add_mset (InSettling (rid, cn)) F"
  shows "can_go pk ps self s ((sy_server s)\<lparr>sv_audit :=
    snd (log (pk_entry_json pk) (pk_sha256 pk) fail sync (cn_entry cn) (sv_audit (sy_server s)))\<rparr>) F"
proof -
  obtain xs ys where xs: "sy_settling s = xs @ (rid, cn) # ys" using flight_in(4) assms by fastforce
  obtain orc resp st' where st': "settle pk orc rid cn (sy_server s) = (resp, st')"
    and audit: "st'\<lparr>sv_metrics := sv_metrics (sy_server s)\<rparr> = (sy_server s)\<lparr>sv_audit :=
      snd (log (pk_entry_json pk) (pk_sha256 pk) fail sync (cn_entry cn) (sv_audit (sy_server s)))\<rparr>"
    using settle_audit by blast
  have "can_go pk ps self s st' (add_mset (InReplying resp) F)"
    using can_go_step [OF record_entry [OF xs st', of ps self]] assms xs by (simp add: flights_def)
  then have "can_go pk ps self s st' F"
  proof (rule can_go_trans)
    fix t
    assume t: "sy_server t = st'" "flights t = add_mset (InReplying resp) F"
    then obtain us vs where "sy_replying t = us @ resp # vs" using flight_in(5) by fastforce
    from can_go_step [OF lose [OF this, of pk ps self]] this t show "can_go pk ps self t st' F"
      by (simp add: flights_def)
  qed
  then show ?thesis unfolding audit [symmetric] by (rule can_go_trans) (use can_go_count in blast)
qed

lemma daemon_goes:
  assumes "daemon_step pk ps self d e" and "matches d s"
  shows "can_go pk ps self s (da_server e) (daemon_flights e)"
proof -
  note m = assms(2) [unfolded matches_def daemon_flights_def]
  from assms(1) show ?thesis
  proof cases
    case (d_task xs g ys st g')
    have "task_step pk self (sy_server s, g) (st, g')" using d_task(3) m by simp
    from task_goes [OF this, of "mset (concat (map stage_flights (xs @ ys)) @ map InSettling (da_writes d))"]
    show ?thesis using m d_task(1,2) by (simp add: daemon_flights_def ac_simps)
  next
    case (d_panic xs g ys)
    from drop_goes [of s g "mset (concat (map stage_flights (xs @ ys)) @ map InSettling (da_writes d))"]
    show ?thesis using m d_panic by (simp add: daemon_flights_def drop_task_def ac_simps)
  next
    case (d_join_aborted xs g ys)
    then have "stage_flights g = []" by (cases g) simp_all
    then show ?thesis using m d_join_aborted by (auto simp: daemon_flights_def)
  next
    case (d_sighup cur dk)
    then show ?thesis
      using m can_go_step [OF swap [OF refl, of pk ps self s cur dk]] by (simp add: daemon_flights_def flights_def)
  next
    case (d_reopen cur opens)
    then show ?thesis
      using m can_go_step [OF reopen_file [OF refl, of pk ps self s cur opens]]
      by (simp add: daemon_flights_def flights_def)
  next
    case (d_abort xs g ys)
    from drop_goes [of s g "mset (concat (map stage_flights (xs @ ys)) @ map InSettling (da_writes d))"]
    show ?thesis using m d_abort by (simp add: daemon_flights_def drop_task_def ac_simps)
  next
    case (d_write xs rid cn ys fail sync r logger)
    from write_goes [of s rid cn "mset (concat (map stage_flights (da_tasks d)) @ map InSettling (xs @ ys))"]
    show ?thesis using m d_write by (simp add: daemon_flights_def) (metis snd_conv)
  next
    case (d_sweep_nonces now)
    then show ?thesis
      using m can_go_step [OF sweep_nonces [of pk ps self s now]] by (simp add: daemon_flights_def flights_def)
  next
    case (d_sweep_limiter now)
    then show ?thesis
      using m can_go_step [OF sweep_limiter [of pk ps self s now]] by (simp add: daemon_flights_def flights_def)
  next
    case (d_probe poisons up now name)
    then show ?thesis
      using m can_go_step [OF probe [of pk ps self s poisons up now name]]
      by (simp add: daemon_flights_def flights_def)
  qed (use m can_go_count [of pk ps self s] in \<open>auto simp: daemon_flights_def count_failure_def\<close>)
qed

interpretation tasks_system: simulation "start_daemon st0" "daemon_step pk ps self"
  "daemon_reachable pk ps self st0" "start_system st0" "sys_step pk ps self" "reachable pk ps self st0" matches
  for pk :: Packages and ps :: Parsers and self :: u32 and st0 :: ServerState
proof unfold_locales
  show "matches (start_daemon st0) (start_system st0)"
    by (simp add: matches_def start_daemon_def start_system_def daemon_flights_def flights_def)
next
  fix d s e
  assume "matches d s" "daemon_step pk ps self d e"
  then show "\<exists>t. (sys_step pk ps self)\<^sup>*\<^sup>* s t \<and> matches e t"
    using daemon_goes unfolding matches_def by blast
qed

end
