(* ===== verification/Connection_Properties.thy ===== *)
theory Connection_Properties
  imports Connections Monitor
begin

text \<open>
  What the permits and the stages of the tasks give together: every pending nonce belongs to a task
  at its adapter or to one that was dropped there, so the limits of the nonce store are never
  reached; a task that nothing disturbs does what \<open>handle_client\<close> computes; and shutdown is always
  within reach.
\<close>

section \<open>Whose the pending nonces are\<close>

abbreviation tasks_nonces :: "Stage list \<Rightarrow> bytes list" where
  "tasks_nonces gs \<equiv> concat (map open_nonces gs)"

definition nonces_owned :: "Daemon \<Rightarrow> bool" where
  "nonces_owned d \<longleftrightarrow> (let n = sv_nonces (da_server d) in nonce_inv n \<and> \<not> nonce_poisoned n \<and>
     live_nonces n \<subseteq> set (tasks_nonces (da_tasks d) @ da_orphans d) \<and> length (da_orphans d) \<le> da_uncounted d)"

lemma open_nonces_length: "length (open_nonces g) \<le> of_bool (stage_state g = Running)"
  by (cases g) simp_all

text \<open>A task opens a nonce where it begins a verification and closes it where it judges the answer.\<close>

lemma task_step_nonces:
  assumes "task_step pk self (st, g) (st', g')" and "nonce_inv (sv_nonces st)" and "\<not> nonce_poisoned (sv_nonces st)"
  shows "nonce_inv (sv_nonces st') \<and> \<not> nonce_poisoned (sv_nonces st') \<and>
    live_nonces (sv_nonces st') \<subseteq> (live_nonces (sv_nonces st) - set (open_nonces g)) \<union> set (open_nonces g')"
  using assms(1)
proof cases
  case (verify_begun orc a ss)
  have g: "generate (or_rng orc) (or_generate_now orc) (ad_uid a) (sv_nonces st) = (Inr (ss_nonce ss), sv_nonces st')"
    using begin_session [OF verify_begun(3)] by simp
  have "\<not> nonce_poisoned (sv_nonces st')" using generate_Inr [OF assms(2) g] by simp
  then show ?thesis using begin_issues [OF assms(2) verify_begun(3)] verify_begun(1,2) by auto
next
  case (answer_judged orc p ans cn)
  then show ?thesis
    using conclude_frame_trust [OF answer_judged(3)] conclude_shrinks [OF answer_judged(3)] assms(2,3)
    by (simp add: consume_live)
qed (use assms(2,3) in \<open>auto simp: count_failure_def after_reply_def
      dest: screen_nonces begin_deny_nonces settle_keeps_nonces\<close>)

lemma nonces_owned_step:
  assumes "daemon_step pk ps self d e" and "nonces_owned d"
  shows "nonces_owned e"
  using assms(1)
proof cases
  case (d_task xs g ys st g')
  then show ?thesis using task_step_nonces [OF d_task(3)] assms(2) by (auto simp: nonces_owned_def Let_def)
next
  case (d_panic xs g ys)
  then show ?thesis using assms(2) open_nonces_length [of g] by (auto simp: nonces_owned_def Let_def drop_task_def)
next
  case (d_abort xs g ys)
  then show ?thesis using assms(2) open_nonces_length [of g] by (auto simp: nonces_owned_def Let_def drop_task_def)
next
  case (d_join_aborted xs g ys)
  then have "open_nonces g = []" by (cases g) simp_all
  then show ?thesis using d_join_aborted assms(2) by (simp add: nonces_owned_def Let_def)
next
  case (d_sweep_nonces now)
  then show ?thesis
    using assms(2) nonce_inv_cleanup live_cleanup by (fastforce simp: nonces_owned_def Let_def)
qed (use assms(2) in \<open>auto simp: nonces_owned_def Let_def count_failure_def\<close>)

lemma reachable_owned: "daemon_reachable pk ps self (untouched st) d \<Longrightarrow> nonces_owned d"
proof (erule tasks.invariant)
  have "live_nonces new_nonce_state = {}" by (simp add: live_nonces_def new_nonce_state_def)
  then show "nonces_owned (start_daemon (untouched st))"
    by (simp add: nonces_owned_def start_daemon_def nonce_inv_new) (simp add: new_nonce_state_def)
qed (rule nonces_owned_step)

text \<open>A task that is still to begin its verification holds a permit and no nonce.\<close>

lemma nonces_below_permits:
  "length (tasks_nonces gs) + length (filter (\<lambda>g. \<exists>a. g = Verifying a) gs) \<le>
     length (filter holds_permit (map stage_state gs))"
proof (induction gs)
  case (Cons g gs)
  then show ?case by (cases g) auto
qed simp

lemma pending_bound:
  assumes "daemon_reachable pk ps self (untouched st) d"
  shows "hm_len (pending (sv_nonces (da_server d))) + length (filter (\<lambda>g. \<exists>a. g = Verifying a) (da_tasks d)) \<le>
    16 + da_uncounted d"
proof -
  let ?n = "sv_nonces (da_server d)" and ?l = "tasks_nonces (da_tasks d) @ da_orphans d"
  have o: "nonce_inv ?n" "live_nonces ?n \<subseteq> set ?l" "length (da_orphans d) \<le> da_uncounted d"
    using reachable_owned [OF assms] by (simp_all add: nonces_owned_def Let_def)
  have "hm_len (pending ?n) \<le> card (set ?l)" unfolding pending_card [OF o(1)] by (rule card_mono [OF finite_set o(2)])
  also have "\<dots> \<le> length ?l" by (rule card_length)
  finally have "hm_len (pending ?n) \<le> length (tasks_nonces (da_tasks d)) + length (da_orphans d)" by simp
  moreover have "length (filter holds_permit (map stage_state (da_tasks d))) \<le> 16"
    using loop_reachable_permits [OF tasks_loop.refines [OF assms]]
    by (simp add: holding_def loop_of_def MAX_CONNECTIONS_def)
  ultimately show ?thesis using nonces_below_permits [of "da_tasks d"] o(3) by linarith
qed

section \<open>Undisturbed, a task is the handler\<close>

lemma one_more:
  "task_step pk self x y \<Longrightarrow> (task_step pk self)\<^sup>*\<^sup>* y z \<Longrightarrow> (task_step pk self)\<^sup>*\<^sup>* x z"
  by (rule converse_rtranclp_into_rtranclp)

lemma last_one: "task_step pk self x y \<Longrightarrow> (task_step pk self)\<^sup>*\<^sup>* x y"
  by (rule r_into_rtranclp)

lemma verify_task_run:
  assumes "handle_verify_once pk orc st (ad_reloadable a) (ad_caller_uid a) (ad_uid a) (ad_method a) (ad_req_id a) =
    (resp, st')"
  shows "(task_step pk self)\<^sup>*\<^sup>* (st, Verifying a) (st', Sending (ad_caller_uid a) Continue resp)"
  using assms
proof (cases rule: handle_verify_cases)
  case (refused cn)
  show ?thesis by (rule one_more [OF verify_refused [OF refused(1)] last_one [OF decision_audited [OF refused(2)]]])
next
  case (answered ss st1 cn st2)
  let ?p = "\<lparr>pd_session = ss, pd_reloadable = ad_reloadable a\<rparr>"
  let ?ans = "fst (session_dispatch pk orc st1 ss)"
  have b: "ss_caller_uid ss = ad_caller_uid a" "ss_req_id ss = ad_req_id a"
    using begin_session [OF answered(1)] by simp_all
  have a: "task_step pk self (st1, AtAdapter ?p) (st1, Judging ?p ?ans)"
    using adapter_answers [of pk orc st1 ?p ?ans] by simp
  have j: "task_step pk self (st1, Judging ?p ?ans) (st2, Auditing (ad_caller_uid a) (ad_req_id a) cn)"
    using answer_judged [of pk orc ?p ?ans st1 cn st2 self] answered(2) b by simp
  show ?thesis
    by (rule one_more [OF verify_begun [OF answered(1)]], rule one_more [OF a],
        rule one_more [OF j], rule last_one [OF decision_audited [OF answered(3)]])
qed

lemma reply_task_run:
  assumes "reply orc after resp st = (ctl, out, st')"
  shows "task_step pk self (st, Sending caller after resp) (st', after_reply caller ctl)"
  using assms response_sent [of pk self st caller after resp] response_lost [of pk self st caller after resp]
  by (auto simp: reply_def after_reply_def split: if_splits)

lemma line_task_run:
  assumes "handle_line pk orc self caller line (on_metrics inc_requests st) = (ctl, out, st')"
  shows "(task_step pk self)\<^sup>*\<^sup>* (st, Reading caller) (st', after_reply caller ctl)"
proof (cases "screen_line pk (or_check_now orc) self caller line (on_metrics inc_requests st)")
  case (Pair sc st1)
  show ?thesis
  proof (cases sc)
    case SilentClose
    then show ?thesis
      using assms Pair line_silent [of pk "or_check_now orc" self caller line st st1]
      by (auto simp: handle_line_def after_reply_def)
  next
    case (Answer after resp)
    have r: "reply orc after resp st1 = (ctl, out, st')" using assms Pair Answer by (simp add: handle_line_def)
    show ?thesis
      by (rule one_more [OF line_answer [OF Pair [unfolded Answer]] last_one [OF reply_task_run [OF r]]])
  next
    case (Verify uid m rid)
    let ?a = "\<lparr>ad_caller_uid = caller, ad_uid = uid, ad_method = m, ad_req_id = rid,
        ad_reloadable = sv_reloadable st\<rparr>"
    obtain resp st2 where v: "handle_verify_once pk orc st1 (sv_reloadable st) caller uid m rid = (resp, st2)"
      by fastforce
    have r: "reply orc Continue resp st2 = (ctl, out, st')" using assms Pair Verify v by (simp add: handle_line_def)
    have "(task_step pk self)\<^sup>*\<^sup>* (st1, Verifying ?a) (st2, Sending caller Continue resp)"
      using verify_task_run [of pk orc st1 ?a resp st2 self] v by simp
    from rtranclp.rtrancl_into_rtrancl [OF this reply_task_run [OF r]] show ?thesis
      using one_more [OF line_verify [OF Pair [unfolded Verify]]] by simp
  qed
qed

lemma client_task_run:
  "client_loop pk self caller evs st = (ctl, out, st') \<Longrightarrow> (task_step pk self)\<^sup>*\<^sup>* (st, Reading caller) (st', after_reply caller ctl)"
proof (induction evs arbitrary: st out)
  case Nil
  then show ?case by (simp add: after_reply_def)
next
  case (Cons x evs)
  obtain ev orc where x: "x = (ev, orc)" by (cases x)
  show ?case
  proof (cases ev)
    case (Line line)
    obtain c o1 st1 where l: "handle_line pk orc self caller line (on_metrics inc_requests st) = (c, o1, st1)"
      by (metis prod_cases3)
    note r = line_task_run [OF l]
    show ?thesis
    proof (cases "c = Continue")
      case True
      obtain c' o2 st2 where e: "client_loop pk self caller evs st1 = (c', o2, st2)" by (metis prod_cases3)
      with Cons.prems x Line l True have "client_loop pk self caller evs st1 = (ctl, o2, st')" by simp
      from Cons.IH [OF this] r True show ?thesis by (simp add: after_reply_def)
    next
      case False
      then show ?thesis using Cons.prems x Line l r by simp
    qed
  qed (use Cons.prems x in \<open>auto simp: after_reply_def intro: read_eof read_idle read_error\<close>)
qed

lemma handle_client_task_run:
  assumes "handle_client pk self creds evs st = (ctl, out, st')" and "ctl \<noteq> Continue"
  shows "(task_step pk self)\<^sup>*\<^sup>* (st, Connected) (st', Leaving (ctl = FailClient))"
proof (cases creds)
  case None
  then show ?thesis using assms(1) peer_unknown [of pk self st] by (auto simp: handle_client_def)
next
  case (Some caller)
  show ?thesis
  proof (cases "is_allowed self caller (rl_allowlist (sv_reloadable st))")
    case True
    then have "(task_step pk self)\<^sup>*\<^sup>* (st, Reading caller) (st', Leaving (ctl = FailClient))"
      using assms Some client_task_run [of pk self caller evs st ctl out st']
      by (simp add: handle_client_def after_reply_def)
    then show ?thesis by (rule one_more [OF peer_admitted [OF True]])
  next
    case False
    then show ?thesis using assms(1) Some peer_refused [OF False] by (auto simp: handle_client_def)
  qed
qed

lemma task_in_daemon:
  assumes "da_tasks d = xs @ g # ys" and "(task_step pk self)\<^sup>*\<^sup>* (da_server d, g) (st, g')"
  shows "(daemon_step pk ps self)\<^sup>*\<^sup>* d (d\<lparr>da_tasks := xs @ g' # ys, da_server := st\<rparr>)"
  using assms(2)
proof (induction rule: rtranclp_induct2)
  case refl
  then show ?case using assms(1) by (metis (mono_tags, lifting) Daemon.surjective Daemon.update_convs(3,4) rtranclp.rtrancl_refl)
next
  case (step st1 g1 st2 g2)
  let ?d = "d\<lparr>da_tasks := xs @ g1 # ys, da_server := st1\<rparr>"
  have "daemon_step pk ps self ?d (?d\<lparr>da_tasks := xs @ g2 # ys, da_server := st2\<rparr>)"
    using step(2) by (intro d_task) simp_all
  with step(3) show ?case by simp
qed

section \<open>Shutdown\<close>

abbreviation within :: "Packages \<Rightarrow> Parsers \<Rightarrow> u32 \<Rightarrow> nat \<Rightarrow> Daemon \<Rightarrow> Daemon \<Rightarrow> bool" where
  "within pk ps self n d e \<equiv> \<exists>k \<le> n. (daemon_step pk ps self ^^ k) d e"

lemma within_step:
  assumes "daemon_step pk ps self d e" and "within pk ps self n e f"
  shows "within pk ps self (Suc n) d f"
proof -
  obtain k where "k \<le> n" "(daemon_step pk ps self ^^ k) e f" using assms(2) by blast
  then show ?thesis using relpowp_Suc_I2 [of "daemon_step pk ps self" d e k f] assms(1) by blast
qed

lemma within_trans:
  assumes "within pk ps self m d e" and "within pk ps self n e f"
  shows "within pk ps self (m + n) d f"
proof -
  obtain j k where "j \<le> m" "(daemon_step pk ps self ^^ j) d e" "k \<le> n" "(daemon_step pk ps self ^^ k) e f"
    using assms by blast
  then show ?thesis by (intro exI [of _ "j + k"]) (auto simp: relpowp_add)
qed

lemma within_none: "within pk ps self n d d"
  by (rule exI [of _ 0]) simp

lemma within_more: "within pk ps self m d e \<Longrightarrow> m \<le> n \<Longrightarrow> within pk ps self n d e"
  using le_trans by blast

text \<open>Aborting, the loop gets rid of a task in at most three steps, none of which waits for a client or
  an adapter.\<close>

abbreviation rid_of :: "Packages \<Rightarrow> Parsers \<Rightarrow> u32 \<Rightarrow> nat \<Rightarrow> Daemon \<Rightarrow> Stage list \<Rightarrow> bool" where
  "rid_of pk ps self n d gs \<equiv> \<exists>e. within pk ps self n d e \<and> da_phase e = Aborting \<and> da_tasks e = gs"

lemma rid_of_dropped:
  assumes "da_phase d = Aborting" and "da_tasks d = g # gs" and "\<not> holds_permit (stage_state g)"
  shows "rid_of pk ps self 1 d gs"
  using within_step [OF d_join_aborted [of d "[]" g gs pk ps self] within_none [where n = 0]] assms
  by (intro exI [of _ "d\<lparr>da_tasks := gs\<rparr>"]) simp

lemma rid_of_step:
  assumes "daemon_step pk ps self d e" and "rid_of pk ps self n e gs"
  shows "rid_of pk ps self (Suc n) d gs"
  using assms within_step by blast

lemma rid_of_waiting:
  assumes "da_phase d = Aborting" and "da_tasks d = g # gs" and "awaits g"
  shows "rid_of pk ps self 2 d gs"
proof -
  let ?e = "(drop_task g d)\<lparr>da_tasks := [] @ Cancelled # gs\<rparr>"
  have "daemon_step pk ps self d ?e" using assms by (intro d_abort) simp_all
  moreover have "rid_of pk ps self 1 ?e gs" using assms(1) by (intro rid_of_dropped [where g = Cancelled]) (simp_all add: drop_task_def)
  ultimately show ?thesis using rid_of_step [where n = 1] by (simp only: Suc_1)
qed

lemma rid_of_leaving:
  assumes "da_phase d = Aborting" and "da_tasks d = Leaving failed # gs"
  shows "rid_of pk ps self 2 d gs"
proof -
  let ?st = "on_metrics dec_active (da_server d)"
  let ?e = "d\<lparr>da_tasks := [] @ Finished # gs, da_free := da_free d + 1,
      da_server := (if failed then count_failure ?st else ?st)\<rparr>"
  have "daemon_step pk ps self d ?e" using assms by (intro d_leave [OF _ refl]) simp
  moreover have "rid_of pk ps self 1 ?e gs" using assms(1) by (intro rid_of_dropped [where g = Finished]) simp_all
  ultimately show ?thesis using rid_of_step [where n = 1] by (simp only: Suc_1)
qed

lemma rid_of_task:
  assumes "da_phase d = Aborting" and "da_tasks d = g # gs" and "task_step pk self (da_server d, g) (st, g')"
    and "awaits g' \<or> (\<exists>failed. g' = Leaving failed)"
  shows "rid_of pk ps self 3 d gs"
proof -
  let ?e = "d\<lparr>da_tasks := [] @ g' # gs, da_server := st\<rparr>"
  have "daemon_step pk ps self d ?e" using assms(2,3) by (intro d_task) simp_all
  moreover have "rid_of pk ps self 2 ?e gs"
    using assms(1,4) rid_of_waiting [of ?e g' gs pk ps self] rid_of_leaving [of ?e _ gs pk ps self] by auto
  ultimately show ?thesis using rid_of_step [where n = 2] by (simp only: eval_nat_numeral)
qed

lemma rid_of_any:
  assumes "da_phase d = Aborting" and "da_tasks d = g # gs"
  shows "rid_of pk ps self 3 d gs"
proof -
  have more: "rid_of pk ps self 3 d gs" if "rid_of pk ps self n d gs" "n \<le> 3" for n
    using that within_more by blast
  consider "\<not> holds_permit (stage_state g)" | "awaits g" | failed where "g = Leaving failed" | "g = Connected"
    | a where "g = Verifying a" | p ans where "g = Judging p ans"
    by (cases g) auto
  then show ?thesis
  proof cases
    case 1
    from more [OF rid_of_dropped [OF assms this]] show ?thesis by simp
  next
    case 2
    from more [OF rid_of_waiting [OF assms this]] show ?thesis by simp
  next
    case 3
    from more [OF rid_of_leaving [OF assms [unfolded 3]]] show ?thesis by simp
  next
    case 4
    show ?thesis by (rule rid_of_task [OF assms [unfolded 4] peer_unknown]) blast
  next
    case 5
    obtain r st where b: "begin_verify undefined (da_server d) (ad_caller_uid a) (ad_uid a) (ad_method a) (ad_req_id a) = (r, st)"
      by fastforce
    show ?thesis
      using rid_of_task [OF assms [unfolded 5] verify_refused] rid_of_task [OF assms [unfolded 5] verify_begun] b
      by (cases r) simp_all
  next
    case 6
    obtain cn st where "conclude_verify pk undefined (pd_reloadable p) (pd_session p) ans (da_server d) = (cn, st)"
      by fastforce
    from rid_of_task [OF assms [unfolded 6] answer_judged [OF this]] show ?thesis by simp
  qed
qed

lemma aborting_completes:
  "da_phase d = Aborting \<Longrightarrow> \<exists>e. within pk ps self (3 * length (da_tasks d) + 1) d e \<and> da_phase e = Stopped \<and> da_tasks e = []"
proof (induction "da_tasks d" arbitrary: d)
  case Nil
  then show ?case
    using within_step [OF d_aborted [of d pk ps self] within_none [where n = 0]]
    by (intro exI [of _ "d\<lparr>da_phase := Stopped\<rparr>"]) simp
next
  case (Cons g gs)
  obtain e where e: "within pk ps self 3 d e" "da_phase e = Aborting" "gs = da_tasks e"
    using rid_of_any [OF Cons.prems Cons.hyps(2) [symmetric]] by blast
  from Cons.hyps(1) [OF e(3,2)] obtain f
    where f: "within pk ps self (3 * length gs + 1) e f" "da_phase f = Stopped" "da_tasks f = []" using e(3) by blast
  have "3 + (3 * length gs + 1) = 3 * length (da_tasks d) + 1" using Cons.hyps(2) [symmetric] by simp
  with within_trans [OF e(1) f(1)] f(2,3) show ?case by metis
qed

section \<open>Replies\<close>

fun open_replies :: "Stage \<Rightarrow> Response list" where
  "open_replies (Sending caller after resp) = [resp]"
| "open_replies _ = []"

fun flight_replies :: "Flight \<Rightarrow> Response list" where
  "flight_replies (InReplying resp) = [resp]"
| "flight_replies _ = []"

lemma mset_concat_map: "mset (concat (map f xs)) = \<Sum>\<^sub># (image_mset (\<lambda>x. mset (f x)) (mset xs))"
  by (induction xs) simp_all

lemma verdicts_mset: "verdicts rs = \<Sum>\<^sub># (image_mset verdict (mset rs))"
  by (induction rs) simp_all

lemma stage_replies: "concat (map flight_replies (concat (map stage_flights gs))) = concat (map open_replies gs)"
proof (induction gs)
  case (Cons g gs)
  then show ?case by (cases g) simp_all
qed simp

lemma matches_replies:
  assumes "matches d s"
  shows "verdicts (concat (map open_replies (da_tasks d))) = verdicts (sy_replying s)"
proof -
  let ?f = "map InAdmitted (sy_admitted s) @ map InWaiting (sy_waiting s) @ map InAnswered (sy_answered s) @
      map InSettling (sy_settling s) @ map InReplying (sy_replying s)"
  let ?g = "concat (map stage_flights (da_tasks d)) @ map InSettling (da_writes d)"
  have none: "concat (map (flight_replies \<circ> InAdmitted) as) = []" "concat (map (flight_replies \<circ> InWaiting) ps) = []"
    "concat (map (flight_replies \<circ> InAnswered) qs) = []" "concat (map (flight_replies \<circ> InSettling) cs) = []"
    "concat (map (flight_replies \<circ> InReplying) rs) = rs" for as ps qs cs rs
    by (induction as; simp; fail | induction ps; simp; fail | induction qs; simp; fail | induction cs; simp; fail
      | induction rs; simp; fail)+
  have "mset ?f = mset ?g" using assms by (simp only: matches_def flights_def daemon_flights_def)
  then have "mset (concat (map flight_replies ?f)) = mset (concat (map flight_replies ?g))"
    by (simp only: mset_concat_map)
  then have "mset (sy_replying s) = mset (concat (map open_replies (da_tasks d)))"
    by (simp only: map_append concat_append map_map none stage_replies append_Nil append_Nil2)
  then show ?thesis by (simp only: verdicts_mset)
qed

section \<open>Properties\<close>

text \<open>C4: The accept loop with its client tasks implements both abstractions. Whatever it reaches, the
  accept loop reaches when it sees of a task only whether it has started, runs or has ended, so at
  most sixteen tasks hold a permit. And the system of requests reaches a state with the same server
  in which the requests on their way are those the tasks are at work on, together with the audit
  writes that aborted or crashed tasks left to the blocking pool; that state is in turn the image of
  one the monitor can be in. In particular every decision that a task is about to send stands among
  the entries the logger wrote and synced, with an entry of its own, and these entries form the hash
  chain from the hash at startup to the hash the logger holds now.\<close>

theorem tasks_refine_loop_and_system:
  assumes "initial_state ps sha256 cur is_root now dk users env config = Inr st0"
    and "daemon_reachable pk ps self st0 d"
  shows "loop_reachable (loop_of d) \<and> length (filter holds_permit (map stage_state (da_tasks d))) \<le> 16 \<and>
    (\<exists>s. reachable pk ps self st0 s \<and> sy_server s = da_server d \<and> flights s = daemon_flights d \<and>
       mon_reachable (monitor_of s) \<and>
       verdicts (concat (map open_replies (da_tasks d))) \<subseteq># mset (map entry_verdict (sy_entries s)) \<and>
       audit_chain (pk_sha256 pk) (al_prev_hash (sv_audit st0)) (sy_entries s) =
         Some (al_prev_hash (sv_audit (da_server d))))"
proof -
  have "daemon_reachable pk ps self (untouched st0) d" using assms(2) untouched_start [OF assms(1)] by simp
  note l = tasks_loop.refines [OF this]
  have fresh: "sv_nonces st0 = new_nonce_state" using initial_state_Inr [OF assms(1)] by simp
  obtain s where s: "reachable pk ps self st0 s" "matches d s" using tasks_system.simulated [OF assms(2)] by blast
  have "accounted s" and chain: "audit_chain (pk_sha256 pk) (al_prev_hash (sv_audit st0)) (sy_entries s) =
      Some (al_prev_hash (sv_audit (sy_server s)))"
    using reachable_decisions [OF s(1)] by (simp_all add: decisions_ok_def Let_def)
  then have "verdicts (sy_replying s) \<subseteq># mset (map entry_verdict (sy_entries s))"
    unfolding verdicts_append by (metis mset_subset_eq_add_left mset_subset_eq_add_right subset_mset.trans)
  then show ?thesis
    using l loop_reachable_permits [OF l] s matches_replies [OF s(2)] reachable_monitor [OF s(1) fresh] chain
    by (auto simp: holding_def loop_of_def MAX_CONNECTIONS_def matches_def)
qed

text \<open>C20: The limits of the nonce store never turn a request away: as long as no more than sixteen tasks
  have panicked or been aborted, the tasks that have a permit keep the store below both limits, and
  a request whose method resolves gets the value the random source gives first, provided it is not
  pending.\<close>

theorem challenge_always_available:
  assumes "initial_state ps sha256 cur is_root now dk users env config = Inr st0"
    and "daemon_reachable pk ps self st0 d" and "da_uncounted d \<le> 16" and "Verifying a \<in> set (da_tasks d)"
    and "resolve (sv_registry (da_server d)) (ad_method a) = Inr r"
    and "or_rng orc 0 = Some n" and "n \<notin> live_nonces (sv_nonces (da_server d))"
  shows "\<exists>ss st. begin_verify orc (da_server d) (ad_caller_uid a) (ad_uid a) (ad_method a) (ad_req_id a) = (Inr ss, st) \<and>
    ss_nonce ss = n \<and> ss_resolved ss = r"
proof -
  let ?n = "sv_nonces (da_server d)"
  have d: "daemon_reachable pk ps self (untouched st0) d" using assms(2) untouched_start [OF assms(1)] by simp
  have o: "nonce_inv ?n" "\<not> nonce_poisoned ?n"
    using reachable_owned [OF d] by (simp_all add: nonces_owned_def Let_def)
  have "0 < length (filter (\<lambda>g. \<exists>a. g = Verifying a) (da_tasks d))"
    using assms(4) by (auto simp: filter_empty_conv)
  with pending_bound [OF d] assms(3) have b: "hm_len (pending ?n) < 32" by linarith
  then have "uid_pending (ad_uid a) ?n < 32" using uid_pending_le [of "ad_uid a" ?n] by linarith
  then have "generate (or_rng orc) (or_generate_now orc) (ad_uid a) ?n = generate_loop 16 0 (or_rng orc) (or_generate_now orc) (ad_uid a) ?n"
    using o b by (simp add: generate_def uid_counter nonce_inv_def MAX_PENDING_NONCES_def MAX_PENDING_NONCES_PER_UID_def)
  also have "\<dots> = (Inr n, issue n (or_generate_now orc) (ad_uid a) ?n)"
    using assms(6,7) unfolding live_nonces_def by (intro generate_first) blast+
  finally show ?thesis using assms(5) by (simp add: begin_verify_def)
qed

text \<open>The end is always near: wherever the tasks are, from any state in which the loop listens for
  signals or is draining or aborting there is a run to the stop, with every task joined, of at most
  three steps for every task and three more.\<close>

theorem shutdown_completes:
  assumes "da_phase d \<in> {Selecting, Draining, Aborting}"
  shows "\<exists>k e. k \<le> 3 * length (da_tasks d) + 3 \<and> (daemon_step pk ps self ^^ k) d e \<and>
    da_phase e = Stopped \<and> da_tasks e = []"
proof -
  let ?n = "3 * length (da_tasks d) + 1"
  have a: "\<exists>e. within pk ps self ?n f e \<and> da_phase e = Stopped \<and> da_tasks e = []"
    if "da_phase f = Aborting" "da_tasks f = da_tasks d" for f
    using aborting_completes [OF that(1), of pk ps self] that(2) by simp
  have b: "\<exists>e. within pk ps self (Suc ?n) f e \<and> da_phase e = Stopped \<and> da_tasks e = []"
    if "da_phase f = Draining" "da_tasks f = da_tasks d" for f
    using within_step [OF d_timeout [OF that(1)]] a [of "f\<lparr>da_phase := Aborting\<rparr>"] that(2) by fastforce
  have "\<exists>e. within pk ps self (Suc (Suc ?n)) d e \<and> da_phase e = Stopped \<and> da_tasks e = []"
  proof (cases "da_phase d = Selecting")
    case True
    show ?thesis using within_step [OF d_sigterm [OF True]] b [of "d\<lparr>da_phase := Draining\<rparr>"] by fastforce
  next
    case False
    then show ?thesis using assms a [of d] b [of d] within_more by (metis insertE singletonD le_SucI order_refl)
  qed
  then show ?thesis by (metis add_Suc_right numeral_3_eq_3 One_nat_def Suc_1 add_2_eq_Suc')
qed

section \<open>Witnesses\<close>

text \<open>From startup: a probe, a connection of uid 1000 and its first request.\<close>

abbreviation sample_daemon :: "Metrics \<Rightarrow> Stage \<Rightarrow> Daemon" where
  "sample_daemon c g \<equiv> (start_daemon (sample_state\<lparr>sv_metrics := c\<rparr>))\<lparr>da_free := 15, da_tasks := [g]\<rparr>"

lemma sample_reading: "\<exists>c. daemon_reachable sample_packages sample_parsers 0 started_state (sample_daemon c (Reading 1000))"
proof -
  let ?step = "daemon_step sample_packages sample_parsers 0"
  let ?d = "start_daemon sample_state"
  let ?c = "inc_active_connections (sv_metrics sample_state)"
  have a: "?step (start_daemon started_state) ?d"
    using d_probe [of sample_packages sample_parsers 0 "start_daemon started_state" False True 1 "''demo''"]
    by (simp add: start_daemon_def started_state_def sample_state_def sample_registry_def)
  have b: "?step ?d (?d\<lparr>da_phase := AwaitingPermit\<rparr>)" by (rule d_accept) (simp add: start_daemon_def)
  have c: "?step (?d\<lparr>da_phase := AwaitingPermit\<rparr>) (?d\<lparr>da_free := 15, da_tasks := [Arrived]\<rparr>)"
    using d_spawn [of "?d\<lparr>da_phase := AwaitingPermit\<rparr>" sample_packages sample_parsers 0]
    by (simp add: start_daemon_def MAX_CONNECTIONS_def)
  have d: "?step (?d\<lparr>da_free := 15, da_tasks := [Arrived]\<rparr>) (sample_daemon ?c Connected)"
    using d_start [of "?d\<lparr>da_free := 15, da_tasks := [Arrived]\<rparr>" "[]" "[]" sample_packages sample_parsers 0]
    by (simp add: start_daemon_def)
  have e: "?step (sample_daemon ?c Connected) (sample_daemon ?c (Reading 1000))"
  proof -
    have "task_step sample_packages 0 (da_server (sample_daemon ?c Connected), Connected)
        (da_server (sample_daemon ?c Connected), Reading 1000)"
      using sample_admission(1) by (intro peer_admitted) (simp add: start_daemon_def)
    from d_task [OF _ this, of "[]" "[]"] show ?thesis by (simp add: start_daemon_def)
  qed
  from daemon_run [OF daemon_run [OF daemon_run [OF daemon_run [OF daemon_run [OF daemon_start a] b] c] d] e]
  show ?thesis ..
qed

abbreviation sample_admitted :: Admitted where
  "sample_admitted \<equiv> \<lparr>ad_caller_uid = 1000, ad_uid = 1000, ad_method = ''fido2'', ad_req_id = Some ''r1'',
     ad_reloadable = sv_reloadable sample_state\<rparr>"

abbreviation sample_limited :: "Metrics \<Rightarrow> ServerState" where
  "sample_limited c \<equiv> sample_state\<lparr>sv_metrics := c, sv_limiter := snd (check 0 1000 RATE_LIMIT_PER_UID new_limiter)\<rparr>"

lemma sample_verifying:
  "\<exists>c. daemon_reachable sample_packages sample_parsers 0 started_state
     ((sample_daemon c (Verifying sample_admitted))\<lparr>da_server := sample_limited c\<rparr>)"
proof -
  obtain c where r: "daemon_reachable sample_packages sample_parsers 0 started_state (sample_daemon c (Reading 1000))"
    using sample_reading by blast
  have "task_step sample_packages 0 (da_server (sample_daemon c (Reading 1000)), Reading 1000)
      (sample_limited (inc_requests c), Verifying sample_admitted)"
    using line_verify [of sample_packages 0 0 1000 "''x''" "sample_state\<lparr>sv_metrics := c\<rparr>"]
      sample_screen [of "inc_requests c"] by (simp add: start_daemon_def)
  from daemon_run [OF r d_task [OF _ this, of "[]" "[]"]] show ?thesis
    by (intro exI [of _ "inc_requests c"]) (simp add: start_daemon_def)
qed

lemma sample_sending:
  "\<exists>d. daemon_reachable sample_packages sample_parsers 0 started_state d \<and>
     da_tasks d = [Sending 1000 Continue (response_allow (Some ''r1'') ''fido2'')]"
proof -
  obtain c where r: "daemon_reachable sample_packages sample_parsers 0 started_state
     ((sample_daemon c (Verifying sample_admitted))\<lparr>da_server := sample_limited c\<rparr>)" (is "daemon_reachable _ _ _ _ ?d")
    using sample_verifying by blast
  obtain st' where l: "handle_line sample_packages sample_oracle 0 1000 ''x'' (sample_state\<lparr>sv_metrics := c\<rparr>) =
      (Continue, [response_allow (Some ''r1'') ''fido2''], st')"
    using sample_line by blast
  have "handle_verify_once sample_packages sample_oracle (sample_limited c) (sv_reloadable sample_state) 1000 1000
      ''fido2'' (Some ''r1'') = (response_allow (Some ''r1'') ''fido2'', st')"
    using l sample_screen [of c] by (auto simp: handle_line_def reply_def sample_oracle_def split: prod.splits)
  then have "(task_step sample_packages 0)\<^sup>*\<^sup>* (da_server ?d, Verifying sample_admitted)
      (st', Sending 1000 Continue (response_allow (Some ''r1'') ''fido2''))"
    using verify_task_run [of sample_packages sample_oracle "sample_limited c" sample_admitted _ st' 0] by simp
  from task_in_daemon [OF _ this, of "[]" "[]" sample_parsers]
  have "(daemon_step sample_packages sample_parsers 0)\<^sup>*\<^sup>* ?d (?d\<lparr>da_tasks := [Sending 1000 Continue
      (response_allow (Some ''r1'') ''fido2'')], da_server := st'\<rparr>)" by simp
  from tasks.reach_on [OF r this] show ?thesis
    by (intro exI [of _ "?d\<lparr>da_tasks := [Sending 1000 Continue (response_allow (Some ''r1'') ''fido2'')],
      da_server := st'\<rparr>"]) simp
qed

theorem tasks_refine_loop_and_system_witness:
  "\<exists>d s. daemon_reachable sample_packages sample_parsers 0 started_state d \<and>
     reachable sample_packages sample_parsers 0 started_state s \<and> sy_server s = da_server d \<and>
     (Some ''r1'', ''allow'') \<in># mset (map entry_verdict (sy_entries s))"
proof -
  obtain d where d: "daemon_reachable sample_packages sample_parsers 0 started_state d"
     "da_tasks d = [Sending 1000 Continue (response_allow (Some ''r1'') ''fido2'')]"
    using sample_sending by blast
  from tasks_refine_loop_and_system [OF sample_started d(1)] obtain s
    where s: "reachable sample_packages sample_parsers 0 started_state s" "sy_server s = da_server d"
      "verdicts (concat (map open_replies (da_tasks d))) \<subseteq># mset (map entry_verdict (sy_entries s))" by blast
  have "(Some ''r1'', ''allow'') \<in># verdicts (concat (map open_replies (da_tasks d)))"
    unfolding d(2) by (simp add: verdict_def)
  from mset_subset_eqD [OF s(3) this] show ?thesis using d(1) s(1,2) by blast
qed

theorem challenge_always_available_witness:
  "\<exists>d ss st. daemon_reachable sample_packages sample_parsers 0 started_state d \<and>
     Verifying sample_admitted \<in> set (da_tasks d) \<and>
     begin_verify sample_oracle (da_server d) 1000 1000 ''fido2'' (Some ''r1'') = (Inr ss, st) \<and> ss_nonce ss = [7]"
proof -
  obtain c where r: "daemon_reachable sample_packages sample_parsers 0 started_state
     ((sample_daemon c (Verifying sample_admitted))\<lparr>da_server := sample_limited c\<rparr>)" (is "daemon_reachable _ _ _ _ ?d")
    using sample_verifying by blast
  have n: "[7] \<notin> live_nonces (sv_nonces (da_server ?d))"
    by (simp add: sample_state_def live_nonces_def new_nonce_state_def)
  have "or_rng sample_oracle 0 = Some [7]" "da_uncounted ?d \<le> 16" "Verifying sample_admitted \<in> set (da_tasks ?d)"
    by (simp_all add: sample_oracle_def start_daemon_def)
  with challenge_always_available [OF sample_started r _ _ _ _ n] sample_resolve r show ?thesis by fastforce
qed

theorem shutdown_completes_witness:
  "\<exists>k e. k \<le> 9 \<and> (daemon_step sample_packages sample_parsers 0 ^^ k)
     ((start_daemon started_state)\<lparr>da_phase := Draining, da_tasks := [Reading 1000, Connected]\<rparr>) e \<and> da_phase e = Stopped"
  using shutdown_completes [of "(start_daemon started_state)\<lparr>da_phase := Draining, da_tasks := [Reading 1000, Connected]\<rparr>"
    sample_packages sample_parsers 0]
  by auto

end
