(* ===== verification/Systemd.thy ===== *)
theory Systemd
  imports Config
begin

text \<open>
  Unix socket addresses and the systemd side of the daemon, \<open>infrastructure/ipc/systemd.rs\<close>:
  the address of \<open>NOTIFY_SOCKET\<close>, the watchdog interval, the notification sent once at startup and the
  retry loop of the watchdog's.
  The address that \<open>pam-ola/src/unix_connect.rs\<close> builds is defined beside it, because both fill a
  \<open>sockaddr_un\<close> whose path has 108 bytes; on a path both accept they build the same address.
\<close>

section \<open>Addresses\<close>

definition SUN_PATH_LEN :: nat where
  "SUN_PATH_LEN = 108"

record sockaddr_un =
  sun_family :: nat
  sun_path :: bytes

definition zeroed_sockaddr :: sockaddr_un where
  "zeroed_sockaddr = \<lparr>sun_family = 0, sun_path = replicate SUN_PATH_LEN 0\<rparr>"

text \<open>\<open>dst[at..].iter_mut().zip(bytes)\<close>: as many bytes as both have room for.\<close>

definition copy_at :: "nat \<Rightarrow> bytes \<Rightarrow> bytes \<Rightarrow> bytes" where
  "copy_at at src dst =
     take at dst @ take (length dst - at) src @ drop (at + length src) dst"

definition AF_UNIX :: nat where
  "AF_UNIX = 1"

definition sa_family_size :: nat where
  "sa_family_size = 2"

definition notify_addr :: "string \<Rightarrow> string + sockaddr_un \<times> nat" where
  "notify_addr socket_path =
     (if socket_path = [] then Inl ''NOTIFY_SOCKET is empty''
      else
        let addr = zeroed_sockaddr\<lparr>sun_family := AF_UNIX\<rparr>
        in case socket_path of
             CHR ''@'' # name \<Rightarrow>
               let bs = as_bytes name
               in if bs = [] \<or> SUN_PATH_LEN < length bs + 1
                  then Inl ''abstract NOTIFY_SOCKET length is invalid''
                  else Inr (addr\<lparr>sun_path := copy_at 1 bs ((sun_path addr)[0 := 0])\<rparr>,
                            sa_family_size + 1 + length bs)
           | _ \<Rightarrow>
               let bs = as_bytes socket_path
               in if SUN_PATH_LEN < length bs + 1 then Inl ''NOTIFY_SOCKET path is too long''
                  else Inr (addr\<lparr>sun_path := copy_at 0 bs (sun_path addr)\<rparr>,
                            sa_family_size + length bs + 1))"

definition unix_addr :: "string \<Rightarrow> string + sockaddr_un \<times> nat" where
  "unix_addr path =
     (let bs = as_bytes path
      in if bs = [] \<or> 0 \<in> set bs then Inl ''socket path is invalid''
         else
           let addr = zeroed_sockaddr\<lparr>sun_family := AF_UNIX\<rparr>
           in if SUN_PATH_LEN < length bs + 1 then Inl ''socket path is too long''
              else Inr (addr\<lparr>sun_path := copy_at 0 bs (sun_path addr)\<rparr>,
                        sa_family_size + length bs + 1))"

section \<open>Watchdog\<close>

definition from_micros :: "u64 \<Rightarrow> duration" where
  "from_micros n = unat n * 1000"

datatype Watchdog = WatchdogOff | WatchdogTicks duration string

text \<open>\<open>unbound_ok\<close>: the datagram socket could be created.\<close>

definition spawn_watchdog :: "(string \<Rightarrow> EnvVar) \<Rightarrow> bool \<Rightarrow> Watchdog" where
  "spawn_watchdog env unbound_ok =
     (case env ''WATCHDOG_USEC'' of
        EnvValue raw_usec \<Rightarrow>
          (case parse_u64 raw_usec of
             None \<Rightarrow> WatchdogOff
           | Some usec \<Rightarrow>
               if usec = 0 then WatchdogOff
               else
                 let interval = max (from_micros (usec div 3)) (from_secs 1)
                 in (case env ''NOTIFY_SOCKET'' of
                      EnvValue socket_path \<Rightarrow>
                        if unbound_ok then WatchdogTicks interval socket_path else WatchdogOff
                    | _ \<Rightarrow> WatchdogOff))
      | _ \<Rightarrow> WatchdogOff)"

section \<open>Notifications\<close>

text \<open>
  A datagram that reached the kernel: its address, the length of the address, its bytes. \<open>sendto\<close>
  answers success or an error, which may be that the socket would block.
\<close>

type_synonym Datagram = "sockaddr_un \<times> nat \<times> bytes"

datatype SendError = WouldBlock | SendFailed | BadAddress string

definition send_notify :: "(SendError + unit) \<Rightarrow> string \<Rightarrow> bytes \<Rightarrow> (SendError + unit) \<times> Datagram list" where
  "send_notify answer socket_path message =
     (case notify_addr socket_path of
        Inl e \<Rightarrow> (Inl (BadAddress e), [])
      | Inr (addr, len) \<Rightarrow> (answer, case answer of Inr _ \<Rightarrow> [(addr, len, message)] | Inl _ \<Rightarrow> []))"

text \<open>A failure is only logged, so the datagrams are all that is left of a notification.\<close>

definition notify_with_socket :: "(SendError + unit) \<Rightarrow> string \<Rightarrow> string \<Rightarrow> Datagram list" where
  "notify_with_socket answer socket_path message = snd (send_notify answer socket_path (as_bytes message))"

definition notify :: "(string \<Rightarrow> EnvVar) \<Rightarrow> bool \<Rightarrow> (SendError + unit) \<Rightarrow> string \<Rightarrow> Datagram list" where
  "notify env unbound_ok answer message =
     (case env ''NOTIFY_SOCKET'' of
        EnvValue socket_path \<Rightarrow> if unbound_ok then notify_with_socket answer socket_path message else []
      | _ \<Rightarrow> [])"

definition notify_ready :: "(string \<Rightarrow> EnvVar) \<Rightarrow> bool \<Rightarrow> (SendError + unit) \<Rightarrow> Datagram list" where
  "notify_ready env unbound_ok answer = notify env unbound_ok answer ''READY=1''"

text \<open>
  The watchdog's notification: each round is what \<open>sendto\<close> answers and whether waiting for the
  socket to become writable succeeds. \<open>None\<close>: the rounds given do not decide it yet.
\<close>

fun notify_with_socket_async ::
  "((SendError + unit) \<times> bool) list \<Rightarrow> string \<Rightarrow> string \<Rightarrow> Datagram list option" where
  "notify_with_socket_async [] socket_path message = None"
| "notify_with_socket_async ((answer, writable) # rounds) socket_path message =
     (case send_notify answer socket_path (as_bytes message) of
        (Inr _, sent) \<Rightarrow> Some sent
      | (Inl e, _) \<Rightarrow>
          if e = WouldBlock
          then (if writable then notify_with_socket_async rounds socket_path message else Some [])
          else Some [])"

section \<open>Lemmas\<close>

lemma copy_at_zeros:
  "length src + at \<le> n \<Longrightarrow>
     copy_at at src (replicate n 0) = replicate at 0 @ src @ replicate (n - (length src + at)) 0"
  by (simp add: copy_at_def min_def add.commute)

lemma as_bytes_Nil_iff [simp]: "as_bytes s = [] \<longleftrightarrow> s = []"
  by (simp add: as_bytes_def)

lemmas addr_defs = zeroed_sockaddr_def SUN_PATH_LEN_def AF_UNIX_def sa_family_size_def

lemma unix_addr_Inr:
  "unix_addr path = Inr (addr, n) \<longleftrightarrow>
     path \<noteq> [] \<and> 0 \<notin> set (as_bytes path) \<and> length path < 108 \<and> n = length path + 3 \<and>
     addr = \<lparr>sun_family = 1, sun_path = as_bytes path @ replicate (108 - length path) 0\<rparr>"
  using copy_at_zeros [of "as_bytes path" 0 108]
  by (auto simp: unix_addr_def Let_def addr_defs)

lemma notify_addr_path:
  assumes "path \<noteq> []" and "hd path \<noteq> CHR ''@''"
  shows "notify_addr path = Inr (addr, n) \<longleftrightarrow>
    length path < 108 \<and> n = length path + 3 \<and>
    addr = \<lparr>sun_family = 1, sun_path = as_bytes path @ replicate (108 - length path) 0\<rparr>"
proof (cases path)
  case (Cons c cs)
  then have "c \<noteq> CHR ''@''" using assms by simp
  then have "notify_addr path = (if 108 < length (as_bytes path) + 1 then Inl ''NOTIFY_SOCKET path is too long''
      else Inr (zeroed_sockaddr\<lparr>sun_family := AF_UNIX, sun_path := copy_at 0 (as_bytes path) (replicate 108 0)\<rparr>,
             sa_family_size + length (as_bytes path) + 1))"
    unfolding Cons notify_addr_def by (auto simp: Let_def addr_defs split: char.splits bool.splits)
  then show ?thesis
    using copy_at_zeros [of "as_bytes path" 0 108] by (auto simp: addr_defs)
qed (use assms in simp)

lemma notify_addr_abstract:
  "notify_addr (CHR ''@'' # name) = Inr (addr, n) \<longleftrightarrow>
     name \<noteq> [] \<and> length name < 108 \<and> n = length name + 3 \<and>
     addr = \<lparr>sun_family = 1, sun_path = 0 # as_bytes name @ replicate (107 - length name) 0\<rparr>"
proof -
  have z: "(replicate 108 (0 :: u8))[0 := 0] = replicate 108 0"
    by (simp add: list_eq_iff_nth_eq nth_list_update)
  have one: "replicate (Suc 0) (0 :: u8) = [0]" by simp
  show ?thesis
    using copy_at_zeros [of "as_bytes name" 1 108] z one
    by (auto simp: notify_addr_def Let_def addr_defs simp del: replicate.simps)
qed

lemma send_notify_Inr:
  "send_notify answer path bs = (Inr u, sent) \<longleftrightarrow>
     (\<exists>addr len. notify_addr path = Inr (addr, len) \<and> answer = Inr u \<and> sent = [(addr, len, bs)])"
  by (auto simp: send_notify_def split: sum.splits)

text \<open>However often the socket blocks, a watchdog notification that returns has sent at most the one
  datagram, and it does return unless every round blocks and the socket becomes writable again.\<close>

lemma notify_async_once:
  "notify_with_socket_async rounds path msg = Some sent \<Longrightarrow>
     sent = [] \<or> (\<exists>addr len. notify_addr path = Inr (addr, len) \<and> sent = [(addr, len, as_bytes msg)])"
  by (induction rounds path msg rule: notify_with_socket_async.induct)
    (auto simp: send_notify_Inr split: prod.splits sum.splits if_splits)

lemma notify_async_returns:
  "notify_with_socket_async rounds path msg = None \<longleftrightarrow>
     rounds = [] \<or> (\<exists>a. notify_addr path = Inr a) \<and> (\<forall>r \<in> set rounds. r = (Inl WouldBlock, True))"
  by (induction rounds path msg rule: notify_with_socket_async.induct)
    (auto simp: send_notify_def split: prod.splits sum.splits if_splits)

lemma notify_ready_sends:
  "notify_ready env ok answer = [(addr, len, bs)] \<longleftrightarrow>
     (\<exists>path. env ''NOTIFY_SOCKET'' = EnvValue path \<and> notify_addr path = Inr (addr, len)) \<and>
     ok \<and> answer = Inr () \<and> bs = as_bytes ''READY=1''"
  by (auto simp: notify_ready_def notify_def notify_with_socket_def send_notify_def
      split: EnvVar.splits sum.splits)

text \<open>Whatever address is built fits its structure: the path field keeps its 108 bytes, a
  file-system path is stored whole and NUL-terminated, and the length passed to the kernel covers
  the family, the path and no byte beyond the field; a path the PAM client accepts gets the same
  address from both sides of the code unless it starts with \<open>@\<close>.\<close>

theorem socket_addresses_fit:
  assumes "unix_addr path = Inr (addr, n)"
  shows "length (sun_path addr) = 108 \<and> n \<le> 2 + 108 \<and>
    takeWhile (\<lambda>b. b \<noteq> 0) (sun_path addr) = as_bytes path \<and>
    sun_path addr ! length path = 0 \<and> n = 2 + length path + 1 \<and>
    (hd path \<noteq> CHR ''@'' \<longrightarrow> notify_addr path = Inr (addr, n))"
proof -
  have a: "path \<noteq> []" "0 \<notin> set (as_bytes path)" "length path < 108" "n = length path + 3"
    "sun_path addr = as_bytes path @ replicate (108 - length path) 0"
    using assms by (auto simp: unix_addr_Inr)
  have "takeWhile (\<lambda>b. b \<noteq> 0) (as_bytes path @ replicate (108 - length path) 0) = as_bytes path"
    using a(2,3) by (subst takeWhile_append2) (auto simp: takeWhile_eq_Nil_iff)
  moreover have "(as_bytes path @ replicate (108 - length path) 0) ! length path = 0"
    using a(3) by (simp add: nth_append)
  moreover have "notify_addr path = Inr (addr, n)" if "hd path \<noteq> CHR ''@''"
    using that assms a by (subst notify_addr_path) (auto simp: unix_addr_Inr)
  ultimately show ?thesis using a by simp
qed

theorem socket_addresses_fit_witness:
  "\<exists>addr n. unix_addr ''/run/ola/ola.sock'' = Inr (addr, n) \<and> length (sun_path addr) = 108 \<and>
     notify_addr ''/run/ola/ola.sock'' = Inr (addr, n)"
proof -
  have "unix_addr ''/run/ola/ola.sock'' = Inr (\<lparr>sun_family = 1,
      sun_path = as_bytes ''/run/ola/ola.sock'' @ replicate (108 - length ''/run/ola/ola.sock'') 0\<rparr>, 20)"
    by (subst unix_addr_Inr) (simp add: as_bytes_def)
  from socket_addresses_fit [OF this] this show ?thesis by auto
qed

text \<open>A running watchdog task waits at least a second between ticks, and for every watchdog period of
  three seconds or more it ticks at least three times within the period systemd asked for.\<close>

theorem watchdog_in_time:
  assumes "spawn_watchdog env ok = WatchdogTicks interval path"
  shows "\<exists>raw usec. env ''WATCHDOG_USEC'' = EnvValue raw \<and> parse_u64 raw = Some usec \<and> usec \<noteq> 0 \<and>
    env ''NOTIFY_SOCKET'' = EnvValue path \<and> from_secs 1 \<le> interval \<and>
    (3000000 \<le> unat usec \<longrightarrow> 3 * interval \<le> from_micros usec)"
proof -
  from assms obtain raw usec where r: "env ''WATCHDOG_USEC'' = EnvValue raw" "parse_u64 raw = Some usec"
    "usec \<noteq> 0" "env ''NOTIFY_SOCKET'' = EnvValue path"
    and i: "interval = max (from_micros (usec div 3)) (from_secs 1)"
    by (auto simp: spawn_watchdog_def Let_def split: EnvVar.splits option.splits if_splits)
  have "unat (usec div 3) = unat usec div 3" by (simp add: unat_div)
  then have "3000000 \<le> unat usec \<Longrightarrow> 3 * interval \<le> from_micros usec"
    unfolding i from_micros_def by (simp add: max_def)
  then show ?thesis using r i by auto
qed

theorem watchdog_in_time_witness:
  "\<exists>interval. spawn_watchdog (\<lambda>n. if n = ''WATCHDOG_USEC'' then EnvValue ''30000000'' else EnvValue ''/n'')
     True = WatchdogTicks interval ''/n'' \<and> from_secs 1 \<le> interval"
proof -
  let ?e = "\<lambda>n. if n = ''WATCHDOG_USEC'' then EnvValue ''30000000'' else EnvValue ''/n''"
  have p: "parse_u64 ''30000000'' = Some 30000000"
    by (simp add: parse_u64_def parse_uint_def to_digit_def is_ascii_digit_def)
  have "spawn_watchdog ?e True = WatchdogTicks (max (from_micros (30000000 div 3)) (from_secs 1)) ''/n''"
    by (simp add: spawn_watchdog_def p)
  from watchdog_in_time [OF this] this show ?thesis by auto
qed

end
