(* ===== verification/Daemon_Main.thy ===== *)
theory Daemon_Main
  imports Server_Setup Systemd
begin

text \<open>
  The program's entry, \<open>main.rs\<close>: the command line either verifies an audit log and prints a
  report, or serves. Serving sets the umask, reads the configuration from the environment and
  starts the server up to its accept loop. Everything outside the process is the record \<open>World\<close>;
  the state is the process, its umask and the datagrams sent to systemd. The property composes
  configuration, startup, socket setup and the privilege drop.
\<close>

section \<open>The process and its surroundings\<close>

record 'p World =
  wo_parsers :: Parsers
  wo_sha256 :: "bytes \<Rightarrow> bytes"
  wo_cur_uid :: u32
  wo_now :: instant
  wo_disk :: Disk
  wo_sys :: "Syscall \<Rightarrow> 'p \<Rightarrow> bool \<times> 'p"
  wo_answers :: SetupAnswers
  wo_euid :: "'p \<Rightarrow> u32"
  wo_users :: "string \<Rightarrow> User option"
  wo_env :: "string \<Rightarrow> EnvVar"
  wo_unbound_ok :: bool
  wo_sendto :: "SendError + unit"
  wo_watchdog_ok :: bool
  wo_signal_ok :: "string \<Rightarrow> bool"
  wo_log :: "string \<Rightarrow> IoErrorKind + OpenFile"

record 'p Host =
  ho_umask :: nat
  ho_setup :: "'p Setup"
  ho_notified :: "Datagram list"

datatype MainError =
    BadUsage string
  | VerifyFailed AuditVerifyError
  | ConfigFailed string
  | StartFailed StartError
  | SignalHandler string

text \<open>What the process has become: a report was printed, or the accept loop begins.\<close>

datatype MainOutcome = AuditOk string | Serving ServerState Watchdog

section \<open>Operations\<close>

definition harden_umask :: "'p Host \<Rightarrow> 'p Host" where
  "harden_umask h = h\<lparr>ho_umask := 63\<rparr>"

text \<open>The handlers are installed in this order; the first that fails ends \<open>run_server\<close>.\<close>

definition install_signal_handlers :: "(string \<Rightarrow> bool) \<Rightarrow> MainError + unit" where
  "install_signal_handlers ok =
     (if \<not> ok ''SIGINT'' then Inl (SignalHandler ''installing SIGINT handler'')
      else if \<not> ok ''SIGTERM'' then Inl (SignalHandler ''installing SIGTERM handler'')
      else if \<not> ok ''SIGHUP'' then Inl (SignalHandler ''installing SIGHUP handler'')
      else Inr ())"

definition serve :: "'p World \<Rightarrow> ('p Host, MainError, MainOutcome) action" where
  "serve w h =
     (let h1 = harden_umask h
      in case from_env (wo_env w) of
           Inl e \<Rightarrow> (Inl (ConfigFailed e), h1)
         | Inr config \<Rightarrow>
             (case run_server_startup (wo_parsers w) (wo_sha256 w) (wo_cur_uid w) (wo_now w) (wo_disk w)
                     (wo_sys w) (wo_answers w) (wo_euid w) (wo_users w) (wo_env w) config (ho_setup h1) of
                (Inl e, t) \<Rightarrow> (Inl (StartFailed e), h1\<lparr>ho_setup := t\<rparr>)
              | (Inr st, t) \<Rightarrow>
                  (res_bind (install_signal_handlers (wo_signal_ok w)) (\<lambda>_.
                     Inr (Serving st (spawn_watchdog (wo_env w) (wo_watchdog_ok w)))),
                   h1\<lparr>ho_setup := t, ho_notified := ho_notified h1 @
                     notify_ready (wo_env w) (wo_unbound_ok w) (wo_sendto w)\<rparr>)))"

definition audit_report :: "AuditVerifyReport \<Rightarrow> string" where
  "audit_report report =
     ''audit ok: '' @ nat_to_string (rp_entries report) @ '' entries, last_hash '' @ rp_last_hash report"

definition main :: "'p World \<Rightarrow> string list \<Rightarrow> ('p Host, MainError, MainOutcome) action" where
  "main w args h =
     (case parse_audit_verify_path (drop 1 args) of
        Inl e \<Rightarrow> (Inl (BadUsage e), h)
      | Inr (Some path) \<Rightarrow>
          (case verify_audit_log (ps_entry_json (wo_parsers w)) (wo_sha256 w) (wo_log w path) of
             Inl e \<Rightarrow> (Inl (VerifyFailed e), h)
           | Inr report \<Rightarrow> (Inr (AuditOk (audit_report report)), h))
      | Inr None \<Rightarrow> serve w h)"

section \<open>Lemmas\<close>

lemma setup_listener_process:
  assumes "setup_listener sys an euid users env config s = (Inr (), t)"
  shows "drop_privileges_completely sys euid users env (se_process s) = (Inr (), se_process t)"
proof (cases "an_activated an")
  case None
  then show ?thesis
    using assms by (auto simp: setup_listener_def act_then_Inr drop_in_setup_Inr dest!: bind_listener_Inr)
next
  case (Some a)
  then show ?thesis
    using assms by (cases a) (auto simp: setup_listener_def setup_Inr split: if_splits)
qed

lemma run_server_startup_Inr:
  assumes "run_server_startup ps sha256 cur now dk sys an euid users env config s = (Inr st, t)"
  shows "initial_state ps sha256 cur (euid (se_process s) = 0) now dk users env config = Inr st \<and>
    drop_privileges_completely sys euid users env (se_process s) = (Inr (), se_process t)"
  using assms setup_listener_process [of sys an euid users env config s t]
  by (auto simp: run_server_startup_def split: sum.splits prod.splits)

lemma main_Serving:
  assumes "main w args h = (Inr (Serving st wd), h')"
  shows "drop 1 args = [] \<and> ho_umask h' = 63 \<and>
    (\<exists>config. from_env (wo_env w) = Inr config \<and>
       run_server_startup (wo_parsers w) (wo_sha256 w) (wo_cur_uid w) (wo_now w) (wo_disk w)
         (wo_sys w) (wo_answers w) (wo_euid w) (wo_users w) (wo_env w) config (ho_setup h) =
         (Inr st, ho_setup h')) \<and>
    wd = spawn_watchdog (wo_env w) (wo_watchdog_ok w)"
proof -
  have args: "parse_audit_verify_path (drop 1 args) = Inr None \<Longrightarrow> drop 1 args = []"
    by (auto simp: parse_audit_verify_path_def split: list.splits if_splits)
  show ?thesis
    using assms args
    by (auto simp: main_def serve_def harden_umask_def Let_def res_bind_Inr_iff
        split: sum.splits option.splits prod.splits)
qed

section \<open>Properties\<close>

text \<open>C24: A daemon that serves is hardened: it was started without arguments, its umask is 077, its
  configuration is sound, and if it began as root it now runs as the service user, which is not
  root, without supplementary groups or capabilities, under \<open>NO_NEW_PRIVS\<close> and a filter that
  lets the listed calls through and answers every other one, an attempt to execute, to change
  identity or to trace among them, with \<open>EPERM\<close>; in production it requires attestation and holds a key for every adapter a request can resolve to.\<close>

theorem serving_is_hardened:
  assumes "main w args h = (Inr (Serving st wd), h')"
    and "kernel_laws (wo_sys w)" and "wo_euid w = pc_euid"
  shows "drop 1 args = [] \<and> ho_umask h' = 63 \<and> from_env (wo_env w) = Inr (sv_config st) \<and>
    config_ok (sv_config st) \<and>
    (pc_euid (se_process (ho_setup h)) = 0 \<longrightarrow>
       (\<exists>u. wo_users w (service_user_name (wo_env w)) = Some u \<and> us_uid u \<noteq> 0 \<and>
          pc_euid (se_process (ho_setup h')) = us_uid u \<and> pc_gid (se_process (ho_setup h')) = us_gid u \<and>
          pc_groups (se_process (ho_setup h')) = [] \<and>
          (\<forall>s. pc_caps (se_process (ho_setup h')) s = {}))) \<and>
    pc_no_new_privs (se_process (ho_setup h')) \<and>
    (\<exists>f. pc_seccomp (se_process (ho_setup h')) = Some f \<and>
       (\<forall>call. filter_action f call = (if call \<in> set seccomp_allowed then SeccompAllow else SeccompErrno EPERM)) \<and>
       (\<forall>call \<in> {''execve'', ''setuid'', ''setgid'', ''setgroups'', ''capset'', ''ptrace''}.
          filter_action f call = SeccompErrno EPERM)) \<and>
    (is_prod_mode (sv_config st) \<longrightarrow> cf_require_attestation (sv_config st) \<and>
       (\<forall>m r. resolve (sv_registry st) m = Inr r \<longrightarrow>
          hm_get (adapter_keys (sv_attester st)) (ra_adapter_name r) \<noteq> None))"
proof -
  note m = main_Serving [OF assms(1)]
  from m obtain config where env: "from_env (wo_env w) = Inr config"
    and up: "run_server_startup (wo_parsers w) (wo_sha256 w) (wo_cur_uid w) (wo_now w) (wo_disk w)
         (wo_sys w) (wo_answers w) pc_euid (wo_users w) (wo_env w) config (ho_setup h) =
         (Inr st, ho_setup h')"
    using assms(3) by auto
  note r = run_server_startup_Inr [OF up]
  from r have init: "initial_state (wo_parsers w) (wo_sha256 w) (wo_cur_uid w)
      (pc_euid (se_process (ho_setup h)) = 0) (wo_now w) (wo_disk w) (wo_users w) (wo_env w) config = Inr st" ..
  have c: "sv_config st = config" using initial_state_Inr [OF init] by simp
  from r have d: "drop_privileges_completely (wo_sys w) pc_euid (wo_users w) (wo_env w)
      (se_process (ho_setup h)) = (Inr (), se_process (ho_setup h'))" ..
  have attested: "cf_require_attestation config" if "is_prod_mode config"
    using that initial_state_Inr [OF init] by (auto simp: validate_attestation_mode_def split: if_splits)
  have "filter_action seccomp_filter call =
      (if call \<in> set seccomp_allowed then SeccompAllow else SeccompErrno EPERM)" for call
    by (simp add: filter_action_def seccomp_filter_def)
  moreover have "\<forall>call \<in> {''execve'', ''setuid'', ''setgid'', ''setgroups'', ''capset'', ''ptrace''}.
      call \<notin> set seccomp_allowed"
    by (simp add: seccomp_allowed_def)
  ultimately have f: "\<exists>f. pc_seccomp (se_process (ho_setup h')) = Some f \<and>
       (\<forall>call. filter_action f call = (if call \<in> set seccomp_allowed then SeccompAllow else SeccompErrno EPERM)) \<and>
       (\<forall>call \<in> {''execve'', ''setuid'', ''setgid'', ''setgroups'', ''capset'', ''ptrace''}.
          filter_action f call = SeccompErrno EPERM)"
    using drop_filtered [OF assms(2) d] by simp
  show ?thesis
    using m env c from_env_ok [OF env] attested initial_state_keys [OF init]
      root_is_dropped [OF assms(2) _ d] drop_filtered [OF assms(2) d] f by auto
qed

section \<open>Witness\<close>

abbreviation sample_env :: "string \<Rightarrow> EnvVar" where
  "sample_env \<equiv> (\<lambda>_. NotPresent)(''OLA_MAX_RESULT_AGE_SECS'' := EnvValue ''10'')"

definition sample_world :: "Process World" where
  "sample_world = \<lparr>wo_parsers = sample_parsers, wo_sha256 = sample_sha, wo_cur_uid = 0, wo_now = 0,
     wo_disk = sample_disk, wo_sys = sample_kernel, wo_answers = sample_answers, wo_euid = pc_euid,
     wo_users = sample_users, wo_env = sample_env, wo_unbound_ok = True, wo_sendto = Inr (),
     wo_watchdog_ok = True, wo_signal_ok = (\<lambda>_. True), wo_log = (\<lambda>_. Inl IoNotFound)\<rparr>"

definition sample_host :: "Process Host" where
  "sample_host = \<lparr>ho_umask = 18, ho_setup = \<lparr>se_trace = [], se_process = sample_root\<rparr>, ho_notified = []\<rparr>"

lemma sample_env_config: "\<exists>c. from_env sample_env = Inr c \<and> sample_like c"
proof -
  have "parse_u64 ''10'' = Some 10"
    by (simp add: parse_u64_def parse_uint_def to_digit_def is_ascii_digit_def)
  then show ?thesis
    by (simp add: from_env_def env_or_def parse_env_u64_with_fallback_def parse_env_nonzero_u64_def
      parse_env_u64_def DEFAULT_CLIENT_IDLE_TIMEOUT_SECS_def MAX_RESULT_AGE_SECS_UPPER_BOUND_def
      sample_like_def is_prod_mode_def)
qed

lemma sample_serves:
  "\<exists>st wd h. main sample_world [''ola-core''] sample_host = (Inr (Serving st wd), h)"
proof -
  obtain c where c: "from_env sample_env = Inr c" "sample_like c" using sample_env_config by blast
  let ?s = "\<lparr>se_trace = [], se_process = sample_root\<rparr>"
  obtain t where t: "setup_listener sample_kernel sample_answers pc_euid sample_users sample_env c ?s = (Inr (), t)"
    by (simp add: setup_listener_def bind_listener_def prepare_socket_parent_def sample_answers_def
        act_then_def emit_def find_user_def set_socket_parent_owner_def remove_stale_socket_with_def
        set_socket_mode_def set_socket_owner_def drop_in_setup_def map_err_def sample_root_def
        drop_privileges_completely_def apply_seccomp_def drop_identity_def issue_call_def refuse_root_def)
  have "pc_euid sample_root = 0" by (simp add: sample_root_def)
  then have "run_server_startup sample_parsers sample_sha 0 0 sample_disk sample_kernel sample_answers pc_euid
      sample_users sample_env c ?s = (Inr (started_state\<lparr>sv_config := c\<rparr>), t)"
    by (simp add: run_server_startup_def sample_started_like [OF c(2)] t)
  with c show ?thesis
    by (simp add: main_def parse_audit_verify_path_def serve_def harden_umask_def sample_world_def sample_host_def
        install_signal_handlers_def Let_def)
qed

theorem serving_is_hardened_witness:
  "\<exists>st wd h. main sample_world [''ola-core''] sample_host = (Inr (Serving st wd), h) \<and>
     pc_euid (se_process (ho_setup h)) = 990 \<and> ho_umask h = 63"
proof -
  obtain st wd h where m: "main sample_world [''ola-core''] sample_host = (Inr (Serving st wd), h)"
    using sample_serves by blast
  have "kernel_laws (wo_sys sample_world)" "wo_euid sample_world = pc_euid"
    by (simp_all add: sample_world_def sample_kernel_laws)
  from serving_is_hardened [OF m this] have "pc_euid (se_process (ho_setup h)) = 990 \<and> ho_umask h = 63"
    by (auto simp: sample_host_def sample_root_def sample_world_def)
  with m show ?thesis by blast
qed

end
