(* ===== verification/Pam_Connect.thy ===== *)
theory Pam_Connect
  imports Systemd
begin

text \<open>
  Connecting with a deadline, \<open>pam-ola/src/unix_connect.rs\<close>. The file descriptor is followed
  explicitly: every function returns, beside its result, how often the descriptor was closed.
  The answers of \<open>socket\<close>, \<open>connect\<close>, \<open>poll\<close> and \<open>getsockopt\<close> and the clock are arguments;
  \<open>poll\<close> interrupted by a signal is a round of a list, and \<open>None\<close> is the loop still waiting at
  the end of the rounds given.
\<close>

definition EINPROGRESS :: int where
  "EINPROGRESS = 115"

definition EINTR :: int where
  "EINTR = 4"

datatype ConnectError = OsError int | InvalidInput string | TimedOut | NonblockingFailed

definition I32_MAX :: nat where
  "I32_MAX = 2147483647"

text \<open>The remaining time in whole milliseconds, at least 1 and at most \<open>i32::MAX\<close>.\<close>

definition poll_timeout_ms :: "duration \<Rightarrow> duration \<Rightarrow> nat option" where
  "poll_timeout_ms elapsed timeout =
     (if timeout < elapsed then None
      else
        let remaining = timeout - elapsed
        in if remaining = 0 then None
           else Some (max 1 (min I32_MAX (remaining div 1000000))))"

datatype PollResult = PollTimeout | PollErr int | PollReady

text \<open>\<open>getsockopt(SO_ERROR)\<close>: an error of the call, or the pending error of the socket.\<close>

record PollRound =
  po_elapsed :: duration
  po_result :: PollResult
  po_so_error :: "int + int"

fun wait_connected ::
  "duration \<Rightarrow> PollRound list \<Rightarrow> ((ConnectError + unit) \<times> nat) option" where
  "wait_connected timeout [] = None"
| "wait_connected timeout (r # rs) =
     (case poll_timeout_ms (po_elapsed r) timeout of
        None \<Rightarrow> Some (Inl TimedOut, 1)
      | Some timeout_ms \<Rightarrow>
         (case po_result r of
            PollTimeout \<Rightarrow> Some (Inl TimedOut, 1)
          | PollErr e \<Rightarrow>
              if e = EINTR then wait_connected timeout rs else Some (Inl (OsError e), 1)
          | PollReady \<Rightarrow>
             (case po_so_error r of
                Inl e \<Rightarrow> Some (Inl (OsError e), 1)
              | Inr so_error \<Rightarrow>
                  if so_error \<noteq> 0 then Some (Inl (OsError so_error), 1) else Some (Inr (), 0))))"

text \<open>The stream owns the descriptor, so dropping it on the error path closes it.\<close>

definition stream_from_fd :: "bool \<Rightarrow> (ConnectError + unit) \<times> nat" where
  "stream_from_fd blocking_ok = (if blocking_ok then (Inr (), 0) else (Inl NonblockingFailed, 1))"

text \<open>\<open>new_sock\<close>: \<open>None\<close> or the error of \<open>socket\<close>; \<open>conn\<close>: \<open>None\<close> or the error of \<open>connect\<close>.\<close>

definition connect_with_timeout ::
  "int option \<Rightarrow> int option \<Rightarrow> PollRound list \<Rightarrow> bool \<Rightarrow> string \<Rightarrow> duration \<Rightarrow>
   ((ConnectError + unit) \<times> nat) option" where
  "connect_with_timeout new_sock conn rounds blocking_ok path timeout =
     (case new_sock of
        Some e \<Rightarrow> Some (Inl (OsError e), 0)
      | None \<Rightarrow>
         (case unix_addr path of
            Inl msg \<Rightarrow> Some (Inl (InvalidInput msg), 1)
          | Inr addr \<Rightarrow>
             (case conn of
                None \<Rightarrow> Some (stream_from_fd blocking_ok)
              | Some e \<Rightarrow>
                  if e \<noteq> EINPROGRESS then Some (Inl (OsError e), 1)
                  else (case wait_connected timeout rounds of
                          None \<Rightarrow> None
                        | Some (Inl err, n) \<Rightarrow> Some (Inl err, n)
                        | Some (Inr _, n) \<Rightarrow>
                            (case stream_from_fd blocking_ok of (r, m) \<Rightarrow> Some (r, n + m))))))"

section \<open>Lemmas\<close>

lemma wait_connected_closes:
  "wait_connected timeout rs = Some (r, n) \<Longrightarrow> n = (case r of Inl _ \<Rightarrow> 1 | Inr _ \<Rightarrow> 0)"
  by (induction timeout rs rule: wait_connected.induct)
     (auto split: option.splits PollResult.splits sum.splits if_splits)

lemma wait_connected_decides:
  "r \<in> set rs \<Longrightarrow> timeout \<le> po_elapsed r \<Longrightarrow> wait_connected timeout rs \<noteq> None"
  by (induction timeout rs rule: wait_connected.induct)
     (auto simp: poll_timeout_ms_def split: option.splits PollResult.splits sum.splits if_splits)

text \<open>The descriptor never leaks and is never closed twice: once the socket exists, every error
  closes it exactly once and success leaves it open; and the wait ends at the latest in the first
  round that begins when the deadline has passed, however many signals interrupt it.\<close>

theorem connect_owns_descriptor:
  assumes "timeout \<le> po_elapsed r" and "r \<in> set rounds"
  shows "\<exists>res n. connect_with_timeout new_sock conn rounds blocking_ok path timeout = Some (res, n) \<and>
    n = (if new_sock = None \<and> (\<exists>e. res = Inl e) then 1 else 0)"
proof -
  obtain w n where w: "wait_connected timeout rounds = Some (w, n)"
    using wait_connected_decides [OF assms(2,1)] by auto
  have "n = (case w of Inl _ \<Rightarrow> 1 | Inr _ \<Rightarrow> 0)" by (rule wait_connected_closes [OF w])
  then show ?thesis
    using w
    by (auto simp: connect_with_timeout_def stream_from_fd_def split: option.splits sum.splits)
qed

definition sample_rounds :: "PollRound list" where
  "sample_rounds = [\<lparr>po_elapsed = 0, po_result = PollErr 4, po_so_error = Inr 0\<rparr>,
     \<lparr>po_elapsed = from_millis 8000, po_result = PollReady, po_so_error = Inr 0\<rparr>]"

theorem connect_owns_descriptor_witness:
  "\<exists>res n. connect_with_timeout None (Some 115) sample_rounds True ''/run/ola/ola.sock'' (from_millis 8000) =
     Some (res, n) \<and> n \<le> 1"
proof -
  have "from_millis 8000 \<le> po_elapsed \<lparr>po_elapsed = from_millis 8000, po_result = PollReady, po_so_error = Inr 0\<rparr>"
    "\<lparr>po_elapsed = from_millis 8000, po_result = PollReady, po_so_error = Inr 0\<rparr> \<in> set sample_rounds"
    by (simp_all add: sample_rounds_def)
  from connect_owns_descriptor [OF this, of None "Some 115" True "''/run/ola/ola.sock''"]
  show ?thesis by auto
qed

text \<open>A single wait stays within the deadline, up to the millisecond \<open>poll\<close> counts in.\<close>

lemma poll_timeout_bounds:
  assumes "poll_timeout_ms elapsed timeout = Some t"
  shows "1 \<le> t \<and> t \<le> I32_MAX \<and> (from_millis t \<le> timeout - elapsed \<or> t = 1) \<and> elapsed < timeout"
proof -
  have "from_millis ((timeout - elapsed) div 1000000) \<le> timeout - elapsed"
    by (simp add: div_times_less_eq_dividend)
  then show ?thesis
    using assms by (auto simp: poll_timeout_ms_def Let_def I32_MAX_def max_def min_def split: if_splits)
qed

end
