(* ===== verification/Pam.thy ===== *)
theory Pam
  imports Pam_Connect Protocol Audit_Entry
begin

text \<open>
  The PAM module, \<open>pam-ola/src/lib.rs\<close>. The C side (the argument vector, \<open>pam_get_user\<close>,
  \<open>getpwnam_r\<close>), the socket and serde are arguments. A read that has not been answered yet is the
  end of the list of reads, and then the result is \<open>None\<close>: the theorems say how many answers
  always suffice.
\<close>

section \<open>Configuration\<close>

definition PAM_SUCCESS :: int where "PAM_SUCCESS = 0"
definition PAM_PERM_DENIED :: int where "PAM_PERM_DENIED = 7"
definition PAM_AUTH_ERR :: int where "PAM_AUTH_ERR = 9"
definition PAM_USER_UNKNOWN :: int where "PAM_USER_UNKNOWN = 10"
definition PAM_IGNORE :: int where "PAM_IGNORE = 25"

definition PAM_PROTOCOL_VERSION :: u8 where "PAM_PROTOCOL_VERSION = 1"
definition MIN_TIMEOUT_MS :: u64 where "MIN_TIMEOUT_MS = 100"
definition MAX_TIMEOUT_MS :: u64 where "MAX_TIMEOUT_MS = 30000"
definition MAX_METHOD_LEN :: nat where "MAX_METHOD_LEN = 64"

record PamOlaConfig =
  pam_socket_path :: string
  pam_method :: string
  pam_timeout_ms :: u64

definition default_config :: PamOlaConfig where
  "default_config = \<lparr>pam_socket_path = ''/run/ola/ola.sock'', pam_method = ''fido2'', pam_timeout_ms = 8000\<rparr>"

datatype AuthOutcome = AuthAllow | AuthDeny string | AuthError string

definition pam_method_char :: "char \<Rightarrow> bool" where
  "pam_method_char b \<longleftrightarrow> is_ascii_alphanumeric b \<or> b = CHR ''_'' \<or> b = CHR ''-'' \<or> b = CHR ''.''"

definition validate_method_arg :: "string \<Rightarrow> string + unit" where
  "validate_method_arg method =
     (if method = [] then Inl ''method must not be empty''
      else if trim method \<noteq> method then Inl ''method must not contain leading or trailing whitespace''
      else if MAX_METHOD_LEN < length method
      then Inl (''method must be at most '' @ nat_to_string MAX_METHOD_LEN @ '' bytes'')
      else if \<not> list_all pam_method_char method
      then Inl (''method must use ASCII letters, digits, '_', '-', or '.'' @ [CHR 0x27])
      else Inr ())"

definition timeout_arg_error :: string where
  "timeout_arg_error = ''timeout_ms must be between 100 and 30000''"

definition strip_prefix :: "string \<Rightarrow> string \<Rightarrow> string option" where
  "strip_prefix p s = (if take (length p) s = p then Some (drop (length p) s) else None)"

definition parse_arg :: "string \<Rightarrow> PamOlaConfig \<Rightarrow> string + PamOlaConfig" where
  "parse_arg arg config =
     (case strip_prefix ''socket='' arg of
        Some value \<Rightarrow> Inr (config\<lparr>pam_socket_path := value\<rparr>)
      | None \<Rightarrow>
         (case strip_prefix ''method='' arg of
            Some value \<Rightarrow>
              res_bind (validate_method_arg value) (\<lambda>_. Inr (config\<lparr>pam_method := value\<rparr>))
          | None \<Rightarrow>
             (case strip_prefix ''timeout_ms='' arg of
                Some value \<Rightarrow>
                  res_bind (ok_or timeout_arg_error (parse_u64 value)) (\<lambda>timeout_ms.
                    if \<not> (MIN_TIMEOUT_MS \<le> timeout_ms \<and> timeout_ms \<le> MAX_TIMEOUT_MS)
                    then Inl timeout_arg_error
                    else Inr (config\<lparr>pam_timeout_ms := timeout_ms\<rparr>))
              | None \<Rightarrow>
                  Inl (''unknown PAM argument: '' @ takeWhile (\<lambda>c. c \<noteq> CHR ''='') arg))))"

fun parse_args :: "string option list \<Rightarrow> PamOlaConfig \<Rightarrow> string + PamOlaConfig" where
  "parse_args [] config = Inr config"
| "parse_args (None # args) config = parse_args args config"
| "parse_args (Some arg # args) config =
     (if \<not> utf8_valid arg then Inl ''PAM argument is not utf-8''
      else res_bind (parse_arg arg config) (parse_args args))"

text \<open>\<open>argv\<close> is \<open>None\<close> for a null vector; a null entry is \<open>None\<close> in it.\<close>

definition parse_argv :: "int \<Rightarrow> string option list option \<Rightarrow> string + PamOlaConfig" where
  "parse_argv argc argv =
     (case argv of
        None \<Rightarrow> Inr default_config
      | Some args \<Rightarrow>
          if argc \<le> 0 then Inr default_config
          else parse_args (take (nat argc) args) default_config)"

section \<open>The user\<close>

text \<open>\<open>answer\<close>: return code and user pointer of \<open>pam_get_user\<close>.\<close>

definition pam_user :: "bool \<Rightarrow> int \<times> string option \<Rightarrow> string option" where
  "pam_user null_handle answer =
     (if null_handle then None
      else case answer of (rc, user) \<Rightarrow>
        if rc \<noteq> PAM_SUCCESS then None
        else (case user of None \<Rightarrow> None | Some s \<Rightarrow> if utf8_valid s then Some s else None))"

datatype PwResult = PwOk "u32 option" | PwErange | PwError

definition MAX_PASSWD_BUF :: nat where
  "MAX_PASSWD_BUF = 1024 * 1024"

partial_function (option) passwd_loop :: "(nat \<Rightarrow> PwResult) \<Rightarrow> nat \<Rightarrow> u32 option option" where
  "passwd_loop getpw buf_len =
     (case getpw buf_len of
        PwOk result \<Rightarrow> Some result
      | PwError \<Rightarrow> Some None
      | PwErange \<Rightarrow>
          if MAX_PASSWD_BUF \<le> buf_len then Some None
          else passwd_loop getpw (min (buf_len * 2) MAX_PASSWD_BUF))"

definition uid_for_user :: "(string \<Rightarrow> nat \<Rightarrow> PwResult) \<Rightarrow> string \<Rightarrow> u32 option option" where
  "uid_for_user getpwnam user =
     (if CHR 0x00 \<in> set user then Some None else passwd_loop (getpwnam user) (16 * 1024))"

section \<open>Talking to the daemon\<close>

definition request_id :: "bytes option \<Rightarrow> string + string" where
  "request_id random =
     (case random of
        None \<Rightarrow> Inl ''request id randomness unavailable''
      | Some bs \<Rightarrow> Inr (''pam-'' @ encode_hex bs))"

datatype ReadResult = ReadByte char | ReadEof | ReadError string

fun read_loop :: "string \<Rightarrow> ReadResult list \<Rightarrow> (string + string) option" where
  "read_loop buf [] = None"
| "read_loop buf (ReadEof # rs) = Some (Inr buf)"
| "read_loop buf (ReadError e # rs) = Some (Inl (''read failed: '' @ e))"
| "read_loop buf (ReadByte b # rs) =
     (if b = newline then Some (Inr buf)
      else if 64 * 1024 < length (buf @ [b]) then Some (Inl ''response too large'')
      else read_loop (buf @ [b]) rs)"

text \<open>\<open>utf8_text\<close>: the message of the decoding error.\<close>

definition read_line :: "string \<Rightarrow> ReadResult list \<Rightarrow> (string + string) option" where
  "read_line utf8_text rs =
     map_option (\<lambda>r. res_bind r (\<lambda>buf. map_err (\<lambda>_. ''response was not utf-8: '' @ utf8_text) (from_utf8 buf)))
       (read_loop [] rs)"

definition interpret_response :: "(string \<Rightarrow> string + json) \<Rightarrow> string \<Rightarrow> string \<Rightarrow> AuthOutcome" where
  "interpret_response from_json response_line expected_id =
     (case from_json (trim response_line) of
        Inl e \<Rightarrow> AuthError (''invalid response json: '' @ e)
      | Inr response \<Rightarrow>
          if Option.bind (json_get response ''version'') json_as_u64 \<noteq> Some (ucast PAM_PROTOCOL_VERSION)
          then AuthError ''protocol version mismatch''
          else if Option.bind (json_get response ''id'') json_as_str \<noteq> Some expected_id
          then AuthError ''response id mismatch''
          else (case Option.bind (json_get response ''error'') json_as_str of
             Some e \<Rightarrow> AuthError e
           | None \<Rightarrow>
               let result = json_get response ''result'';
                   decision = Option.bind (Option.bind result (\<lambda>v. json_get v ''decision'')) json_as_str
               in if decision = Some ''allow'' then AuthAllow
                  else if decision = Some ''deny''
                  then AuthDeny (case Option.bind (Option.bind result (\<lambda>v. json_get v ''deny_reason'')) json_as_str of
                                   Some reason \<Rightarrow> reason | None \<Rightarrow> ''denied'')
                  else AuthError ''missing auth decision''))"

record PamIo =
  pi_new_sock :: "int option"
  pi_conn :: "int option"
  pi_rounds :: "PollRound list"
  pi_blocking_ok :: bool
  pi_read_timeout :: "string + unit"
  pi_write_timeout :: "string + unit"
  pi_random :: "bytes option"
  pi_write :: "string + unit"
  pi_reads :: "ReadResult list"

record PamText =
  pt_connect_error :: "ConnectError \<Rightarrow> string"
  pt_utf8_error :: string
  pt_to_text :: "json \<Rightarrow> string"
  pt_from_json :: "string \<Rightarrow> string + json"

definition auth_request :: "PamOlaConfig \<Rightarrow> u32 option \<Rightarrow> string \<Rightarrow> json" where
  "auth_request config uid rid =
     JObj [(''version'', JPos (ucast PAM_PROTOCOL_VERSION)), (''id'', JStr rid), (''method'', JStr ''verify_once''),
           (''params'', (case uid of
              Some u \<Rightarrow> JObj [(''method'', JStr (pam_method config)), (''uid'', JPos (ucast u))]
            | None \<Rightarrow> JObj [(''method'', JStr (pam_method config))]))]"

text \<open>The outcome and what was sent. \<open>None\<close>: the answers given do not decide it yet.\<close>

definition authenticate ::
  "PamText \<Rightarrow> PamIo \<Rightarrow> PamOlaConfig \<Rightarrow> u32 option \<Rightarrow> AuthOutcome option \<times> string list" where
  "authenticate pt io config uid =
     (case connect_with_timeout (pi_new_sock io) (pi_conn io) (pi_rounds io) (pi_blocking_ok io)
             (pam_socket_path config) (from_millis (unat (pam_timeout_ms config))) of
        None \<Rightarrow> (None, [])
      | Some (Inl e, _) \<Rightarrow> (Some (AuthError (''connect failed: '' @ pt_connect_error pt e)), [])
      | Some (Inr _, _) \<Rightarrow>
         (case pi_read_timeout io of
            Inl e \<Rightarrow> (Some (AuthError (''set read timeout failed: '' @ e)), [])
          | Inr _ \<Rightarrow>
         (case pi_write_timeout io of
            Inl e \<Rightarrow> (Some (AuthError (''set write timeout failed: '' @ e)), [])
          | Inr _ \<Rightarrow>
         (case request_id (pi_random io) of
            Inl e \<Rightarrow> (Some (AuthError e), [])
          | Inr rid \<Rightarrow>
              let line = pt_to_text pt (auth_request config uid rid) @ [newline]
              in (case pi_write io of
                   Inl e \<Rightarrow> (Some (AuthError (''write failed: '' @ e)), [])
                 | Inr _ \<Rightarrow>
                    (map_option (\<lambda>r. case r of
                         Inl e \<Rightarrow> AuthError e
                       | Inr response_line \<Rightarrow> interpret_response (pt_from_json pt) response_line rid)
                       (read_line (pt_utf8_error pt) (pi_reads io)),
                     [line]))))))"

section \<open>Entry points\<close>

fun pam_return_for_outcome :: "AuthOutcome \<Rightarrow> int" where
  "pam_return_for_outcome AuthAllow = PAM_SUCCESS"
| "pam_return_for_outcome (AuthDeny _) = PAM_PERM_DENIED"
| "pam_return_for_outcome (AuthError _) = PAM_AUTH_ERR"

definition pam_sm_authenticate_inner ::
  "PamText \<Rightarrow> PamIo \<Rightarrow> (string \<Rightarrow> nat \<Rightarrow> PwResult) \<Rightarrow> bool \<Rightarrow> int \<times> string option \<Rightarrow> int \<Rightarrow>
   string option list option \<Rightarrow> int option" where
  "pam_sm_authenticate_inner pt io getpwnam null_handle user argc argv =
     (case parse_argv argc argv of
        Inl _ \<Rightarrow> Some PAM_AUTH_ERR
      | Inr config \<Rightarrow>
         (case pam_user null_handle user of
            None \<Rightarrow> Some PAM_USER_UNKNOWN
          | Some name \<Rightarrow>
             (case uid_for_user getpwnam name of
                None \<Rightarrow> None
              | Some None \<Rightarrow> Some PAM_USER_UNKNOWN
              | Some (Some uid) \<Rightarrow>
                  map_option pam_return_for_outcome (fst (authenticate pt io config (Some uid))))))"

text \<open>\<open>catch_unwind\<close>: \<open>panics\<close> says whether the inner call panicked.\<close>

definition pam_sm_authenticate ::
  "bool \<Rightarrow> PamText \<Rightarrow> PamIo \<Rightarrow> (string \<Rightarrow> nat \<Rightarrow> PwResult) \<Rightarrow> bool \<Rightarrow> int \<times> string option \<Rightarrow> int \<Rightarrow>
   string option list option \<Rightarrow> int option" where
  "pam_sm_authenticate panics pt io getpwnam null_handle user argc argv =
     (if panics then Some PAM_AUTH_ERR
      else pam_sm_authenticate_inner pt io getpwnam null_handle user argc argv)"

text \<open>The hooks of the other PAM stages.\<close>

definition pam_sm_setcred :: int where "pam_sm_setcred = PAM_IGNORE"
definition pam_sm_acct_mgmt :: int where "pam_sm_acct_mgmt = PAM_IGNORE"
definition pam_sm_open_session :: int where "pam_sm_open_session = PAM_IGNORE"
definition pam_sm_close_session :: int where "pam_sm_close_session = PAM_IGNORE"
definition pam_sm_chauthtok :: int where "pam_sm_chauthtok = PAM_IGNORE"

end
