(* ===== verification/Pam_Properties.thy ===== *)
theory Pam_Properties
  imports Pam
begin

text \<open>
  What the PAM module promises: success is returned for exactly one kind of answer, every other
  outcome is a failure code; every loop of the module ends; and the names it accepts are those the
  daemon accepts.
\<close>

section \<open>Reading the answer\<close>

lemma read_loop_decides: "65537 \<le> length buf + length rs \<Longrightarrow> length buf \<le> 65536 \<Longrightarrow> read_loop buf rs \<noteq> None"
  by (induction buf rs rule: read_loop.induct) auto

lemma read_loop_Inr:
  "length buf \<le> 65536 \<Longrightarrow> read_loop buf rs = Some (Inr line) \<longleftrightarrow>
     (\<exists>bs stop rest. rs = map ReadByte bs @ stop # rest \<and> stop \<in> {ReadEof, ReadByte newline} \<and>
        newline \<notin> set bs \<and> line = buf @ bs \<and> length line \<le> 65536)"
proof (induction buf rs rule: read_loop.induct)
  case (1 buf)
  then show ?case by auto
next
  case (2 buf rs)
  have "ReadEof # rs = map ReadByte bs @ stop # rest \<longleftrightarrow> bs = [] \<and> stop = ReadEof \<and> rest = rs" for bs stop rest
    by (cases bs) auto
  then show ?case using 2 by auto
next
  case (3 buf e rs)
  have "ReadError e # rs = map ReadByte bs @ stop # rest \<longleftrightarrow> bs = [] \<and> stop = ReadError e \<and> rest = rs" for bs stop rest
    by (cases bs) auto
  then show ?case by auto
next
  case (4 buf b rs)
  have shape: "ReadByte b # rs = map ReadByte bs @ stop # rest \<longleftrightarrow>
      (bs = [] \<and> stop = ReadByte b \<and> rest = rs) \<or> (\<exists>cs. bs = b # cs \<and> rs = map ReadByte cs @ stop # rest)"
    for bs stop rest by (cases bs) auto
  show ?case
  proof (cases "b = newline")
    case True
    then show ?thesis using 4(2) unfolding shape by auto
  next
    case nl: False
    show ?thesis
    proof (cases "64 * 1024 < length (buf @ [b])")
      case True
      then have l: "length buf = 65536" using 4(2) by simp
      show ?thesis
        using nl True unfolding shape by (auto simp: l)
    next
      case False
      then have "read_loop buf (ReadByte b # rs) = Some (Inr line) \<longleftrightarrow> (\<exists>bs stop rest.
          rs = map ReadByte bs @ stop # rest \<and> stop \<in> {ReadEof, ReadByte newline} \<and> newline \<notin> set bs \<and>
          line = (buf @ [b]) @ bs \<and> length line \<le> 65536)"
        using 4(1) [OF nl False] nl by simp
      also have "\<dots> \<longleftrightarrow> (\<exists>bs stop rest. ReadByte b # rs = map ReadByte bs @ stop # rest \<and>
          stop \<in> {ReadEof, ReadByte newline} \<and> newline \<notin> set bs \<and> line = buf @ bs \<and> length line \<le> 65536)"
        using nl unfolding shape by (auto 0 4)
      finally show ?thesis .
    qed
  qed
qed

lemma read_line_Inr:
  "read_line u rs = Some (Inr line) \<longleftrightarrow> read_loop [] rs = Some (Inr line) \<and> utf8_valid line"
proof (cases "read_loop [] rs")
  case (Some r)
  then show ?thesis
    by (cases r) (auto simp: read_line_def from_utf8_def res_bind_def map_err_def split: if_splits)
qed (simp add: read_line_def)

text \<open>C40: Reading the daemon's answer always ends: 65537 answers of the socket are enough. A line is
  returned exactly when at most 64 KiB of valid UTF-8 without a newline arrived before a newline or
  the end of the stream.\<close>

theorem read_line_spec:
  "(65537 \<le> length rs \<longrightarrow> read_line u rs \<noteq> None) \<and>
   (read_line u rs = Some (Inr line) \<longleftrightarrow>
     (\<exists>stop rest. rs = map ReadByte line @ stop # rest \<and> stop \<in> {ReadEof, ReadByte newline} \<and>
        newline \<notin> set line \<and> length line \<le> 65536 \<and> utf8_valid line))"
proof -
  have "read_line u rs \<noteq> None" if "65537 \<le> length rs"
    using read_loop_decides [of "[]" rs] that by (auto simp: read_line_def)
  then show ?thesis
    unfolding read_line_Inr by (auto simp: read_loop_Inr [of "[]"])
qed

theorem read_line_spec_witness:
  "read_line [] [ReadByte CHR ''o'', ReadByte CHR ''k'', ReadByte newline] = Some (Inr ''ok'')"
  by (subst read_line_spec [THEN conjunct2]) (auto intro!: exI [of _ "ReadByte newline"])

section \<open>The user's uid\<close>

lemma passwd_loop_step:
  "passwd_loop g n = (case g n of PwOk r \<Rightarrow> Some r | PwError \<Rightarrow> Some None
     | PwErange \<Rightarrow> if MAX_PASSWD_BUF \<le> n then Some None else passwd_loop g (min (n * 2) MAX_PASSWD_BUF))"
  by (rule passwd_loop.simps)

lemma passwd_loop_from:
  "k \<le> 6 \<Longrightarrow> \<exists>r. passwd_loop g (16384 * 2 ^ k) = Some r \<and>
     (\<forall>uid. r = Some uid \<longrightarrow> (\<exists>j. k \<le> j \<and> j \<le> 6 \<and> g (16384 * 2 ^ j) = PwOk (Some uid) \<and>
        (\<forall>i. k \<le> i \<and> i < j \<longrightarrow> g (16384 * 2 ^ i) = PwErange)))"
proof (induction "6 - k" arbitrary: k)
  case 0
  then have "k = 6" by simp
  then show ?case
    by (subst passwd_loop_step) (auto simp: MAX_PASSWD_BUF_def split: PwResult.splits)
next
  case (Suc d)
  then have k: "k < 6" by simp
  have "(2 :: nat) ^ Suc k \<le> 2 ^ 6" using k by (intro power_increasing) auto
  then have le: "16384 * 2 ^ Suc k \<le> MAX_PASSWD_BUF" by (simp add: MAX_PASSWD_BUF_def)
  then have next_len: "min (16384 * 2 ^ k * 2) MAX_PASSWD_BUF = 16384 * 2 ^ Suc k"
    "\<not> MAX_PASSWD_BUF \<le> 16384 * 2 ^ k" by (simp_all add: MAX_PASSWD_BUF_def not_le)
  obtain r where r: "passwd_loop g (16384 * 2 ^ Suc k) = Some r"
    and w: "\<And>uid. r = Some uid \<Longrightarrow> \<exists>j. Suc k \<le> j \<and> j \<le> 6 \<and> g (16384 * 2 ^ j) = PwOk (Some uid) \<and>
        (\<forall>i. Suc k \<le> i \<and> i < j \<longrightarrow> g (16384 * 2 ^ i) = PwErange)"
  proof (atomize_elim)
    have "d = 6 - Suc k" "Suc k \<le> 6" using Suc.hyps(2) k by simp_all
    from Suc.hyps(1) [OF this]
    show "\<exists>r. passwd_loop g (16384 * 2 ^ Suc k) = Some r \<and> (\<forall>uid. r = Some uid \<longrightarrow>
      (\<exists>j\<ge>Suc k. j \<le> 6 \<and> g (16384 * 2 ^ j) = PwOk (Some uid) \<and>
        (\<forall>i. Suc k \<le> i \<and> i < j \<longrightarrow> g (16384 * 2 ^ i) = PwErange)))" .
  qed
  show ?case
  proof (cases "g (16384 * 2 ^ k)")
    case (PwOk x)
    then show ?thesis using k by (subst passwd_loop_step) (auto intro!: exI [of _ k])
  next
    case PwErange
    have "passwd_loop g (16384 * 2 ^ k) = Some r"
      using PwErange r next_len by (subst passwd_loop_step) (simp only: PwResult.case if_False)
    moreover have "\<exists>j. k \<le> j \<and> j \<le> 6 \<and> g (16384 * 2 ^ j) = PwOk (Some uid) \<and>
        (\<forall>i. k \<le> i \<and> i < j \<longrightarrow> g (16384 * 2 ^ i) = PwErange)" if "r = Some uid" for uid
    proof -
      from w [OF that] obtain j where j: "Suc k \<le> j" "j \<le> 6" "g (16384 * 2 ^ j) = PwOk (Some uid)"
        and e: "\<And>i. Suc k \<le> i \<Longrightarrow> i < j \<Longrightarrow> g (16384 * 2 ^ i) = PwErange" by blast
      have "g (16384 * 2 ^ i) = PwErange" if "k \<le> i" "i < j" for i
        using e [of i] that PwErange by (cases "i = k") auto
      then show ?thesis using j by (intro exI [of _ j] conjI) (auto dest: Suc_leD)
    qed
    ultimately show ?thesis by blast
  next
    case PwError
    then show ?thesis by (subst passwd_loop_step) simp
  qed
qed

text \<open>Looking up a user ends after at most seven calls, with buffers of 16 KiB doubled up to 1 MiB,
  and returns a uid only if one of those calls found the user.\<close>

theorem uid_for_user_returns:
  "\<exists>r. uid_for_user getpwnam user = Some r \<and>
     (\<forall>uid. r = Some uid \<longrightarrow> CHR 0x00 \<notin> set user \<and>
        (\<exists>j\<le>6. getpwnam user (16384 * 2 ^ j) = PwOk (Some uid) \<and>
           (\<forall>i<j. getpwnam user (16384 * 2 ^ i) = PwErange)))"
proof -
  obtain r where "passwd_loop (getpwnam user) 16384 = Some r"
    "\<And>uid. r = Some uid \<Longrightarrow> \<exists>j\<le>6. getpwnam user (16384 * 2 ^ j) = PwOk (Some uid) \<and>
        (\<forall>i<j. getpwnam user (16384 * 2 ^ i) = PwErange)"
    using passwd_loop_from [of 0 "getpwnam user"] by auto
  then show ?thesis by (auto simp: uid_for_user_def)
qed

theorem uid_for_user_returns_witness:
  "uid_for_user (\<lambda>_ n. if n < 40000 then PwErange else PwOk (Some 1000)) ''alice'' = Some (Some 1000) \<and>
   (\<exists>r. uid_for_user (\<lambda>_ _. PwErange) ''alice'' = Some r)"
  using uid_for_user_returns [of "\<lambda>_ _. PwErange" "''alice''"]
  by (auto simp: uid_for_user_def passwd_loop.simps MAX_PASSWD_BUF_def)

section \<open>Names and ids\<close>

lemma validate_method_arg_iff: "validate_method_arg m = Inr () \<longleftrightarrow> name_ok m"
proof -
  have c: "pam_method_char = name_char"
    by (auto simp: fun_eq_iff pam_method_char_def name_char_def)
  have "validate_method_arg m = Inr () \<longleftrightarrow> validate_name m True = Inr ()"
    by (simp add: validate_method_arg_def validate_name_def c MAX_METHOD_LEN_def MAX_NAME_LEN_def)
  then show ?thesis by (simp add: validate_name_iff)
qed

text \<open>The PAM module accepts a method name exactly when the daemon accepts it in a request, the
  word \<open>any\<close> included.\<close>

theorem pam_method_agrees:
  "validate_method_arg m = Inr () \<longleftrightarrow> validate_method_name m True = Inr ()"
  by (simp add: validate_method_arg_iff)

lemma request_id_inj: "request_id (Some a) = request_id (Some b) \<longleftrightarrow> a = b"
  by (simp add: request_id_def)

section \<open>Success\<close>

definition allowing :: "string \<Rightarrow> json \<Rightarrow> bool" where
  "allowing rid v \<longleftrightarrow> json_get v ''version'' = Some (JPos 1) \<and> json_get v ''id'' = Some (JStr rid) \<and>
     (\<forall>e. json_get v ''error'' \<noteq> Some (JStr e)) \<and>
     (\<exists>w. json_get v ''result'' = Some w \<and> json_get w ''decision'' = Some (JStr ''allow''))"

lemma bind_as_str: "Option.bind x json_as_str = Some s \<longleftrightarrow> x = Some (JStr s)"
  by (cases x) auto

lemma bind_as_u64: "Option.bind x json_as_u64 = Some n \<longleftrightarrow> x = Some (JPos n)"
  by (cases x) auto

lemma interpret_allow:
  "interpret_response from_json line rid = AuthAllow \<longleftrightarrow>
     (\<exists>v. from_json (trim line) = Inr v \<and> allowing rid v)"
proof (cases "from_json (trim line)")
  case (Inl e)
  then show ?thesis by (simp add: interpret_response_def)
next
  case (Inr v)
  have e: "Option.bind (json_get v ''error'') json_as_str = None \<longleftrightarrow> (\<forall>e. json_get v ''error'' \<noteq> Some (JStr e))"
    using bind_as_str [of "json_get v ''error''"] by (cases "Option.bind (json_get v ''error'') json_as_str") auto
  have d: "Option.bind r (\<lambda>v. Option.bind (json_get v ''decision'') json_as_str) = Some ''allow'' \<longleftrightarrow>
      (\<exists>w. r = Some w \<and> json_get w ''decision'' = Some (JStr ''allow''))" for r
    by (cases r) (auto simp: bind_as_str)
  show ?thesis
    using Inr e
    by (auto simp: interpret_response_def allowing_def Let_def bind_as_str bind_as_u64 d PAM_PROTOCOL_VERSION_def
        split: option.splits)
qed

lemma authenticate_allow:
  "fst (authenticate pt io config uid) = Some AuthAllow \<longleftrightarrow>
     (\<exists>n bs line v. connect_with_timeout (pi_new_sock io) (pi_conn io) (pi_rounds io) (pi_blocking_ok io)
          (pam_socket_path config) (from_millis (unat (pam_timeout_ms config))) = Some (Inr (), n) \<and>
        pi_read_timeout io = Inr () \<and> pi_write_timeout io = Inr () \<and> pi_random io = Some bs \<and>
        pi_write io = Inr () \<and> read_line (pt_utf8_error pt) (pi_reads io) = Some (Inr line) \<and>
        pt_from_json pt (trim line) = Inr v \<and> allowing (''pam-'' @ encode_hex bs) v)"
proof -
  have m: "map_option (\<lambda>r. case r of Inl e \<Rightarrow> AuthError e | Inr l \<Rightarrow> g l) x = Some AuthAllow \<longleftrightarrow>
      (\<exists>l. x = Some (Inr l) \<and> g l = AuthAllow)" for g and x :: "(string + string) option"
    by (cases x) (auto split: sum.splits)
  show ?thesis
    by (auto simp: authenticate_def request_id_def interpret_allow Let_def m
        simp del: map_option_eq_Some split: option.splits sum.splits)
qed

lemma authenticate_allow_sent:
  "fst (authenticate pt io config uid) = Some AuthAllow \<Longrightarrow> pi_random io = Some bs \<Longrightarrow>
     snd (authenticate pt io config uid) =
       [pt_to_text pt (auth_request config uid (''pam-'' @ encode_hex bs)) @ [newline]]"
  by (auto simp: authenticate_def request_id_def Let_def split: option.splits sum.splits)

text \<open>C16: PAM success is returned for one thing only: the arguments are valid, PAM names a user who
  exists, and the daemon answered over the socket with a JSON object of protocol version 1 that
  carries the random id of this very request, no error string and the decision \<open>allow\<close>. A panic,
  a bad argument, an unknown user, an I/O error or any other answer is a failure code.\<close>

theorem pam_success_iff:
  "pam_sm_authenticate panics pt io getpwnam null_handle user argc argv = Some PAM_SUCCESS \<longleftrightarrow>
    (\<not> panics \<and> (\<exists>config name uid n bs line v.
      parse_argv argc argv = Inr config \<and> pam_user null_handle user = Some name \<and>
      uid_for_user getpwnam name = Some (Some uid) \<and>
      connect_with_timeout (pi_new_sock io) (pi_conn io) (pi_rounds io) (pi_blocking_ok io)
        (pam_socket_path config) (from_millis (unat (pam_timeout_ms config))) = Some (Inr (), n) \<and>
      pi_read_timeout io = Inr () \<and> pi_write_timeout io = Inr () \<and> pi_random io = Some bs \<and>
      pi_write io = Inr () \<and> read_line (pt_utf8_error pt) (pi_reads io) = Some (Inr line) \<and>
      pt_from_json pt (trim line) = Inr v \<and> allowing (''pam-'' @ encode_hex bs) v))"
proof -
  have code: "pam_return_for_outcome o' = PAM_SUCCESS \<longleftrightarrow> o' = AuthAllow" for o'
    by (cases o') (simp_all add: PAM_SUCCESS_def PAM_PERM_DENIED_def PAM_AUTH_ERR_def)
  have map: "map_option pam_return_for_outcome x = Some PAM_SUCCESS \<longleftrightarrow> x = Some AuthAllow" for x
    by (cases x) (simp_all add: code)
  have ne: "PAM_AUTH_ERR \<noteq> PAM_SUCCESS" "PAM_USER_UNKNOWN \<noteq> PAM_SUCCESS"
    by (simp_all add: PAM_SUCCESS_def PAM_USER_UNKNOWN_def PAM_AUTH_ERR_def)
  show ?thesis
    unfolding pam_sm_authenticate_def pam_sm_authenticate_inner_def
    using ne
    by (auto simp: map authenticate_allow simp del: map_option_eq_Some split: sum.splits option.splits)
qed

section \<open>Arguments\<close>

definition pam_config_ok :: "PamOlaConfig \<Rightarrow> bool" where
  "pam_config_ok c \<longleftrightarrow> name_ok (pam_method c) \<and> 100 \<le> unat (pam_timeout_ms c) \<and> unat (pam_timeout_ms c) \<le> 30000"

lemma parse_arg_ok: "parse_arg arg c = Inr c' \<Longrightarrow> pam_config_ok c \<Longrightarrow> pam_config_ok c'"
  by (auto simp: parse_arg_def pam_config_ok_def validate_method_arg_iff MIN_TIMEOUT_MS_def MAX_TIMEOUT_MS_def
      word_le_nat_alt res_bind_Inr_iff split: option.splits if_splits)

lemma parse_args_ok: "parse_args args c = Inr c' \<Longrightarrow> pam_config_ok c \<Longrightarrow> pam_config_ok c'"
  by (induction args c rule: parse_args.induct) (auto simp: res_bind_Inr_iff dest: parse_arg_ok split: if_splits)

lemma default_config_ok: "pam_config_ok default_config"
  by (simp add: pam_config_ok_def default_config_def name_ok_def MAX_NAME_LEN_def name_char_def
      is_ascii_alphanumeric_def is_ascii_digit_def)

lemma parse_argv_ok: "parse_argv argc argv = Inr c \<Longrightarrow> pam_config_ok c"
  using parse_args_ok [OF _ default_config_ok] default_config_ok
  by (auto simp: parse_argv_def split: option.splits if_splits)

end
