(* ===== verification/Demo_Adapter.thy ===== *)
theory Demo_Adapter
  imports Attestation Socket_Setup Adapter_Client
begin

text \<open>
  The demonstration adapter, \<open>ola-adapter-demo-fido2/src/main.rs\<close>: its command line, its key
  file, the socket it binds and the answer it gives to one connection. serde, SHA-256, HMAC and the
  parser of floats are arguments. The main theorem is that the daemon's verifier accepts what this
  adapter computes on its own, from its own copy of the message format, as long as the confidence
  survives its way through JSON text: the HMAC covers its bits.
\<close>

section \<open>Configuration\<close>

record DemoConfig =
  dc_socket_path :: string
  dc_key_path :: string
  dc_method :: string
  dc_confidence :: f32

datatype DemoStart = DemoRun DemoConfig | DemoHelp

definition MAX_REQUEST_BYTES :: nat where
  "MAX_REQUEST_BYTES = 64 * 1024"

fun parse_demo_args :: "(string \<Rightarrow> f32 option) \<Rightarrow> string list \<Rightarrow> DemoConfig \<Rightarrow> string + DemoStart" where
  "parse_demo_args parse_f32 [] config = Inr (DemoRun config)"
| "parse_demo_args parse_f32 (arg # args) config =
     (if arg = ''--socket'' then
        (case args of [] \<Rightarrow> Inl ''--socket requires a path''
         | v # rest \<Rightarrow> parse_demo_args parse_f32 rest (config\<lparr>dc_socket_path := v\<rparr>))
      else if arg = ''--key'' then
        (case args of [] \<Rightarrow> Inl ''--key requires a path''
         | v # rest \<Rightarrow> parse_demo_args parse_f32 rest (config\<lparr>dc_key_path := v\<rparr>))
      else if arg = ''--method'' then
        (case args of [] \<Rightarrow> Inl ''--method requires a value''
         | v # rest \<Rightarrow> parse_demo_args parse_f32 rest (config\<lparr>dc_method := v\<rparr>))
      else if arg = ''--confidence'' then
        (case args of [] \<Rightarrow> Inl ''--confidence requires a value''
         | v # rest \<Rightarrow>
            (case parse_f32 v of
               None \<Rightarrow> Inl ''--confidence must be a float''
             | Some c \<Rightarrow> parse_demo_args parse_f32 rest (config\<lparr>dc_confidence := c\<rparr>)))
      else if arg = ''--help'' \<or> arg = ''-h'' then Inr DemoHelp
      else Inl (''unknown argument: '' @ arg))"

definition demo_from_env_and_args ::
  "(string \<Rightarrow> f32 option) \<Rightarrow> (string \<Rightarrow> EnvVar) \<Rightarrow> string list \<Rightarrow> string + DemoStart" where
  "demo_from_env_and_args parse_f32 env args =
     (let config = \<lparr>
        dc_socket_path = env_or env ''OLA_DEMO_FIDO2_SOCKET'' ''/tmp/ola-demo-fido2.sock'',
        dc_key_path = env_or env ''OLA_DEMO_FIDO2_KEY'' ''/tmp/ola-demo-fido2.key'',
        dc_method = env_or env ''OLA_DEMO_FIDO2_METHOD'' ''fido2'',
        dc_confidence =
          (case env ''OLA_DEMO_FIDO2_CONFIDENCE'' of
             EnvValue v \<Rightarrow> (case parse_f32 v of Some c \<Rightarrow> c | None \<Rightarrow> f32_one)
           | _ \<Rightarrow> f32_one)\<rparr>
      in res_bind (parse_demo_args parse_f32 args config) (\<lambda>start.
           case start of
             DemoHelp \<Rightarrow> Inr DemoHelp
           | DemoRun c \<Rightarrow>
               if \<not> f32_in_unit (dc_confidence c) then Inl ''confidence must be between 0.0 and 1.0''
               else Inr (DemoRun c)))"

section \<open>Key and socket\<close>

datatype DemoKeyError =
    KeyLinkStat | KeySymlink | KeyOpen IoErrorKind | KeyStat | KeyNotRegular | KeyAccessible
  | KeyRead | KeyLength nat

text \<open>\<open>link\<close>: what \<open>symlink_metadata\<close> of the path says; \<open>opened\<close>: the result of \<open>open\<close>.\<close>

definition demo_load_key :: "PathStat \<Rightarrow> (IoErrorKind + OpenFile) \<Rightarrow> DemoKeyError + bytes" where
  "demo_load_key link opened =
     (case link of
        PathIs k \<Rightarrow>
          if k = SymlinkPath then Inl KeySymlink
          else
            res_bind (map_err KeyOpen opened) (\<lambda>file.
            res_bind (ok_or KeyStat (fd_stat file)) (\<lambda>stat.
              if st_mode stat AND S_IFMT \<noteq> S_IFREG then Inl KeyNotRegular
              else if st_mode stat AND 63 \<noteq> 0 then Inl KeyAccessible
              else
                res_bind (ok_or KeyRead (fd_data file)) (\<lambda>content.
                  let data = as_bytes (take 33 content)
                  in if length data \<noteq> 32 then Inl (KeyLength (length data)) else Inr data)))
      | _ \<Rightarrow> Inl KeyLinkStat)"

definition demo_remove_stale_socket :: "SetupAnswers \<Rightarrow> ('p Setup, SetupError, unit) action" where
  "demo_remove_stale_socket an =
     (case an_stale_stat an of
        PathMissing \<Rightarrow> act_return ()
      | PathStatError \<Rightarrow> act_fail StaleStat
      | PathIs k \<Rightarrow>
          if k = SymlinkPath then act_fail StaleSymlink
          else if k \<noteq> SocketPath then act_fail StaleNotSocket
          else if an_connect an = Connected then act_fail SocketInUse
          else if an_connect an = ConnectDenied then act_fail StaleNotAccessible
          else emit RemoveSocket (an_remove_ok an) RemoveFailed)"

section \<open>One connection\<close>

record DemoResult =
  dr_version :: u8
  dr_id :: bytes
  dr_confidence :: f32
  dr_method :: string
  dr_timestamp_ms :: u64
  dr_uid :: u32
  dr_nonce :: bytes
  dr_evidence_hash :: bytes

definition demo_method_commitment :: "(bytes \<Rightarrow> bytes) \<Rightarrow> string \<Rightarrow> bytes" where
  "demo_method_commitment sha256 method = sha256 (as_bytes method)"

definition evidence_hash ::
  "(bytes \<Rightarrow> bytes) \<Rightarrow> (bytes \<Rightarrow> bytes \<Rightarrow> bytes) \<Rightarrow> bytes \<Rightarrow> bytes \<Rightarrow> u32 \<Rightarrow> string \<Rightarrow> f32 \<Rightarrow> u64 \<Rightarrow> bytes" where
  "evidence_hash sha256 hmac key nonce uid method confidence timestamp_ms =
     hmac key (nonce @ to_le_bytes_u32 uid @ demo_method_commitment sha256 method @
       to_le_bytes_u32 confidence @ to_le_bytes_u64 timestamp_ms)"

text \<open>\<open>data\<close>: the bytes on the connection up to its end, \<open>None\<close> for a read error.\<close>

definition read_capped_line :: "string option \<Rightarrow> string + string option" where
  "read_capped_line data =
     (case data of
        None \<Rightarrow> Inl ''read failed''
      | Some d \<Rightarrow>
          let capped = take (MAX_REQUEST_BYTES + 1) d;
              line = takeWhile (\<lambda>c. c \<noteq> newline) capped;
              buf = (if length line < length capped then line @ [newline] else line)
          in if buf = [] then Inr None
             else if MAX_REQUEST_BYTES < length buf then Inl ''request too large''
             else if \<not> utf8_valid buf then Inl ''request was not utf-8''
             else Inr (Some buf))"

record DemoSerde =
  ds_json :: "string \<Rightarrow> string + json"
  ds_request :: "json \<Rightarrow> string + VerificationRequest"
  ds_result :: "DemoResult \<Rightarrow> string + string"
  ds_pong :: string

definition demo_answer ::
  "(bytes \<Rightarrow> bytes) \<Rightarrow> (bytes \<Rightarrow> bytes \<Rightarrow> bytes) \<Rightarrow> DemoConfig \<Rightarrow> bytes \<Rightarrow> VerificationRequest \<Rightarrow> u64 \<Rightarrow> DemoResult" where
  "demo_answer sha256 hmac config key request timestamp_ms =
     \<lparr>dr_version = PROTOCOL_VERSION, dr_id = vr_id request, dr_confidence = dc_confidence config,
      dr_method = dc_method config, dr_timestamp_ms = timestamp_ms, dr_uid = vr_uid request,
      dr_nonce = vr_nonce request,
      dr_evidence_hash = evidence_hash sha256 hmac key (vr_nonce request) (vr_uid request)
        (dc_method config) (dc_confidence config) timestamp_ms\<rparr>"

text \<open>The lines written back. \<open>now\<close> and \<open>stamp\<close> are the two readings of the clock.\<close>

definition demo_handle_client ::
  "(bytes \<Rightarrow> bytes) \<Rightarrow> (bytes \<Rightarrow> bytes \<Rightarrow> bytes) \<Rightarrow> DemoSerde \<Rightarrow> DemoConfig \<Rightarrow> bytes \<Rightarrow> u64 \<Rightarrow> u64 \<Rightarrow>
   string option \<Rightarrow> string + string list" where
  "demo_handle_client sha256 hmac ds config key now stamp data =
     res_bind (read_capped_line data) (\<lambda>read.
       case read of
         None \<Rightarrow> Inr []
       | Some line \<Rightarrow>
           if trim line = [] then Inr []
           else
             res_bind (ds_json ds (trim line)) (\<lambda>v.
               if json_index v ''method'' = JStr ''ping'' then Inr [ds_pong ds]
               else
                 res_bind (ds_request ds v) (\<lambda>request.
                   if vr_version request \<noteq> PROTOCOL_VERSION
                   then Inl (''unsupported protocol version '' @ nat_to_string (unat (vr_version request)))
                   else if vr_deadline_ms request < now then Inl ''request deadline expired''
                   else
                     res_bind (ds_result ds (demo_answer sha256 hmac config key request stamp)) (\<lambda>text.
                       Inr [text]))))"

section \<open>The program\<close>

datatype DemoError = DemoUsage string | DemoKey DemoKeyError | DemoSocket SetupError

text \<open>The socket: its directory, what is left of an earlier run, the bind and mode 0600.\<close>

definition demo_listen :: "SetupAnswers \<Rightarrow> ('p Setup, SetupError, unit) action" where
  "demo_listen an =
     act_then (if an_has_parent an then emit CreateParent (an_create_parent_ok an) CreateParentFailed
               else act_return ()) (\<lambda>_.
     act_then (demo_remove_stale_socket an) (\<lambda>_.
     act_then (emit BindSocket (an_bind_ok an) BindFailed) (\<lambda>_.
       emit (SocketMode 384) (an_chmod_ok an) SocketChmod)))"

text \<open>
  A connection that was accepted, with the two readings of the clock and the bytes it carries, or
  one that was not. A failed request is reported and the loop goes on to the next.
\<close>

datatype DemoConnection = DemoAccepted u64 u64 "string option" | DemoAcceptFailed

fun demo_serve ::
  "(bytes \<Rightarrow> bytes) \<Rightarrow> (bytes \<Rightarrow> bytes \<Rightarrow> bytes) \<Rightarrow> DemoSerde \<Rightarrow> DemoConfig \<Rightarrow> bytes \<Rightarrow> DemoConnection list \<Rightarrow>
   string list list" where
  "demo_serve sha256 hmac ds config key [] = []"
| "demo_serve sha256 hmac ds config key (DemoAcceptFailed # cs) = [] # demo_serve sha256 hmac ds config key cs"
| "demo_serve sha256 hmac ds config key (DemoAccepted now stamp data # cs) =
     (case demo_handle_client sha256 hmac ds config key now stamp data of
        Inl _ \<Rightarrow> []
      | Inr written \<Rightarrow> written) # demo_serve sha256 hmac ds config key cs"

text \<open>\<open>--help\<close> prints the usage and exits; otherwise the lines written to each connection.\<close>

definition demo_main ::
  "(bytes \<Rightarrow> bytes) \<Rightarrow> (bytes \<Rightarrow> bytes \<Rightarrow> bytes) \<Rightarrow> DemoSerde \<Rightarrow> (string \<Rightarrow> f32 option) \<Rightarrow> (string \<Rightarrow> EnvVar) \<Rightarrow>
   string list \<Rightarrow> PathStat \<Rightarrow> (IoErrorKind + OpenFile) \<Rightarrow> SetupAnswers \<Rightarrow> DemoConnection list \<Rightarrow>
   ('p Setup, DemoError, string list list option) action" where
  "demo_main sha256 hmac ds parse_f32 env args link opened an connections s =
     (case demo_from_env_and_args parse_f32 env args of
        Inl e \<Rightarrow> (Inl (DemoUsage e), s)
      | Inr DemoHelp \<Rightarrow> (Inr None, s)
      | Inr (DemoRun config) \<Rightarrow>
          (case demo_load_key link opened of
             Inl e \<Rightarrow> (Inl (DemoKey e), s)
           | Inr key \<Rightarrow>
               (case demo_listen an s of
                  (Inl e, t) \<Rightarrow> (Inl (DemoSocket e), t)
                | (Inr _, t) \<Rightarrow> (Inr (Some (demo_serve sha256 hmac ds config key connections)), t))))"

section \<open>The daemon accepts the answer\<close>

text \<open>
  What the daemon's \<open>Deserialize\<close> makes of the fields the adapter's \<open>Serialize\<close> wrote. A confidence
  travels as a decimal number: \<open>f32_text\<close> stands for the value serde_json reads back from the text it
  wrote for a 32-bit float. The other fields are strings, integers and arrays of bytes.
\<close>

definition core_reads :: "(f32 \<Rightarrow> f32) \<Rightarrow> DemoResult \<Rightarrow> string + VerificationResult" where
  "core_reads f32_text d =
     res_bind (deserialize_method (dr_method d)) (\<lambda>m.
       Inr \<lparr>rs_version = dr_version d, rs_id = dr_id d, rs_confidence = f32_text (dr_confidence d), rs_method = m,
            rs_timestamp_ms = dr_timestamp_ms d, rs_uid = dr_uid d, rs_nonce = dr_nonce d,
            rs_evidence_hash = dr_evidence_hash d\<rparr>)"

lemma demo_handle_client_answers:
  assumes "demo_handle_client sha256 hmac ds config key now stamp data = Inr [text]"
    and "text \<noteq> ds_pong ds"
  shows "\<exists>line v request. read_capped_line data = Inr (Some line) \<and> ds_json ds (trim line) = Inr v \<and>
    ds_request ds v = Inr request \<and> vr_version request = PROTOCOL_VERSION \<and> now \<le> vr_deadline_ms request \<and>
    ds_result ds (demo_answer sha256 hmac config key request stamp) = Inr text"
  using assms
  by (auto simp: demo_handle_client_def res_bind_Inr_iff not_less split: option.splits if_splits)

lemma demo_answer_accepted:
  assumes "core_reads f32_text (demo_answer sha256 hmac config key request stamp) = Inr r"
    and "f32_text (dc_confidence config) = dc_confidence config"
    and "hm_get (adapter_keys v) name = Some key"
  shows "verify_attestation sha256 hmac v name r = Inr () \<and> rs_version r = 1 \<and>
    rs_id r = vr_id request \<and> rs_uid r = vr_uid request \<and> rs_nonce r = vr_nonce request \<and>
    as_str (rs_method r) = dc_method config \<and> rs_confidence r = dc_confidence config \<and> rs_timestamp_ms r = stamp"
proof -
  from assms(1,2) obtain m where m: "deserialize_method (dc_method config) = Inr m"
    and r: "r = \<lparr>rs_version = PROTOCOL_VERSION, rs_id = vr_id request, rs_confidence = dc_confidence config,
        rs_method = m, rs_timestamp_ms = stamp, rs_uid = vr_uid request, rs_nonce = vr_nonce request,
        rs_evidence_hash = evidence_hash sha256 hmac key (vr_nonce request) (vr_uid request)
          (dc_method config) (dc_confidence config) stamp\<rparr>"
    by (auto simp: core_reads_def demo_answer_def res_bind_Inr_iff)
  have "as_str m = dc_method config" using m by (simp add: deserialize_method_Inr)
  then have "attested_message sha256 r = vr_nonce request @ to_le_bytes_u32 (vr_uid request) @
      demo_method_commitment sha256 (dc_method config) @ to_le_bytes_u32 (dc_confidence config) @
      to_le_bytes_u64 stamp"
    by (simp add: r attested_message_def method_commitment_def demo_method_commitment_def)
  then show ?thesis
    using assms(3) \<open>as_str m = _\<close>
    by (simp add: verify_attestation_iff r evidence_hash_def PROTOCOL_VERSION_def)
qed

text \<open>C23: The line the adapter writes to a connection, unless it is the answer to a ping, is an answer to
  the request it read there, of the right version and not past its deadline. When the daemon's
  reader \<open>from_json\<close> reads the fields back as they were written, the confidence up to \<open>f32_text\<close>, and the
  configured confidence survives its way through decimal text, then what the daemon reads has the
  id, the uid and the nonce of the request, the method and the confidence the adapter is configured with,
  and its HMAC verifies under the key both sides hold.\<close>

theorem demo_answer_verifies:
  assumes "demo_handle_client sha256 hmac ds config key now stamp data = Inr [text]" and "text \<noteq> ds_pong ds"
    and serde: "\<And>d. ds_result ds d = Inr text \<Longrightarrow> from_json text = core_reads f32_text d"
    and "f32_text (dc_confidence config) = dc_confidence config" and "from_json text = Inr r"
    and "hm_get (adapter_keys verifier) name = Some key"
  shows "\<exists>line v request. read_capped_line data = Inr (Some line) \<and> ds_json ds (trim line) = Inr v \<and>
    ds_request ds v = Inr request \<and> vr_version request = PROTOCOL_VERSION \<and> now \<le> vr_deadline_ms request \<and>
    verify_attestation sha256 hmac verifier name r = Inr () \<and> rs_version r = 1 \<and>
    rs_id r = vr_id request \<and> rs_uid r = vr_uid request \<and> rs_nonce r = vr_nonce request \<and>
    as_str (rs_method r) = dc_method config \<and> rs_confidence r = dc_confidence config \<and> rs_timestamp_ms r = stamp"
proof -
  obtain line v request where q: "read_capped_line data = Inr (Some line)" "ds_json ds (trim line) = Inr v"
      "ds_request ds v = Inr request" "vr_version request = PROTOCOL_VERSION" "now \<le> vr_deadline_ms request"
    and wrote: "ds_result ds (demo_answer sha256 hmac config key request stamp) = Inr text"
    using demo_handle_client_answers [OF assms(1,2)] by blast
  have "core_reads f32_text (demo_answer sha256 hmac config key request stamp) = Inr r"
    using serde [OF wrote] assms(5) by simp
  from q demo_answer_accepted [OF this assms(4,6)] show ?thesis by blast
qed

text \<open>
  An adapter whose serde writes a result as the text \<open>r\<close> when it is the one expected, and a daemon
  whose reader keeps 24 bits of a confidence.
\<close>

definition sample_demo_request :: VerificationRequest where
  "sample_demo_request = \<lparr>vr_version = 1, vr_id = [2], vr_uid = 1000, vr_nonce = [3], vr_deadline_ms = 5\<rparr>"

definition sample_demo_answer :: DemoResult where
  "sample_demo_answer = demo_answer (\<lambda>x. take 32 (x @ replicate 32 0)) (\<lambda>k m. k @ m)
     \<lparr>dc_socket_path = [], dc_key_path = [], dc_method = ''fido2'', dc_confidence = f32_one\<rparr> [1] sample_demo_request 4"

definition sample_demo_serde :: DemoSerde where
  "sample_demo_serde = \<lparr>ds_json = (\<lambda>_. Inr (JObj [])), ds_request = (\<lambda>_. Inr sample_demo_request),
     ds_result = (\<lambda>d. if d = sample_demo_answer then Inr ''r'' else Inl ''unexpected''), ds_pong = ''p''\<rparr>"

theorem demo_answer_verifies_witness:
  "\<exists>r. core_reads (\<lambda>c. c AND 0xFFFFFF00) sample_demo_answer = Inr r \<and> rs_uid r = 1000 \<and> rs_nonce r = [3] \<and>
     verify_attestation (\<lambda>x. take 32 (x @ replicate 32 0)) (\<lambda>k m. k @ m) \<lparr>adapter_keys = [(''demo'', [1])]\<rparr> ''demo'' r = Inr ()"
proof -
  let ?c = "\<lparr>dc_socket_path = [], dc_key_path = [], dc_method = ''fido2'', dc_confidence = f32_one\<rparr>"
  let ?text = "\<lambda>c :: f32. c AND 0xFFFFFF00"
  have x: "trim ''x'' = ''x''" by (rule trim_plain_ascii) simp
  have h: "demo_handle_client (\<lambda>x. take 32 (x @ replicate 32 0)) (\<lambda>k m. k @ m) sample_demo_serde ?c [1] 3 4 (Some ''x'') =
      Inr [''r'']"
    by (simp add: demo_handle_client_def read_capped_line_def MAX_REQUEST_BYTES_def sample_demo_serde_def
        sample_demo_answer_def sample_demo_request_def PROTOCOL_VERSION_def json_index_def x)
  have p: "''r'' \<noteq> ds_pong sample_demo_serde" by (simp add: sample_demo_serde_def)
  have s: "ds_result sample_demo_serde d = Inr ''r'' \<Longrightarrow> (\<lambda>_. core_reads ?text sample_demo_answer) ''r'' = core_reads ?text d" for d
    by (simp add: sample_demo_serde_def split: if_splits)
  have c: "?text (dc_confidence ?c) = dc_confidence ?c" by (simp add: f32_one_def)
  have k: "hm_get (adapter_keys \<lparr>adapter_keys = [(''demo'', [1])]\<rparr>) ''demo'' = Some [1]" by (simp add: hm_get_def)
  obtain r where r: "core_reads ?text sample_demo_answer = Inr r"
    by (simp add: core_reads_def sample_demo_answer_def demo_answer_def deserialize_method_def)
  from demo_answer_verifies [OF h p s c r k] r show ?thesis
    by (auto simp: sample_demo_serde_def sample_demo_request_def)
qed

section \<open>The program as a whole\<close>

lemma demo_load_key_length: "demo_load_key link opened = Inr key \<Longrightarrow> length key = 32"
  by (auto simp: demo_load_key_def Let_def res_bind_Inr_iff split: PathStat.splits if_splits)

lemma demo_confidence_in_unit:
  assumes "demo_from_env_and_args parse_f32 env args = Inr (DemoRun config)"
  shows "f32_in_unit (dc_confidence config)"
proof -
  from assms obtain start where "(case start of DemoHelp \<Rightarrow> Inr DemoHelp
      | DemoRun c \<Rightarrow> if \<not> f32_in_unit (dc_confidence c) then Inl ''confidence must be between 0.0 and 1.0''
                    else Inr (DemoRun c)) = Inr (DemoRun config)"
    unfolding demo_from_env_and_args_def Let_def res_bind_Inr_iff by blast
  then show ?thesis by (cases start) (auto split: if_splits)
qed

lemma demo_serve_answers:
  "written \<in> set (demo_serve sha256 hmac ds config key cs) \<Longrightarrow> text \<in> set written \<Longrightarrow>
     text = ds_pong ds \<or> (\<exists>request now stamp. vr_version request = PROTOCOL_VERSION \<and>
       now \<le> vr_deadline_ms request \<and>
       ds_result ds (demo_answer sha256 hmac config key request stamp) = Inr text)"
proof (induction cs)
  case (Cons c cs)
  show ?case
  proof (cases "written \<in> set (demo_serve sha256 hmac ds config key cs)")
    case True
    then show ?thesis using Cons by blast
  next
    case False
    with Cons(2,3) obtain now stamp data where
      h: "demo_handle_client sha256 hmac ds config key now stamp data = Inr written"
      by (cases c) (auto split: sum.splits)
    then have "written = [text]" using Cons(3)
      by (auto simp: demo_handle_client_def res_bind_Inr_iff split: option.split_asm if_split_asm)
    then show ?thesis using demo_handle_client_answers h by blast
  qed
qed simp

text \<open>What the running adapter writes is a pong or an answer with the right key, within its deadline
  and with a confidence the daemon's policy can compare; its socket is bound once, with mode 0600.\<close>

lemma demo_main_answers:
  assumes "demo_main sha256 hmac ds parse_f32 env args link opened an cs \<lparr>se_trace = [], se_process = p\<rparr> =
      (Inr (Some out), t)"
    and "written \<in> set out" and "text \<in> set written" and "text \<noteq> ds_pong ds"
  shows "\<exists>config key request stamp. demo_load_key link opened = Inr key \<and> length key = 32 \<and>
    f32_in_unit (dc_confidence config) \<and> vr_version request = PROTOCOL_VERSION \<and>
    ds_result ds (demo_answer sha256 hmac config key request stamp) = Inr text"
  using assms demo_load_key_length demo_confidence_in_unit
  by (fastforce simp: demo_main_def dest!: demo_serve_answers
      split: sum.splits DemoStart.splits prod.splits)

lemma demo_main_socket:
  assumes "demo_main sha256 hmac ds parse_f32 env args link opened an cs \<lparr>se_trace = [], se_process = p\<rparr> =
      (Inr (Some out), t)"
  shows "\<exists>before. se_trace t = before @ [BindSocket, SocketMode 384] \<and> BindSocket \<notin> set before \<and> length out = length cs"
proof -
  have "length (demo_serve sha256 hmac ds config key cs) = length cs" for config key
    by (induction sha256 hmac ds config key cs rule: demo_serve.induct) auto
  then show ?thesis
    using assms
    by (auto simp: demo_main_def demo_listen_def demo_remove_stale_socket_def act_then_Inr emit_def
        split: sum.splits DemoStart.splits prod.splits if_splits PathStat.splits)
qed

lemma demo_stale_socket_agrees: "demo_remove_stale_socket an = remove_stale_socket_with an"
  by (auto simp: fun_eq_iff demo_remove_stale_socket_def remove_stale_socket_with_def
      split: PathStat.splits ConnectResult.splits)

end
