(* ===== verification/Spec2Isabelle.thy ===== *)
theory Spec2Isabelle
  imports Monitor Connection_Properties Daemon_Main Pam_Properties Demo_Adapter
begin

text \<open>
  \<^bold>\<open>OpenLinuxAuth core.\<close> A local authentication daemon decides, for a client on a Unix socket, whether
  a user may proceed. This library models its Rust sources and proves what the daemon promises.

  \<^bold>\<open>The program.\<close> A PAM module (\<open>crates/pam-ola\<close>) connects to the daemon (\<open>crates/ola-core\<close>) and asks
  \<open>verify_once\<close> for a uid and a method. The daemon admits the caller by its socket credentials and
  an allowlist, limits its rate, issues a nonce, sends a request to the adapter registered for the
  method, spends the nonce, checks the identity and the HMAC of the answer, evaluates the policy,
  writes one audit entry and only then answers. An adapter (\<open>crates/ola-adapter-demo-fido2\<close> is the
  one in the repository) signs its answers with a shared key. Files are read under checks of owner
  and mode; root is dropped before the first connection; SIGHUP reloads allowlist and policy.

  \<^bold>\<open>Theories and sources.\<close> Paths are under \<open>src/crates/ola-core/src\<close> unless they say otherwise.

  \<^item> \<open>Prelude\<close> (results, words, bytes), \<open>Rust_Strings\<close> (UTF-8 text, lines, trimming, decimal numbers),
    \<open>F32\<close> (the bits of a float and their order), \<open>Hash_Map\<close> (the map interface, a locale, and its
    list implementation), \<open>Json\<close> (values), \<open>Runs\<close> (reachable states, a locale whose instances are the accept loop, the system
    of requests, the daemon with its tasks and the monitor, and between two of them simulation and, as
    a case of it, refinement). The other interfaces are locales beside their providers:
    \<open>single_use_store\<close> (nonces), \<open>hash_chain\<close> (the log), \<open>trusted_loader\<close> (the four kinds of file).
  \<^item> \<open>Core_Types\<close>: \<open>core/types\<close>. \<open>Policy\<close>: \<open>core/policy\<close>.
  \<^item> \<open>Nonce_Store\<close>, \<open>Rate_Limit\<close>, \<open>Secure_Fs\<close>, \<open>Allowlist\<close>, \<open>Attestation\<close>, \<open>Privilege\<close>: the files of \<open>security\<close>.
  \<^item> \<open>Audit_Entry\<close>, \<open>Audit_Log\<close>, \<open>Audit_Properties\<close>: \<open>infrastructure/audit\<close>; the counters of \<open>metrics.rs\<close>
    are in \<open>Protocol\<close>.
  \<^item> \<open>Health\<close>, \<open>Adapter_Client\<close>, \<open>Adapter_Registry\<close> (with the configuration loader): \<open>adapters\<close>.
  \<^item> \<open>Config\<close>: \<open>config.rs\<close> and the command line of \<open>main.rs\<close>; \<open>Daemon_Main\<close>: the rest of \<open>main.rs\<close>.
  \<^item> \<open>Protocol\<close>, \<open>Socket_Setup\<close>, \<open>Systemd\<close>: the files of \<open>infrastructure/ipc\<close> with those names.
  \<^item> \<open>infrastructure/ipc/unix_socket.rs\<close> is split by phase: \<open>Server_Setup\<close> (loading, startup, reload),
    \<open>Accept_Loop\<close> (the loop of \<open>run_server\<close>), \<open>Server\<close> and \<open>Server_Properties\<close> (one connection),
    \<open>Server_System\<close> and \<open>System_Properties\<close> (all requests interleaved), \<open>Connections\<close> and
    \<open>Connection_Properties\<close> (the loop and its tasks over the shared server). \<open>Monitor\<close> is the
    abstract specification of the whole: what is challenged, granted, written and told.
  \<^item> \<open>Pam_Connect\<close>, \<open>Pam\<close>, \<open>Pam_Properties\<close>: \<open>crates/pam-ola/src\<close>. \<open>Demo_Adapter\<close>: the adapter.

  \<^bold>\<open>How code becomes definitions.\<close> A struct is a record, an enum a datatype, a \<open>Result\<close> a sum with the
  error on the left, \<open>?\<close> is \<open>res_bind\<close>; fixed-width integers are words. State is passed explicitly:
  \<open>ServerState\<close> holds the registry, allowlist and policy, keys, nonces, log, limiter, configuration and
  counters, and every operation returns it updated. \<open>handle_verify_once\<close> is composed of \<open>begin_verify\<close>
  (up to the dispatch), \<open>session_dispatch\<close>, \<open>conclude_verify\<close> with \<open>judge\<close>, and \<open>settle\<close> (the audit write
  and the answer); what a client's line asks for is settled before that by \<open>screen_line\<close>. The waits of
  the source fall between those pieces and before the send, and \<open>sys_step\<close> lets any other task run
  there; a send may fail and a task may be aborted. \<open>daemon_step\<close> keeps the tasks apart: each is in one
  \<open>Stage\<close> and moves by \<open>task_step\<close>, the loop spawns, joins and aborts them, and an audit write handed to
  the blocking pool outlives its task. The log is the text of the file, with a write that may fail or
  stop halfway. For what the theorems say of a run, \<open>System\<close> also keeps its history: the nonces
  issued, the adapter calls with what the sockets gave and what came of it, the answers judged, and
  the entries of which \<open>log\<close> returned success, that is, written and synced.

  \<^bold>\<open>Arguments.\<close> What is not in the repository is an argument: the readers and writers of serde and TOML,
  SHA-256, HMAC, the random source, the clocks, the answers of the kernel, the password database. The
  records \<open>Packages\<close>, \<open>Parsers\<close>, \<open>Oracle\<close>, \<open>SetupAnswers\<close>, \<open>PamIo\<close>, \<open>PamText\<close> and \<open>World\<close> collect them. A theorem
  that relies on one says so in its hypotheses: that an audit entry written is read back, that hashes of the lines at
  hand do not collide, that the kernel's credential calls do what they document (\<open>kernel_laws\<close>),
  that both ends of the socket read the same JSON value, that an adapter's confidence is the same after
  its way through decimal text (\<open>core_reads\<close>), that the limiter's clock does not run
  backwards, that a random request id is not in use for another uid. Each has a witness with concrete
  functions.

  \<^bold>\<open>What is shown.\<close>

  \<^item> A login: success of the PAM module implies that the daemon's whole path agreed for that uid and
    method (\<open>pam_login_sound\<close>, below), and in production, with all other tasks running, that the log
    has an attested allow for it (\<open>pam_login_attested\<close>), one that goes back to an issued nonce, an answer the
    adapter gave in that run and the judgement of that answer. An allow needs the adapter, the nonce, the deadline, the HMAC
    and the policy; nothing is answered without a durable entry; no decision without admission. When
    an honest adapter answers in time and the policy's rule is met, the answer is an allow.
  \<^item> All tasks together: the interleaved daemon refines the monitor (\<open>daemon_refines_monitor\<close>), and the
    code of a connection, every request on it included, refines the interleaved daemon
    (\<open>connection_refines_system\<close>). The loop with its client tasks implements the accept loop and the
    interleaved daemon at once (\<open>tasks_refine_loop_and_system\<close>); its permits keep the nonce store below its
    limits (\<open>challenge_always_available\<close>), and a stop is always within reach (\<open>shutdown_completes\<close>).
    Decisions and entries correspond one to one, the entries along a
    single hash chain; a nonce is honoured at most once per issue; in production each allow rests on a
    key loaded at startup and a policy that was in force; at most 200 requests of one caller reach
    verification in any second.
  \<^item> Components: nonces are not replayed, survive until their lifetime ends and stay within their limits;
    the limiter admits at most its quota per window in bounded space; the policy decides by its rules
    in any order; attestation commits to every field of an answer; a log written is a log that verifies,
    a tampered one does not, a restart resumes the chain; requests are routed to the adapter that
    registered the method, over an authenticated socket, only while it is healthy.
  \<^item> Startup: configuration, keys and owner are as production requires, and everything trusted comes
    from files only root or the service user can write; a serving daemon is hardened, down to what the
    system-call filter answers; a reload is all or nothing; at most sixteen clients are served at once
    and from every state the loop can reach its end.
  \<^item> Errors: a failed sync, an entry that cannot be read back and a rotated file make the log
    unverifiable; a full house keeps the loop from its signals.

  \<^bold>\<open>Bounds.\<close> Loops over input are structural recursion. Where the source asks the outside again until it
  gets an answer, the model takes the list of answers: the PAM module's \<open>read_loop\<close> decides within 65537
  of them, its \<open>passwd_loop\<close> within 7 calls (the buffer doubles up to its cap), a nonce is found or refused in 16
  tries; these are theorems, so the lists do not restrict the model. The watchdog's
  notification and the demonstration adapter's loop may go on for ever; their models take a finite list.

  \<^bold>\<open>Not modelled.\<close> Test code, the Python client, scripts and unit files; the insides of third-party
  crates, among them the compilation of the system-call filter to BPF, of which the list, the actions
  and the order of the steps are here; log messages other than the audit log; memory safety of the \<open>unsafe\<close> blocks, beyond the bounds of the socket
  addresses they pass; timing, except as the deadlines the code compares.
\<close>

section \<open>A login from end to end\<close>

lemma read_back:
  assumes "read_loop [] (map ReadByte txt @ ReadByte newline # rest) = Some (Inr line)"
    and "newline \<notin> set txt"
  shows "line = txt"
proof -
  have "a = b" if "map ReadByte a @ ReadByte newline # r = map ReadByte b @ stop # r'"
    "newline \<notin> set a" "newline \<notin> set b" "stop \<in> {ReadEof, ReadByte newline}" for a b r r' stop
    using that
  proof (induction a arbitrary: b)
    case Nil
    then show ?case by (cases b) auto
  next
    case (Cons c a)
    then show ?case by (cases b) auto
  qed
  then have one: "txt = line" if "map ReadByte txt @ ReadByte newline # rest = map ReadByte line @ stop # rest'"
    "newline \<notin> set line" "stop \<in> {ReadEof, ReadByte newline}" for stop rest'
    using that assms(2) by blast
  from assms(1) obtain stop rest' where "map ReadByte txt @ ReadByte newline # rest = map ReadByte line @ stop # rest'"
    "stop \<in> {ReadEof, ReadByte newline}" "newline \<notin> set line"
    by (auto simp: read_loop_Inr [of "[]"])
  then show ?thesis using one by blast
qed

lemma allowing_response:
  assumes "allowing rid (response_value r)"
  shows "rsp_id r = Some rid \<and> decision_of r = Some ''allow''"
  using assms
  by (auto simp: allowing_def response_value_def decision_of_def json_index_def split: option.splits)

lemma daemon_reads_auth_request:
  "request_of_value (auth_request config (Some uid) rid) =
     Inr \<lparr>rq_version = 1, rq_id = Some rid, rq_method = ''verify_once'',
          rq_params = Some (JObj [(''method'', JStr (pam_method config)), (''uid'', JPos (ucast uid))])\<rparr>"
  by (simp add: request_of_value_def request_of_fields_def auth_request_def json_optional_def PAM_PROTOCOL_VERSION_def)

lemma request_uid_root:
  "request_uid 0 (Some (JObj [(''method'', m), (''uid'', JPos (ucast (uid :: u32)))])) = Inr v \<Longrightarrow> v = uid"
proof -
  assume r: "request_uid 0 (Some (JObj [(''method'', m), (''uid'', JPos (ucast uid))])) = Inr v"
  have "ucast (ucast uid :: u64) = uid" by transfer simp
  then show "v = uid" using r by (simp add: request_uid_def split: if_splits)
qed

lemma request_method_given:
  "request_method (Some (JObj [(''method'', JStr m), (''uid'', v)])) = Inr n \<Longrightarrow> n = m"
  by (auto simp: request_method_def res_bind_Inr_iff)

text \<open>C1: A login is sound from end to end. Root's PAM module asks the daemon about \<open>uid\<close>; the daemon
  reads the line the module wrote and answers with one response, which the module reads back. If the
  module then reports success, the daemon's whole path agreed for exactly that uid and the method
  the module is configured with: adapter, nonce, deadline, HMAC and policy.\<close>

theorem pam_login_sound:
  assumes sent: "authenticate pt io config (Some uid) = (Some AuthAllow, [line @ [newline]])"
    and daemon: "handle_line pk orc self 0 line st = (ctl, [resp], st')"
    and received: "pi_reads io = map ReadByte txt @ ReadByte newline # rest" "newline \<notin> set txt"
    and request_text: "\<And>rid. pk_client_json pk (pt_to_text pt (auth_request config (Some uid) rid)) =
        request_of_value (auth_request config (Some uid) rid)"
    and response_text: "pt_from_json pt (trim txt) = Inr (response_value resp)"
  shows "\<exists>rid limiter resolved nonce nonces answer result.
    path_agreed pk orc (st\<lparr>sv_limiter := limiter\<rparr>) (sv_reloadable st) uid (pam_method config) rid resp
      resolved nonce nonces answer result"
proof -
  have allow: "fst (authenticate pt io config (Some uid)) = Some AuthAllow" using sent by simp
  then obtain bs line' v where bs: "pi_random io = Some bs"
    and rd: "read_line (pt_utf8_error pt) (pi_reads io) = Some (Inr line')"
    and v: "pt_from_json pt (trim line') = Inr v" "allowing (''pam-'' @ encode_hex bs) v"
    unfolding authenticate_allow by blast
  let ?rid = "''pam-'' @ encode_hex bs"
  have "line' = txt" using rd received by (auto simp: read_line_Inr intro: read_back)
  then have dec: "decision_of resp = Some ''allow''" using v response_text allowing_response by auto
  have "line = pt_to_text pt (auth_request config (Some uid) ?rid)"
    using authenticate_allow_sent [OF allow bs] sent by simp
  then have js: "pk_client_json pk line = request_of_value (auth_request config (Some uid) ?rid)"
    using request_text by simp
  from handle_line_decision [OF daemon, of resp] dec
  obtain req u m where req: "pk_client_json pk line = Inr req" "request_uid 0 (rq_params req) = Inr u"
      "request_method (rq_params req) = Inr m"
    and h: "handle_verify_once pk orc
         (st\<lparr>sv_limiter := snd (check (or_check_now orc) 0 100 (sv_limiter st))\<rparr>)
         (sv_reloadable st) 0 u m (rq_id req) = (resp, st')"
    by auto
  have "u = uid" "m = pam_method config"
    using req js by (auto simp: daemon_reads_auth_request dest: request_uid_root request_method_given)
  with handle_verify_allow [OF h dec] show ?thesis by blast
qed

text \<open>C2: The same in production and among all the other tasks. The daemon started in production mode and
  has been running, with any interleaving of requests, sweeps, probes and reloads; the module's
  answer is one of the responses sent. If the module reports success for \<open>uid\<close>, and nobody asked
  about another uid under its random request id, then the log has an allow for that request and that
  uid, and the allow rests on events of the run (\<open>allow_grounded\<close>): a nonce that was issued, a result
  that the adapter call of that session read from a socket whose peer has the configured uid, and a
  judgement of that very result before the deadline. The result carries the session's nonce and an
  HMAC under the key loaded at startup for the adapter that serves the method, and a policy that
  was in force allowed it.\<close>

theorem pam_login_attested:
  assumes startup: "initial_state ps sha256 cur is_root now dk users env config = Inr st0" "is_prod_mode config"
    and daemon: "reachable pk ps self st0 s" "resp \<in> set (sy_sent s)"
    and success: "fst (authenticate pt io pam_config (Some uid)) = Some AuthAllow" "pi_random io = Some bs"
    and received: "pi_reads io = map ReadByte txt @ ReadByte newline # rest" "newline \<notin> set txt"
      "pt_from_json pt (trim txt) = Inr (response_value resp)"
    and own_id: "\<forall>caller u. (Some (''pam-'' @ encode_hex bs), caller, u) \<in> set (sy_asked s) \<longrightarrow> u = uid"
  shows "\<exists>e p call result orc key. e \<in> set (sy_entries s) \<and> ae_request_id e = Some (''pam-'' @ encode_hex bs) \<and>
    ae_decision e = ''allow'' \<and> ae_uid e = uid \<and> allow_grounded pk self st0 s e p call result orc key"
proof -
  let ?rid = "Some (''pam-'' @ encode_hex bs)"
  from success obtain line v where rd: "read_line (pt_utf8_error pt) (pi_reads io) = Some (Inr line)"
    and v: "pt_from_json pt (trim line) = Inr v" "allowing (''pam-'' @ encode_hex bs) v"
    unfolding authenticate_allow by auto
  have "line = txt" using rd received by (auto simp: read_line_Inr intro: read_back)
  then have "rsp_id resp = ?rid \<and> decision_of resp = Some ''allow''" using v received(3) by (intro allowing_response) simp
  then obtain e where e: "e \<in> set (sy_entries s)" "ae_request_id e = ?rid" "ae_decision e = ''allow''"
    using sent_has_entry [OF daemon] by metis
  have "entry_origin e \<in> set (sy_asked s)" using reachable_origins [OF daemon(1)] e(1) by (auto simp: origins_ok_def)
  then have "ae_uid e = uid" using own_id e(2) by (simp add: entry_origin_def)
  with prod_entry_attested [OF startup daemon(1) e(1,3)] e show ?thesis by blast
qed

section \<open>An honest adapter\<close>

text \<open>C6: The daemon does not refuse an honest adapter. When the method resolves to an adapter whose key
  the daemon holds, the request reaches the demonstration adapter and its answer comes back before
  the deadline and within the nonce's lifetime, its confidence unchanged by the JSON text, the rule of the loaded policy for the method is met
  by the adapter's confidence and the age of its answer, and the audit log can be written, then
  the response is \<open>allow\<close>: the adapter's own computation of the HMAC passes the daemon's check.\<close>

theorem honest_adapter_allowed:
  assumes route: "resolve (sv_registry st) method = Inr resolved"
    and key: "hm_get (adapter_keys (sv_attester st)) (ra_adapter_name resolved) = Some key"
    and nonce: "nonce_inv (sv_nonces st)"
      "generate (or_rng orc) (or_generate_now orc) uid (sv_nonces st) = (Inr nonce, nonces)"
      "or_consume_now orc - or_generate_now orc \<le> NONCE_TTL"
    and request: "request = \<lparr>vr_version = PROTOCOL_VERSION, vr_id = or_uuid orc, vr_uid = uid, vr_nonce = nonce,
      vr_deadline_ms = saturating_add_u64 (or_start_ms orc) (ra_timeout_ms resolved)\<rparr>"
    and adapter: "core_reads f32_text (demo_answer (pk_sha256 pk) (pk_hmac pk) cfg key request stamp) = Inr result"
      "dc_method cfg = ra_method resolved" "f32_in_unit (dc_confidence cfg)"
      "f32_text (dc_confidence cfg) = dc_confidence cfg"
    and delivered: "fst (dispatch_resolved (pk_request_json pk) (pk_result_json pk) (or_queue orc) (or_io orc)
      (sv_registry st) resolved request) = Inr result" "or_finish_ms orc \<le> vr_deadline_ms request"
    and policy: "from_config_with_owner from_toml cur opened cap owner = Inr (rl_policy rel)"
      "rule_for (pe_rules (rl_policy rel)) (rs_method result) = Some rule"
      "\<not> f32_lt (dc_confidence cfg) (min_confidence rule)" "stamp \<le> or_policy_ms orc"
      "min (unat (max_age_secs rule)) (unat (max_result_age_secs (rl_policy rel))) * 1000 < 2 ^ 64"
      "unat (or_policy_ms orc) - unat stamp \<le>
         min (unat (max_age_secs rule)) (unat (max_result_age_secs (rl_policy rel))) * 1000"
    and audit: "audit_works pk orc st"
  shows "fst (handle_verify_once pk orc st rel caller uid method rid) = response_allow rid (ra_method resolved)"
proof -
  define ss where "ss = \<lparr>ss_caller_uid = caller, ss_uid = uid, ss_req_id = rid, ss_resolved = resolved,
    ss_nonce = nonce, ss_request = request\<rparr>"
  have b: "begin_verify orc st caller uid method rid = (Inr ss, st\<lparr>sv_nonces := nonces\<rparr>)"
    by (simp add: begin_verify_def route nonce(2) ss_def request)
  note a = demo_answer_accepted [OF adapter(1,4) key]
  have "evaluate (or_policy_ms orc) (rl_policy rel) (session_context ss result) = Allow"
    using policy adapter(3) a
    by (intro loaded_rule_allows [OF policy(1), where rule = rule]) (simp_all add: session_context_def ss_def request)
  then have "answer_sound pk orc rel ss (st\<lparr>sv_nonces := nonces\<rparr>) result"
    using a fresh_nonce_spendable [OF nonce] delivered(2) adapter(2)
    by (simp add: answer_sound_def ss_def request)
  moreover have "fst (session_dispatch pk orc (st\<lparr>sv_nonces := nonces\<rparr>) ss) = Inr result"
    using delivered(1) by (simp add: session_dispatch_def ss_def)
  ultimately show ?thesis
    using handle_verify_complete [OF b] audit by (simp add: ss_def)
qed

definition sample_demo_config :: DemoConfig where
  "sample_demo_config = \<lparr>dc_socket_path = [], dc_key_path = [], dc_method = ''fido2'', dc_confidence = f32_one\<rparr>"

theorem honest_adapter_allowed_witness:
  "fst (handle_verify_once sample_packages sample_oracle sample_state (sv_reloadable sample_state)
     0 1000 ''fido2'' (Some ''r1'')) = response_allow (Some ''r1'') ''fido2''"
proof -
  let ?ss = "sample_session 0 (Some ''r1'')"
  let ?key = "as_bytes (replicate 32 CHR ''k'')"
  let ?rule = "\<lparr>pr_method = None, min_confidence = f32_zero, max_age_secs = 30, require_uid_match = False\<rparr>"
  have route: "resolve (sv_registry sample_state) ''fido2'' = Inr (ss_resolved ?ss)"
    by (simp add: sample_resolve sample_session_def)
  have key: "hm_get (adapter_keys (sv_attester sample_state)) (ra_adapter_name (ss_resolved ?ss)) = Some ?key"
    by (simp add: sample_state_def sample_session_def hm_get_def)
  have fresh: "nonce_inv (sv_nonces sample_state)" "or_consume_now sample_oracle - or_generate_now sample_oracle \<le> NONCE_TTL"
    by (simp_all add: sample_state_def nonce_inv_new sample_oracle_def NONCE_TTL_def)
  have nonce: "generate (or_rng sample_oracle) (or_generate_now sample_oracle) 1000 (sv_nonces sample_state) =
      (Inr [7], issue [7] 0 1000 new_nonce_state)"
    using sample_generate [of 1000] by (simp add: sample_state_def)
  have request: "ss_request ?ss = \<lparr>vr_version = PROTOCOL_VERSION, vr_id = or_uuid sample_oracle, vr_uid = 1000,
      vr_nonce = [7], vr_deadline_ms = saturating_add_u64 (or_start_ms sample_oracle) (ra_timeout_ms (ss_resolved ?ss))\<rparr>"
    by (simp add: sample_session_def sample_oracle_def saturating_add_u64_def)
  have answer: "core_reads (\<lambda>c. c) (demo_answer (pk_sha256 sample_packages) (pk_hmac sample_packages) sample_demo_config ?key
      (ss_request ?ss) 60000) = Inr sample_allow_result"
    by (simp add: core_reads_def demo_answer_def sample_demo_config_def sample_session_def evidence_hash_def
        sample_packages_def sample_allow_result_def deserialize_method_def PROTOCOL_VERSION_def)
  have delivered: "fst (dispatch_resolved (pk_request_json sample_packages) (pk_result_json sample_packages)
      (or_queue sample_oracle) (or_io sample_oracle) (sv_registry sample_state) (ss_resolved ?ss) (ss_request ?ss))
      = Inr sample_allow_result"
    using sample_dispatch [of 0 "Some ''r1''"] by (simp add: session_dispatch_def)
  have engine: "rl_policy (sv_reloadable sample_state) = sample_engine" by (simp add: sample_state_def)
  have policy: "from_config_with_owner (\<lambda>_. Inr sample_raw_rules) 0 (Inr sample_policy_file) 10 RootOrCurrent =
      Inr (rl_policy (sv_reloadable sample_state))"
    using sample_engine_loaded engine by simp
  have rule: "rule_for (pe_rules (rl_policy (sv_reloadable sample_state))) (rs_method sample_allow_result) = Some ?rule"
    by (simp add: engine rule_for_def sample_engine_def sample_allow_result_def)
  have audit: "audit_works sample_packages sample_oracle sample_state"
    by (simp add: audit_works_def sample_state_def sample_logger_def sample_oracle_def sample_packages_def)
  have "fst (handle_verify_once sample_packages sample_oracle sample_state (sv_reloadable sample_state)
      0 1000 ''fido2'' (Some ''r1'')) = response_allow (Some ''r1'') (ra_method (ss_resolved ?ss))"
    by (rule honest_adapter_allowed [OF route key fresh(1) nonce fresh(2) request answer _ _ _ delivered _ policy rule _ _ _ _
        audit])
      (simp_all add: engine sample_demo_config_def sample_session_def f32_in_unit_iff sample_oracle_def f32_lt_def
        sample_engine_def)
  then show ?thesis by (simp add: sample_session_def)
qed

section \<open>A login that succeeds\<close>

definition sample_pam_io :: PamIo where
  "sample_pam_io = \<lparr>pi_new_sock = None, pi_conn = None, pi_rounds = [], pi_blocking_ok = True,
     pi_read_timeout = Inr (), pi_write_timeout = Inr (), pi_random = Some [7], pi_write = Inr (),
     pi_reads = map ReadByte ''ok'' @ ReadByte newline # []\<rparr>"

abbreviation sample_rid :: string where
  "sample_rid \<equiv> ''pam-'' @ encode_hex [7]"

definition sample_pam_text :: PamText where
  "sample_pam_text = \<lparr>pt_connect_error = (\<lambda>_. []), pt_utf8_error = [], pt_to_text = (\<lambda>v. case json_get v ''id'' of Some (JStr rid) \<Rightarrow> rid | _ \<Rightarrow> []),
     pt_from_json = (\<lambda>_. Inr (response_value (response_allow (Some sample_rid) ''fido2'')))\<rparr>"

definition login_packages :: Packages where
  "login_packages = sample_packages\<lparr>pk_client_json :=
     (\<lambda>line. request_of_value (auth_request default_config (Some 1000) line))\<rparr>"

lemma sample_pam_allow:
  "authenticate sample_pam_text sample_pam_io default_config (Some 1000) = (Some AuthAllow, [sample_rid @ [newline]])"
proof -
  have "unix_addr ''/run/ola/ola.sock'' = Inr (\<lparr>sun_family = 1,
      sun_path = as_bytes ''/run/ola/ola.sock'' @ replicate (108 - length ''/run/ola/ola.sock'') 0\<rparr>, 20)"
    by (subst unix_addr_Inr) (simp add: as_bytes_def)
  then have c: "connect_with_timeout None None [] True ''/run/ola/ola.sock'' t = Some (Inr (), 0)" for t
    by (simp add: connect_with_timeout_def stream_from_fd_def)
  have i: "interpret_response (pt_from_json sample_pam_text) ''ok'' sample_rid = AuthAllow"
    unfolding interpret_allow
    by (simp add: sample_pam_text_def allowing_def response_value_def response_allow_def response_ok_def)
  show ?thesis
    using i
    by (simp add: authenticate_def sample_pam_io_def default_config_def c request_id_def read_line_def
        from_utf8_def) (simp add: sample_pam_text_def auth_request_def)
qed

lemma sample_daemon_allow:
  "\<exists>st'. handle_line login_packages sample_oracle 5 0 sample_rid sample_state =
     (Continue, [response_allow (Some sample_rid) ''fido2''], st')"
proof -
  let ?params = "Some (JObj [(''method'', JStr ''fido2''), (''uid'', JPos 1000)])"
  let ?st1 = "sample_state\<lparr>sv_limiter := snd (check 0 0 RATE_LIMIT_PER_UID new_limiter)\<rparr>"
  have ok: "fst (check 0 0 RATE_LIMIT_PER_UID new_limiter)"
    by (simp add: check_def new_limiter_def with_max_tracked_uids_def MAX_TRACKED_UIDS_def
        bump_def saturating_add_u32_def RATE_LIMIT_PER_UID_def store_simps)
  have m: "request_method ?params = Inr ''fido2''"
    using sample_admission(4) by (simp add: request_method_def sample_request_def)
  have u: "request_uid 0 ?params = Inr 1000" by (simp add: request_uid_def)
  have "pk_client_json login_packages sample_rid = Inr \<lparr>rq_version = 1, rq_id = Some sample_rid,
      rq_method = ''verify_once'', rq_params = ?params\<rparr>"
    using daemon_reads_auth_request [of default_config 1000 sample_rid]
    by (simp add: login_packages_def default_config_def)
  moreover have "fst (handle_verify_once login_packages sample_oracle ?st1 (sv_reloadable sample_state) 0 1000
      ''fido2'' (Some sample_rid)) = response_allow (Some sample_rid) ''fido2''"
    using sample_allow [of 0 "Some sample_rid"]
    by (auto simp: login_packages_def handle_verify_client_json handle_verify_limiter)
  moreover have "is_allowed 5 0 al" for al by (simp add: is_allowed_def)
  moreover have "or_check_now sample_oracle = 0" "or_send_ok sample_oracle" "sv_limiter sample_state = new_limiter"
    by (simp_all add: sample_oracle_def sample_state_def)
  ultimately show ?thesis
    using ok m u
    by (simp add: handle_line_def screen_line_def serve_request_def verify_once_request_def reply_def split_beta PROTOCOL_VERSION_def Let_def)
qed

lemma sample_daemon_asks:
  assumes "fst (screen_line login_packages now 5 0 sample_rid sample_state) = Verify uid m rid"
  shows "uid = 1000"
proof -
  from assms obtain st' where
    "screen_line login_packages now 5 0 sample_rid sample_state = (Verify uid m rid, st')"
    by (metis prod.collapse)
  then show ?thesis
    by (cases rule: screen_line_cases)
      (auto simp: login_packages_def daemon_reads_auth_request default_config_def request_uid_def)
qed

theorem pam_login_sound_witness:
  "\<exists>rid limiter resolved nonce nonces answer result.
    path_agreed login_packages sample_oracle (sample_state\<lparr>sv_limiter := limiter\<rparr>) (sv_reloadable sample_state)
      1000 ''fido2'' rid (response_allow (Some sample_rid) ''fido2'') resolved nonce nonces answer result"
proof -
  obtain st' where d: "handle_line login_packages sample_oracle 5 0 sample_rid sample_state =
     (Continue, [response_allow (Some sample_rid) ''fido2''], st')"
    using sample_daemon_allow by blast
  have t: "pk_client_json login_packages (pt_to_text sample_pam_text (auth_request default_config (Some 1000) rid)) =
      request_of_value (auth_request default_config (Some 1000) rid)" for rid
    by (simp add: login_packages_def sample_pam_text_def auth_request_def)
  have r: "pi_reads sample_pam_io = map ReadByte ''ok'' @ ReadByte newline # []" "newline \<notin> set ''ok''"
    by (simp_all add: sample_pam_io_def)
  have v: "pt_from_json sample_pam_text (trim ''ok'') = Inr (response_value (response_allow (Some sample_rid) ''fido2''))"
    by (simp add: sample_pam_text_def)
  from pam_login_sound [OF sample_pam_allow d r t v] show ?thesis
    by (simp add: default_config_def)
qed

theorem pam_login_attested_witness:
  "\<exists>s e p call result orc key. reachable login_packages sample_parsers 5 started_state s \<and> e \<in> set (sy_entries s) \<and>
     ae_decision e = ''allow'' \<and> ae_uid e = 1000 \<and> ae_request_id e = Some sample_rid \<and>
     allow_grounded login_packages 5 started_state s e p call result orc key"
proof -
  have probed: "sy_server probed_system = sample_state" "sy_sent probed_system = []" "sy_asked probed_system = []"
    by (simp_all add: probed_system_def start_system_def)
  obtain st' where h: "handle_line login_packages sample_oracle 5 0 sample_rid (sy_server probed_system) =
     (Continue, [response_allow (Some sample_rid) ''fido2''], st')"
    using sample_daemon_allow probed by auto
  obtain s lost where s: "reachable login_packages sample_parsers 5 started_state s"
    "served probed_system st' [response_allow (Some sample_rid) ''fido2''] lost s"
    "sy_asked s = (case fst (screen_line login_packages (or_check_now sample_oracle) 5 0 sample_rid sample_state) of
       Verify uid m rid \<Rightarrow> [(rid, 0, uid)] | _ \<Rightarrow> [])"
    using line_run [OF probed_reachable h] probed by auto
  have sent: "response_allow (Some sample_rid) ''fido2'' \<in> set (sy_sent s)" using s(2) by (simp add: served_def)
  have prod: "is_prod_mode sample_server_config" by (simp add: is_prod_mode_def sample_server_config_def)
  have allow: "fst (authenticate sample_pam_text sample_pam_io default_config (Some 1000)) = Some AuthAllow"
    by (simp add: sample_pam_allow)
  have io: "pi_random sample_pam_io = Some [7]" "pi_reads sample_pam_io = map ReadByte ''ok'' @ ReadByte newline # []"
    "newline \<notin> set ''ok''"
    by (simp_all add: sample_pam_io_def)
  have v: "pt_from_json sample_pam_text (trim ''ok'') = Inr (response_value (response_allow (Some sample_rid) ''fido2''))"
    by (simp add: sample_pam_text_def)
  have own: "\<forall>caller u. (Some sample_rid, caller, u) \<in> set (sy_asked s) \<longrightarrow> u = 1000"
    using s(3) sample_daemon_asks [of "or_check_now sample_oracle"]
    by (cases "fst (screen_line login_packages (or_check_now sample_oracle) 5 0 sample_rid sample_state)") simp_all
  show ?thesis
    using pam_login_attested [OF sample_started prod s(1) sent allow io v own] s(1) by blast
qed

end
